(* ===== verification/Prelude.thy ===== *)
theory Prelude
  imports Complex_Main "HOL-Library.Word" "HOL-Library.Monad_Syntax"
begin

text \<open>
  Shared vocabulary of the development: the machine types of the C++ sources, the
  fact collections the component theories fill, and the generic lemmas on lists, options
  and 32-bit words that several components need.

  \<^item> \<open>u32\<close> is the \<^verbatim>\<open>uint32_t\<close> of quantities, counts and frame lengths; its arithmetic wraps.
  \<^item> \<open>double\<close> is a finite \<^verbatim>\<open>double\<close>, represented by the rational number it denotes:
    comparisons of finite doubles are comparisons of these numbers, and the rounding of every
    arithmetic operation is written out in the theory \<open>Float64\<close>.
  \<^item> \<open>time\<close> is a \<^verbatim>\<open>std::chrono::system_clock::time_point\<close>, in clock ticks since the epoch.
\<close>

type_synonym u8 = "8 word"
type_synonym u32 = "32 word"
type_synonym double = rat
type_synonym time = int

named_theorems engine_simps "simplification rules of the matching engine"
named_theorems engine_defs "the definitions of the matching engine's predicates"
named_theorems wire_simps "simplification rules of the wire format"

subsection \<open>32-bit words\<close>

lemma u32_positive_iff: "0 < (w :: u32) \<longleftrightarrow> w \<noteq> 0"
  by (simp add: word_gt_0)

lemma unat_min: "unat (min (a :: 'a :: len word) b) = min (unat a) (unat b)"
  by (simp add: min_def word_le_nat_alt)

lemma unat_sub_min: "unat ((a :: 'a :: len word) - min a b) = unat a - min (unat a) (unat b)"
  by (simp add: unat_sub unat_min)

lemma unat_eq_zero: "unat (w :: 'a :: len word) = 0 \<longleftrightarrow> w = 0"
  by (simp add: unat_eq_0)

subsection \<open>Lists\<close>

lemma remove1_empty_iff: "distinct xs \<Longrightarrow> remove1 x xs = [] \<longleftrightarrow> xs = [] \<or> xs = [x]"
  by (cases xs) auto

lemma sum_list_map_zero: "(\<And>x. x \<in> set xs \<Longrightarrow> f x = (0 :: nat)) \<Longrightarrow> sum_list (map f xs) = 0"
  by (induction xs) auto

text \<open>Submaps, as a step that only forgets entries leaves them.\<close>

lemma map_leD: "m \<subseteq>\<^sub>m n \<Longrightarrow> m i = Some x \<Longrightarrow> n i = Some x"
  by (metis domI map_le_def)

lemma map_le_forget: "m(i := None) \<subseteq>\<^sub>m m"
  by (auto simp: map_le_def)

end
