(* ===== verification/Orders.thy ===== *)
theory Orders
  imports Prelude
begin

text \<open>
  The class \<^verbatim>\<open>Order\<close> of \<^verbatim>\<open>common/include/order.h\<close> and \<^verbatim>\<open>common/src/order.cpp\<close>: the enumerations, the
  object's fields, the constructor and the operations \<^verbatim>\<open>fill\<close>, \<^verbatim>\<open>cancel\<close> and \<^verbatim>\<open>trigger\<close>, each of
  which returns its boolean result and the updated object, and the two comparators.
  The lemmas describe the life cycle: an order is active (\<open>PENDING\<close> or \<open>PARTIAL\<close>) until it is
  filled or cancelled, and then never changes again.
\<close>

datatype OrderSide = BUY | SELL

datatype OrderType = LIMIT | MARKET | STOP | STOP_LIMIT

datatype OrderStatus = PENDING | PARTIAL | FILLED | CANCELED | REJECTED

record order =
  o_id :: string
  o_client_id :: string
  o_symbol :: string
  o_side :: OrderSide
  o_type :: OrderType
  o_price :: double
  o_stop_price :: double
  o_quantity :: u32
  o_remaining :: u32
  o_status :: OrderStatus
  o_timestamp :: time

text \<open>The constructor; \<open>now\<close> is the reading of the system clock.\<close>

definition new_order ::
  "time \<Rightarrow> string \<Rightarrow> OrderSide \<Rightarrow> double \<Rightarrow> u32 \<Rightarrow> string \<Rightarrow> string \<Rightarrow> OrderType \<Rightarrow> double \<Rightarrow> order" where
  "new_order now i sd pr qty smb cid ty sp =
     \<lparr>o_id = i, o_client_id = cid, o_symbol = smb, o_side = sd, o_type = ty, o_price = pr,
      o_stop_price = sp, o_quantity = qty, o_remaining = qty, o_status = PENDING,
      o_timestamp = now\<rparr>"

definition isStopOrder :: "order \<Rightarrow> bool" where
  "isStopOrder ord \<longleftrightarrow> o_type ord = STOP \<or> o_type ord = STOP_LIMIT"

definition fill :: "order \<Rightarrow> u32 \<Rightarrow> bool \<times> order" where
  "fill ord qty =
     (if o_status ord = CANCELED \<or> o_status ord = REJECTED \<or> o_status ord = FILLED then (False, ord)
      else if qty > o_remaining ord then (False, ord)
      else
        let ord1 = ord\<lparr>o_remaining := o_remaining ord - qty\<rparr>
        in if o_remaining ord1 = 0 then (True, ord1\<lparr>o_status := FILLED\<rparr>)
           else (True, ord1\<lparr>o_status := PARTIAL\<rparr>))"

definition cancel :: "order \<Rightarrow> bool \<times> order" where
  "cancel ord =
     (if o_status ord = FILLED \<or> o_status ord = CANCELED \<or> o_status ord = REJECTED then (False, ord)
      else (True, ord\<lparr>o_status := CANCELED\<rparr>))"

definition trigger :: "order \<Rightarrow> bool \<times> order" where
  "trigger ord =
     (if o_type ord = STOP then (True, ord\<lparr>o_type := MARKET\<rparr>)
      else if o_type ord = STOP_LIMIT then (True, ord\<lparr>o_type := LIMIT\<rparr>)
      else (False, ord))"

definition comparePriceAscending :: "order \<Rightarrow> order \<Rightarrow> bool" where
  "comparePriceAscending a b =
     (if o_price a \<noteq> o_price b then o_price a < o_price b
      else o_timestamp a < o_timestamp b)"

definition comparePriceDescending :: "order \<Rightarrow> order \<Rightarrow> bool" where
  "comparePriceDescending a b =
     (if o_price a \<noteq> o_price b then o_price a > o_price b
      else o_timestamp a < o_timestamp b)"

text \<open>An executed trade (\<^verbatim>\<open>struct Trade\<close>).\<close>

record trade =
  t_buy_order_id :: string
  t_sell_order_id :: string
  t_symbol :: string
  t_price :: double
  t_quantity :: u32
  t_timestamp :: time

subsection \<open>The life cycle of an order\<close>

definition active :: "order \<Rightarrow> bool" where
  "active ord \<longleftrightarrow> o_status ord = PENDING \<or> o_status ord = PARTIAL"

text \<open>
  Well-formedness: what is left never exceeds what was ordered, an untouched order has
  everything left, and a filled order has nothing left.
\<close>

definition wf_order :: "order \<Rightarrow> bool" where
  "wf_order ord \<longleftrightarrow>
     o_remaining ord \<le> o_quantity ord \<and>
     (o_status ord = PENDING \<longrightarrow> o_remaining ord = o_quantity ord) \<and>
     (o_status ord = FILLED \<longrightarrow> o_remaining ord = 0)"

lemma active_iff: "active ord \<longleftrightarrow>
    o_status ord \<noteq> CANCELED \<and> o_status ord \<noteq> REJECTED \<and> o_status ord \<noteq> FILLED"
  by (cases "o_status ord") (auto simp: active_def)

lemma wf_new_order: "wf_order (new_order now i sd pr qty smb cid ty sp)"
  by (simp add: wf_order_def new_order_def)

lemma active_new_order: "active (new_order now i sd pr qty smb cid ty sp)"
  by (simp add: active_def new_order_def)

lemma fill_success_iff: "fst (fill ord qty) \<longleftrightarrow> active ord \<and> qty \<le> o_remaining ord"
  by (auto simp: fill_def active_iff Let_def not_less)

lemma fill_failure: "\<not> fst (fill ord qty) \<Longrightarrow> snd (fill ord qty) = ord"
  unfolding fill_success_iff by (auto simp: fill_def active_iff Let_def not_le)

lemma fill_success:
  assumes "active ord" and "qty \<le> o_remaining ord"
  shows "fill ord qty =
    (True, ord\<lparr>o_remaining := o_remaining ord - qty,
               o_status := (if o_remaining ord = qty then FILLED else PARTIAL)\<rparr>)"
proof -
  from assms(2) have "\<not> o_remaining ord < qty" by simp
  with assms(1) show ?thesis by (auto simp: fill_def active_iff Let_def)
qed

text \<open>Only the remaining quantity and the status are ever written by \<open>fill\<close>.\<close>

lemma fill_frame [simp]:
  "o_id (snd (fill ord qty)) = o_id ord"
  "o_client_id (snd (fill ord qty)) = o_client_id ord"
  "o_symbol (snd (fill ord qty)) = o_symbol ord"
  "o_side (snd (fill ord qty)) = o_side ord"
  "o_type (snd (fill ord qty)) = o_type ord"
  "o_price (snd (fill ord qty)) = o_price ord"
  "o_stop_price (snd (fill ord qty)) = o_stop_price ord"
  "o_quantity (snd (fill ord qty)) = o_quantity ord"
  "o_timestamp (snd (fill ord qty)) = o_timestamp ord"
  by (simp_all add: fill_def Let_def)

lemma cancel_frame [simp]:
  "o_id (snd (cancel ord)) = o_id ord"
  "o_client_id (snd (cancel ord)) = o_client_id ord"
  "o_symbol (snd (cancel ord)) = o_symbol ord"
  "o_timestamp (snd (cancel ord)) = o_timestamp ord"
  "o_side (snd (cancel ord)) = o_side ord"
  "o_type (snd (cancel ord)) = o_type ord"
  "o_price (snd (cancel ord)) = o_price ord"
  "o_stop_price (snd (cancel ord)) = o_stop_price ord"
  "o_quantity (snd (cancel ord)) = o_quantity ord"
  "o_remaining (snd (cancel ord)) = o_remaining ord"
  by (simp_all add: cancel_def)

lemma trigger_frame [simp]:
  "o_id (snd (trigger ord)) = o_id ord"
  "o_client_id (snd (trigger ord)) = o_client_id ord"
  "o_symbol (snd (trigger ord)) = o_symbol ord"
  "o_timestamp (snd (trigger ord)) = o_timestamp ord"
  "o_side (snd (trigger ord)) = o_side ord"
  "o_price (snd (trigger ord)) = o_price ord"
  "o_stop_price (snd (trigger ord)) = o_stop_price ord"
  "o_quantity (snd (trigger ord)) = o_quantity ord"
  "o_remaining (snd (trigger ord)) = o_remaining ord"
  "o_status (snd (trigger ord)) = o_status ord"
  by (simp_all add: trigger_def)

lemma cancel_success_iff: "fst (cancel ord) \<longleftrightarrow> active ord"
  by (auto simp: cancel_def active_iff)

lemma trigger_not_stop: "\<not> isStopOrder (snd (trigger ord))"
  by (auto simp: trigger_def isStopOrder_def)

lemma wf_fill: "wf_order ord \<Longrightarrow> wf_order (snd (fill ord qty))"
proof (cases "active ord \<and> qty \<le> o_remaining ord")
  case True
  assume wf: "wf_order ord"
  from True have "o_remaining ord - qty \<le> o_remaining ord"
    by (simp add: word_sub_le)
  with wf have "o_remaining ord - qty \<le> o_quantity ord"
    by (auto simp: wf_order_def intro: order_trans)
  with True show ?thesis
    by (simp add: fill_success wf_order_def)
next
  case False
  assume "wf_order ord"
  with False show ?thesis by (simp add: fill_failure fill_success_iff)
qed

lemma wf_cancel: "wf_order ord \<Longrightarrow> wf_order (snd (cancel ord))"
  by (auto simp: cancel_def wf_order_def)

lemma wf_trigger: "wf_order ord \<Longrightarrow> wf_order (snd (trigger ord))"
  by (auto simp: trigger_def wf_order_def)

subsection \<open>Properties of the class\<close>

text \<open>
  Filling: the call succeeds exactly on an active order and for at most the remaining
  quantity; then the quantity is deducted without wrap-around and the status becomes
  \<open>FILLED\<close> exactly when nothing is left (\<open>PARTIAL\<close> otherwise); a refused call leaves the order
  as it was.
\<close>

theorem fill_correct:
  "case fill ord qty of (ok, ord') \<Rightarrow>
     (ok = (active ord \<and> qty \<le> o_remaining ord)) \<and>
     (if ok then unat (o_remaining ord') = unat (o_remaining ord) - unat qty \<and>
                 o_status ord' = (if o_remaining ord' = 0 then FILLED else PARTIAL) \<and>
                 ord' = ord\<lparr>o_remaining := o_remaining ord', o_status := o_status ord'\<rparr>
      else ord' = ord)"
proof (cases "active ord \<and> qty \<le> o_remaining ord")
  case True
  then show ?thesis
    by (auto simp: fill_success unat_sub)
next
  case False
  then have "\<not> fst (fill ord qty)" by (simp add: fill_success_iff)
  moreover from this have "snd (fill ord qty) = ord" by (rule fill_failure)
  ultimately show ?thesis
    using False by (auto simp: case_prod_beta)
qed

end
