(* ===== verification/Std_Map.thy ===== *)
theory Std_Map
  imports Prelude
begin

text \<open>
  The ordered associative container the engine is built on, \<^verbatim>\<open>std::map<K, V>\<close>, as an
  association list in strictly ascending key order, which is the order its iterators visit.
  The operations are the ones \<^verbatim>\<open>orderbook.cpp\<close> uses: \<^verbatim>\<open>find\<close>, assignment through an
  iterator or \<^verbatim>\<open>operator[]\<close>, \<^verbatim>\<open>erase\<close>, and the elements at \<^verbatim>\<open>begin()\<close> and \<^verbatim>\<open>rbegin()\<close>.
  The locale \<open>ordered_map\<close> states the contract of the container and derives what
  the engine relies on; it is interpreted on the association list.
\<close>

type_synonym ('k, 'v) std_map = "('k \<times> 'v) list"

definition map_inv :: "('k :: linorder, 'v) std_map \<Rightarrow> bool" where
  "map_inv m \<longleftrightarrow> sorted_wrt (<) (map fst m)"

definition map_find :: "('k, 'v) std_map \<Rightarrow> 'k \<Rightarrow> 'v option" where
  "map_find m k = map_of m k"

fun map_put :: "'k :: linorder \<Rightarrow> 'v \<Rightarrow> ('k, 'v) std_map \<Rightarrow> ('k, 'v) std_map" where
  "map_put k v [] = [(k, v)]"
| "map_put k v ((k', v') # m) =
     (if k < k' then (k, v) # (k', v') # m
      else if k = k' then (k, v) # m
      else (k', v') # map_put k v m)"

definition map_erase :: "'k \<Rightarrow> ('k, 'v) std_map \<Rightarrow> ('k, 'v) std_map" where
  "map_erase k m = filter (\<lambda>e. fst e \<noteq> k) m"

definition map_first :: "('k, 'v) std_map \<Rightarrow> ('k \<times> 'v) option" where
  "map_first m = (case m of [] \<Rightarrow> None | e # _ \<Rightarrow> Some e)"

definition map_last :: "('k, 'v) std_map \<Rightarrow> ('k \<times> 'v) option" where
  "map_last m = (if m = [] then None else Some (last m))"

subsection \<open>The contract of an ordered map\<close>

locale ordered_map =
  fixes inv :: "'m \<Rightarrow> bool"
    and find :: "'m \<Rightarrow> 'k :: linorder \<Rightarrow> 'v option"
    and put :: "'k \<Rightarrow> 'v \<Rightarrow> 'm \<Rightarrow> 'm"
    and erase :: "'k \<Rightarrow> 'm \<Rightarrow> 'm"
    and first :: "'m \<Rightarrow> ('k \<times> 'v) option"
    and final :: "'m \<Rightarrow> ('k \<times> 'v) option"
  assumes find_put: "inv m \<Longrightarrow> find (put k v m) k' = (if k' = k then Some v else find m k')"
    and find_erase: "inv m \<Longrightarrow> find (erase k m) k' = (if k' = k then None else find m k')"
    and inv_put: "inv m \<Longrightarrow> inv (put k v m)"
    and inv_erase: "inv m \<Longrightarrow> inv (erase k m)"
    and first_None: "first m = None \<Longrightarrow> find m k = None"
    and first_find: "inv m \<Longrightarrow> first m = Some (k, v) \<Longrightarrow> find m k = Some v"
    and first_least: "inv m \<Longrightarrow> first m = Some (k, v) \<Longrightarrow> find m k' = Some v' \<Longrightarrow> k \<le> k'"
    and final_None: "final m = None \<Longrightarrow> find m k = None"
    and final_find: "inv m \<Longrightarrow> final m = Some (k, v) \<Longrightarrow> find m k = Some v"
    and final_greatest: "inv m \<Longrightarrow> final m = Some (k, v) \<Longrightarrow> find m k' = Some v' \<Longrightarrow> k' \<le> k"
begin

text \<open>A predicate that holds of every entry, and how the updates carry it.\<close>

definition every :: "('k \<Rightarrow> 'v \<Rightarrow> bool) \<Rightarrow> 'm \<Rightarrow> bool" where
  "every P m \<longleftrightarrow> (\<forall>k v. find m k = Some v \<longrightarrow> P k v)"

lemma everyI: "(\<And>k v. find m k = Some v \<Longrightarrow> P k v) \<Longrightarrow> every P m"
  by (simp add: every_def)

lemma everyD: "every P m \<Longrightarrow> find m k = Some v \<Longrightarrow> P k v"
  by (simp add: every_def)

lemma every_mono: "every P m \<Longrightarrow> (\<And>k v. find m k = Some v \<Longrightarrow> P k v \<Longrightarrow> Q k v) \<Longrightarrow> every Q m"
  by (simp add: every_def)

lemma every_put: "inv m \<Longrightarrow> every P m \<Longrightarrow> P k v \<Longrightarrow> every P (put k v m)"
  by (simp add: every_def find_put)

lemma every_erase: "inv m \<Longrightarrow> every P m \<Longrightarrow> every P (erase k m)"
  by (simp add: every_def find_erase)

text \<open>
  Replacing the value of a key, or erasing the key when the new value is of no use: the
  engine's pattern for a price level whose vector may have become empty.
\<close>

definition replace :: "bool \<Rightarrow> 'k \<Rightarrow> 'v \<Rightarrow> 'm \<Rightarrow> 'm" where
  "replace gone k v m = (if gone then erase k m else put k v m)"

lemma inv_replace: "inv m \<Longrightarrow> inv (replace gone k v m)"
  by (simp add: replace_def inv_put inv_erase)

lemma find_replace:
  "inv m \<Longrightarrow> find (replace gone k v m) k' =
     (if k' = k then (if gone then None else Some v) else find m k')"
  by (simp add: replace_def find_put find_erase)

end

subsection \<open>The association list meets the contract\<close>

lemma map_inv_Nil [simp]: "map_inv []"
  by (simp add: map_inv_def)

lemma map_inv_Cons: "map_inv ((k, v) # m) \<longleftrightarrow> (\<forall>e \<in> set m. k < fst e) \<and> map_inv m"
  by (auto simp: map_inv_def)

lemma map_find_Nil [simp]: "map_find [] k = None"
  by (simp add: map_find_def)

lemma map_find_Cons: "map_find ((k, v) # m) k' = (if k' = k then Some v else map_find m k')"
  by (simp add: map_find_def)

lemma map_find_in: "map_find m k = Some v \<Longrightarrow> (k, v) \<in> set m"
  by (simp add: map_find_def map_of_SomeD)

lemma map_inv_distinct: "map_inv m \<Longrightarrow> distinct (map fst m)"
  unfolding map_inv_def by (simp add: strict_sorted_iff)

lemma in_map_find: "map_inv m \<Longrightarrow> (k, v) \<in> set m \<Longrightarrow> map_find m k = Some v"
  by (simp add: map_find_def map_inv_distinct)

lemma map_find_put: "map_find (map_put k v m) k' = (if k' = k then Some v else map_find m k')"
  by (induction m) (auto simp: map_find_Cons)

lemma map_find_erase: "map_find (map_erase k m) k' = (if k' = k then None else map_find m k')"
  unfolding map_erase_def by (induction m) (auto simp: map_find_Cons)

lemma set_map_put: "set (map_put k v m) \<subseteq> insert (k, v) (set m)"
proof (induction m)
  case (Cons e m)
  then show ?case by (cases e) auto
qed simp

lemma map_inv_put: "map_inv m \<Longrightarrow> map_inv (map_put k v m)"
proof (induction m)
  case Nil
  then show ?case by (simp add: map_inv_def)
next
  case (Cons e m)
  obtain k' v' where e: "e = (k', v')" by (cases e)
  show ?case
  proof (cases "k < k'")
    case True
    with Cons.prems show ?thesis by (auto simp: e map_inv_Cons)
  next
    case False
    show ?thesis
    proof (cases "k = k'")
      case True
      with Cons.prems show ?thesis by (auto simp: e map_inv_Cons)
    next
      case neq: False
      with False have "k' < k" by simp
      with Cons neq show ?thesis
        using set_map_put[of k v m] by (fastforce simp: e map_inv_Cons)
    qed
  qed
qed

lemma map_inv_erase: "map_inv m \<Longrightarrow> map_inv (map_erase k m)"
  unfolding map_inv_def map_erase_def
  by (induction m) auto

lemma map_first_least:
  assumes "map_inv m" and "map_first m = Some (k, v)" and "map_find m k' = Some v'"
  shows "k \<le> k'"
  using assms
  by (cases m) (auto simp: map_first_def map_inv_Cons map_find_Cons split: if_splits
      dest!: map_find_in)

lemma map_inv_snoc: "map_inv (m @ [(k, v)]) \<longleftrightarrow> map_inv m \<and> (\<forall>e \<in> set m. fst e < k)"
  by (auto simp: map_inv_def sorted_wrt_append)

lemma map_last_snoc: "map_last m = Some (k, v) \<Longrightarrow> \<exists>m'. m = m' @ [(k, v)]"
  unfolding map_last_def by (metis append_butlast_last_id option.distinct(1) option.sel)

lemma map_last_greatest:
  assumes "map_inv m" and "map_last m = Some (k, v)" and "map_find m k' = Some v'"
  shows "k' \<le> k"
proof -
  from assms(2) obtain m' where m: "m = m' @ [(k, v)]"
    using map_last_snoc [OF assms(2)] by blast
  from assms(3) have "(k', v') \<in> set m" by (rule map_find_in)
  with assms(1) m show ?thesis by (auto simp: map_inv_snoc)
qed

lemma map_first_find: "map_first m = Some (k, v) \<Longrightarrow> map_find m k = Some v"
  by (auto simp: map_first_def map_find_Cons split: list.splits)

lemma map_last_find:
  assumes "map_inv m" and "map_last m = Some (k, v)"
  shows "map_find m k = Some v"
proof -
  from assms(2) have "(k, v) \<in> set m" by (auto dest!: map_last_snoc)
  with assms(1) show ?thesis by (rule in_map_find)
qed

lemma map_first_None [simp]: "map_first m = None \<longleftrightarrow> m = []"
  by (simp add: map_first_def split: list.splits)

lemma map_last_None [simp]: "map_last m = None \<longleftrightarrow> m = []"
  by (simp add: map_last_def)

interpretation om: ordered_map map_inv map_find map_put map_erase map_first map_last
  by unfold_locales
    (simp_all add: map_find_put map_find_erase map_inv_put map_inv_erase map_first_find
      map_last_find map_first_least map_last_greatest)

lemmas map_replace_def = om.replace_def

lemma map_find_empty: "map_inv m \<Longrightarrow> m \<noteq> [] \<Longrightarrow> \<exists>k v. map_find m k = Some v"
  by (cases m) (auto simp: map_find_Cons)

end
