(* ===== verification/Float64.thy ===== *)
theory Float64
  imports Prelude "HOL-Library.Log_Nat"
begin

text \<open>
  IEEE 754 binary64 arithmetic (the C++ type \<^verbatim>\<open>double\<close>) on its finite values, as far as the sources
  use it. A finite double is the rational number it denotes; \<open>fl\<close> rounds an exact result to the
  nearest double, ties to even, with gradual underflow. A result whose magnitude exceeds
  \<open>dbl_max\<close> is outside the model. \<^verbatim>\<open>std::llround\<close> and \<^verbatim>\<open>std::fmod\<close> are the functions of \<^verbatim>\<open><cmath>\<close>.
\<close>

definition two_pow :: "int \<Rightarrow> rat" where
  "two_pow e = (if 0 \<le> e then 2 ^ nat e else 1 / 2 ^ nat (- e))"

text \<open>The exponent of the leading bit of a positive rational.\<close>

definition lead_bit :: "rat \<Rightarrow> int" where
  "lead_bit x = (let (p, q) = quotient_of x; e = bitlen p - bitlen q
                 in if two_pow e \<le> x then e else e - 1)"

text \<open>Rounding to the nearest integer, ties to even.\<close>

definition round_even :: "rat \<Rightarrow> int" where
  "round_even y =
     (let f = \<lfloor>y\<rfloor>; d = y - of_int f
      in if d < 1 / 2 then f else if d > 1 / 2 then f + 1 else if even f then f else f + 1)"

definition ulp_exp :: "rat \<Rightarrow> int" where
  "ulp_exp x = max (lead_bit \<bar>x\<bar>) (- 1022) - 52"

definition fl :: "rat \<Rightarrow> double" where
  "fl x = (if x = 0 then 0 else of_int (round_even (x / two_pow (ulp_exp x))) * two_pow (ulp_exp x))"

definition dbl_max :: rat where
  "dbl_max = (2 ^ 53 - 1) * 2 ^ 971"

text \<open>\<^verbatim>\<open>std::llround\<close>: to nearest, ties away from zero; out of the range of \<^verbatim>\<open>long long\<close> it has no result.\<close>

definition round_away :: "rat \<Rightarrow> int" where
  "round_away y = (if y \<ge> 0 then \<lfloor>y + 1 / 2\<rfloor> else - \<lfloor>- y + 1 / 2\<rfloor>)"

definition llround :: "double \<Rightarrow> int option" where
  "llround x = (let n = round_away x in if - (2 ^ 63) \<le> n \<and> n < 2 ^ 63 then Some n else None)"

text \<open>\<^verbatim>\<open>std::fmod\<close>: the exact remainder of the division truncated towards zero.\<close>

definition trunc_int :: "rat \<Rightarrow> int" where
  "trunc_int y = (if y \<ge> 0 then \<lfloor>y\<rfloor> else - \<lfloor>- y\<rfloor>)"

definition fmod :: "double \<Rightarrow> double \<Rightarrow> double" where
  "fmod x y = x - of_int (trunc_int (x / y)) * y"

subsection \<open>Rounding errors\<close>

lemma abs_chain: "\<bar>a - c\<bar> \<le> x \<Longrightarrow> \<bar>c - p\<bar> \<le> y \<Longrightarrow> x + y \<le> z \<Longrightarrow> \<bar>a - p\<bar> \<le> (z :: rat)"
  by linarith

lemma two_pow_pos [simp]: "0 < two_pow e" "0 \<le> two_pow e" "two_pow e \<noteq> 0"
  by (simp_all add: two_pow_def)

lemma two_pow_add: "two_pow (a + b) = two_pow a * two_pow b"
proof -
  have split: "two_pow (int m - int n) = 2 ^ m / 2 ^ n" for m n
    by (cases "n \<le> m") (auto simp: two_pow_def power_diff nat_diff_distrib)
  obtain m n where a: "a = int m - int n" by (metis diff_zero int_diff_cases)
  obtain k l where b: "b = int k - int l" by (metis diff_zero int_diff_cases)
  have "a + b = int (m + k) - int (n + l)" by (simp add: a b)
  then show ?thesis by (simp only: split a b) (simp add: power_add)
qed

lemma two_pow_mono: "a \<le> b \<Longrightarrow> two_pow a \<le> two_pow b"
proof -
  assume "a \<le> b"
  then have "two_pow b = two_pow a * two_pow (b - a)" by (simp add: two_pow_add[symmetric])
  moreover have "1 \<le> two_pow (b - a)" using \<open>a \<le> b\<close> by (simp add: two_pow_def)
  ultimately show ?thesis by simp
qed

lemma floor_bounds:
  fixes y :: rat
  obtains f where "\<lfloor>y\<rfloor> = f" "of_int f \<le> y" "y < of_int f + 1"
  using floor_correct[of y] that[of "\<lfloor>y\<rfloor>"] by simp

lemma round_even_error: "\<bar>of_int (round_even y) - y\<bar> \<le> 1 / 2"
proof -
  obtain f where f: "\<lfloor>y\<rfloor> = f" "of_int f \<le> y" "y < of_int f + 1" by (rule floor_bounds)
  then show ?thesis unfolding round_even_def f(1) Let_def by (auto simp: abs_if)
qed

lemma round_away_error: "\<bar>of_int (round_away y) - y\<bar> \<le> 1 / 2"
proof -
  obtain f where f: "\<lfloor>y + 1 / 2\<rfloor> = f" "of_int f \<le> y + 1 / 2" "y + 1 / 2 < of_int f + 1"
    by (rule floor_bounds)
  obtain g where g: "\<lfloor>- y + 1 / 2\<rfloor> = g" "of_int g \<le> - y + 1 / 2" "- y + 1 / 2 < of_int g + 1"
    by (rule floor_bounds)
  show ?thesis unfolding round_away_def f(1) g(1) using f(2,3) g(2,3) by (auto simp: abs_if)
qed

text \<open>A number closer than a half to an integer rounds to it.\<close>

lemma round_away_near: "\<bar>y - of_int n\<bar> < 1 / 2 \<Longrightarrow> round_away y = n"
proof -
  assume "\<bar>y - of_int n\<bar> < 1 / 2"
  with round_away_error[of y] have "\<bar>of_int (round_away y) - of_int n :: rat\<bar> < 1" by linarith
  then show ?thesis by linarith
qed

lemma two_pow_of_nat: "two_pow (int n) = 2 ^ n"
  by (simp add: two_pow_def)

lemma lead_bit_bounds:
  assumes "0 < x"
  shows "two_pow (lead_bit x) \<le> x" "x < two_pow (lead_bit x + 1)"
proof -
  obtain p q where pq: "quotient_of x = (p, q)" by (cases "quotient_of x")
  have x: "x = of_int p / of_int q" using quotient_of_div[OF pq] .
  have q: "0 < q" using quotient_of_denom_pos[OF pq] .
  with assms x have p: "0 < p" by (simp add: zero_less_divide_iff)
  have low: "two_pow (bitlen n - 1) \<le> of_int n" and high: "of_int n < two_pow (bitlen n)" if n: "0 < n" for n
  proof -
    have pos: "0 < bitlen n" using n bitlen_eq_zero_iff[of n] bitlen_nonneg[of n] by linarith
    have "2 ^ nat (bitlen n - 1) \<le> n" "n < 2 ^ nat (bitlen n)" using bitlen_bounds[OF n] by auto
    then have "of_int (2 ^ nat (bitlen n - 1)) \<le> (of_int n :: rat)" "(of_int n :: rat) < of_int (2 ^ nat (bitlen n))"
      by (simp_all only: of_int_le_iff of_int_less_iff)
    with pos show "two_pow (bitlen n - 1) \<le> of_int n" "of_int n < two_pow (bitlen n)"
      by (simp_all add: two_pow_def)
  qed
  let ?e = "bitlen p - bitlen q"
  have "x < two_pow (bitlen p) / two_pow (bitlen q - 1)"
    unfolding x using high[OF p] low[OF q] p q by (intro frac_less) simp_all
  also have "\<dots> = two_pow (?e + 1)"
    using two_pow_add[of "?e + 1" "bitlen q - 1"] by (simp add: field_simps)
  finally have up: "x < two_pow (?e + 1)" .
  have "two_pow (bitlen p - 1) / two_pow (bitlen q) \<le> x"
    unfolding x using low[OF p] less_imp_le[OF high[OF q]] p q by (intro frac_le) simp_all
  moreover have "two_pow (bitlen p - 1) / two_pow (bitlen q) = two_pow (?e - 1)"
    using two_pow_add[of "?e - 1" "bitlen q"] by (simp add: field_simps)
  ultimately have down: "two_pow (?e - 1) \<le> x" by simp
  show "two_pow (lead_bit x) \<le> x" using down by (simp add: lead_bit_def pq Let_def)
  show "x < two_pow (lead_bit x + 1)" using up by (simp add: lead_bit_def pq Let_def not_le)
qed

lemma fl_error: "\<bar>fl x - x\<bar> \<le> two_pow (ulp_exp x) / 2"
proof (cases "x = 0")
  case False
  let ?u = "two_pow (ulp_exp x)"
  have "fl x - x = (of_int (round_even (x / ?u)) - x / ?u) * ?u"
    using False by (simp add: fl_def left_diff_distrib)
  then have "\<bar>fl x - x\<bar> = \<bar>of_int (round_even (x / ?u)) - x / ?u\<bar> * ?u"
    by (simp add: abs_mult)
  also have "\<dots> \<le> 1 / 2 * ?u"
    by (intro mult_right_mono round_even_error) (simp add: less_imp_le)
  finally show ?thesis by simp
qed (simp add: fl_def less_imp_le)

text \<open>In the normal range the relative error is at most \<open>2\<^sup>-\<^sup>5\<^sup>3\<close>.\<close>

definition unit_roundoff :: rat where
  "unit_roundoff = 1 / 2 ^ 53"

lemma fl_relative:
  assumes "two_pow (- 1022) \<le> \<bar>x\<bar> \<or> x = 0"
  shows "\<bar>fl x - x\<bar> \<le> \<bar>x\<bar> * unit_roundoff"
proof (cases "x = 0")
  case False
  with assms have pos: "0 < \<bar>x\<bar>" and norm: "two_pow (- 1022) \<le> \<bar>x\<bar>" by simp_all
  note b = lead_bit_bounds[OF pos]
  have "- 1022 \<le> lead_bit \<bar>x\<bar>"
  proof (rule ccontr)
    assume "\<not> - 1022 \<le> lead_bit \<bar>x\<bar>"
    then have "two_pow (lead_bit \<bar>x\<bar> + 1) \<le> two_pow (- 1022)" by (intro two_pow_mono) simp
    with b(2) norm show False by simp
  qed
  then have "ulp_exp x = lead_bit \<bar>x\<bar> + - 52" by (simp add: ulp_exp_def)
  then have "two_pow (ulp_exp x) = two_pow (lead_bit \<bar>x\<bar>) * two_pow (- 52)" by (simp only: two_pow_add)
  also have "\<dots> \<le> \<bar>x\<bar> * two_pow (- 52)" using b(1) by (intro mult_right_mono) (simp_all add: less_imp_le)
  finally have "two_pow (ulp_exp x) / 2 \<le> \<bar>x\<bar> * unit_roundoff"
    by (simp add: two_pow_def unit_roundoff_def)
  with fl_error[of x] show ?thesis by linarith
qed (simp add: fl_def)

text \<open>Everywhere, the error is at most the relative one plus half the smallest double.\<close>

lemma fl_absolute: "\<bar>fl x - x\<bar> \<le> \<bar>x\<bar> * unit_roundoff + two_pow (- 1075)"
proof (cases "two_pow (- 1022) \<le> \<bar>x\<bar> \<or> x = 0")
  case True
  then show ?thesis using fl_relative[of x] two_pow_pos(1)[of "- 1075"] by linarith
next
  case False
  then have pos: "0 < \<bar>x\<bar>" and small: "\<bar>x\<bar> < two_pow (- 1022)" by simp_all
  have "lead_bit \<bar>x\<bar> < - 1022"
  proof (rule ccontr)
    assume "\<not> lead_bit \<bar>x\<bar> < - 1022"
    then have "two_pow (- 1022) \<le> two_pow (lead_bit \<bar>x\<bar>)" by (intro two_pow_mono) simp
    with lead_bit_bounds(1)[OF pos] small show False by linarith
  qed
  then have "ulp_exp x = - 1075 + 1" by (simp add: ulp_exp_def)
  then have "two_pow (ulp_exp x) = two_pow (- 1075) * two_pow 1" by (simp only: two_pow_add)
  then have "two_pow (ulp_exp x) / 2 = two_pow (- 1075)" by (simp add: two_pow_def)
  with fl_error[of x] show ?thesis by (simp add: unit_roundoff_def)
qed

lemma fl_zero [simp]: "fl 0 = 0"
  by (simp add: fl_def)

text \<open>Integers of at most 53 bits are doubles.\<close>

lemma round_even_int: "round_even (of_int n) = n"
  by (simp add: round_even_def)

lemma fl_int:
  assumes "\<bar>n\<bar> < 2 ^ 53"
  shows "fl (of_int n) = of_int n"
proof (cases "n = 0")
  case False
  let ?x = "of_int n :: rat"
  have pos: "0 < \<bar>?x\<bar>" using False by simp
  have "lead_bit \<bar>?x\<bar> < 53"
  proof (rule ccontr)
    assume "\<not> lead_bit \<bar>?x\<bar> < 53"
    then have "two_pow 53 \<le> two_pow (lead_bit \<bar>?x\<bar>)" by (intro two_pow_mono) simp
    with lead_bit_bounds(1)[OF pos] have "2 ^ 53 \<le> \<bar>?x\<bar>" by (simp add: two_pow_def)
    then have "of_int (2 ^ 53) \<le> (of_int \<bar>n\<bar> :: rat)" by simp
    then have "2 ^ 53 \<le> \<bar>n\<bar>" by (simp only: of_int_le_iff)
    with assms show False by simp
  qed
  then have "ulp_exp ?x \<le> 0" by (simp add: ulp_exp_def)
  then have "?x / two_pow (ulp_exp ?x) = of_int (n * 2 ^ nat (- ulp_exp ?x))"
    by (cases "ulp_exp ?x = 0") (simp_all add: two_pow_def)
  then have "round_even (?x / two_pow (ulp_exp ?x)) = n * 2 ^ nat (- ulp_exp ?x)"
    by (simp only: round_even_int)
  then show ?thesis using False \<open>ulp_exp ?x \<le> 0\<close>
    by (cases "ulp_exp ?x = 0") (simp_all add: fl_def two_pow_def)
qed simp

subsection \<open>A multiple of the tick and back\<close>

lemma roundoff_product:
  assumes "two_pow (- 1022) \<le> t"
  shows "\<bar>fl (of_int n * t) - of_int n * t\<bar> \<le> \<bar>of_int n\<bar> * t * unit_roundoff"
proof -
  have t: "0 < t" using assms two_pow_pos(1)[of "- 1022"] by linarith
  have "two_pow (- 1022) \<le> \<bar>of_int n * t\<bar> \<or> of_int n * t = 0"
  proof (cases "n = 0")
    case False
    then have "1 \<le> \<bar>n\<bar>" by simp
    then have "(of_int 1 :: rat) \<le> of_int \<bar>n\<bar>" by (simp only: of_int_le_iff)
    then have "1 * t \<le> \<bar>of_int n\<bar> * t" using t by (intro mult_right_mono) simp_all
    moreover have "\<bar>of_int n * t\<bar> = \<bar>of_int n\<bar> * t" using t by (simp add: abs_mult)
    ultimately show ?thesis using assms by linarith
  qed simp
  from fl_relative[OF this] show ?thesis using t by (simp add: abs_mult)
qed

lemma tick_count:
  assumes t: "two_pow (- 1022) \<le> t" and n: "\<bar>n\<bar> \<le> 2 ^ 50"
  shows "llround (fl (fl (of_int n * t) / t)) = Some n"
proof -
  have tpos: "0 < t" using t two_pow_pos(1)[of "- 1022"] by linarith
  define y where "y = fl (of_int n * t) / t"
  have nr: "\<bar>of_int n\<bar> \<le> (2 ^ 50 :: rat)"
    using n of_int_le_iff[of "\<bar>n\<bar>" "2 ^ 50", where ?'a = rat] by simp
  have "y - of_int n = (fl (of_int n * t) - of_int n * t) / t" using tpos by (simp add: y_def field_simps)
  then have "\<bar>y - of_int n\<bar> = \<bar>fl (of_int n * t) - of_int n * t\<bar> / t" using tpos by (simp add: abs_div)
  also have "\<dots> \<le> \<bar>of_int n\<bar> * t * unit_roundoff / t"
    using roundoff_product[OF t, of n] tpos by (intro divide_right_mono) simp_all
  finally have d1: "\<bar>y - of_int n\<bar> \<le> \<bar>of_int n\<bar> * unit_roundoff" using tpos by simp
  moreover have "\<bar>of_int n\<bar> * unit_roundoff \<le> 1 / 8"
    using mult_right_mono[OF nr, of unit_roundoff] by (simp add: unit_roundoff_def)
  ultimately have d: "\<bar>y - of_int n\<bar> \<le> 1 / 8" by linarith
  then have "\<bar>y\<bar> \<le> 2 ^ 50 + 1" using nr by linarith
  then have "\<bar>y\<bar> * unit_roundoff \<le> (2 ^ 50 + 1) * unit_roundoff"
    by (rule mult_right_mono) (simp add: unit_roundoff_def)
  moreover have "two_pow (- 1075) \<le> two_pow (- 10)" by (rule two_pow_mono) simp
  ultimately have "\<bar>fl y - y\<bar> \<le> 1 / 4"
    using fl_absolute[of y] by (simp add: unit_roundoff_def two_pow_def)
  with d have "\<bar>fl y - of_int n\<bar> < 1 / 2" by linarith
  then have "round_away (fl y) = n" by (rule round_away_near)
  moreover have "- (2 ^ 63) \<le> n \<and> n < 2 ^ 63" using n by auto
  ultimately show ?thesis by (simp add: llround_def y_def)
qed

end
