(* ===== verification/OrderBook.thy ===== *)
theory OrderBook
  imports Orders Std_Map Float64
begin

text \<open>
  The class \<^verbatim>\<open>OrderBook\<close> (\<^verbatim>\<open>common/include/orderbook.h\<close>, \<^verbatim>\<open>common/src/orderbook.cpp\<close>): its state and every
  operation on it, as state passing functions.

  The objects behind \<^verbatim>\<open>OrderPtr = std::shared_ptr<Order>\<close> are shared by the id index, the price
  levels, the stop levels and the pending notifications, so the model keeps an explicit store:
  a pointer is an address, \<open>heap\<close> maps addresses to order objects, and every alias sees an update.
  \<^verbatim>\<open>pending_trades\<close> and \<^verbatim>\<open>pending_order_updates\<close> are the local vectors of \<^verbatim>\<open>addOrder\<close> that it passes by
  reference to the matching functions; they are part of the threaded state, emptied on entry.
  \<open>now k\<close> is the reading of the system clock for the trade that becomes element \<open>k\<close> of
  \<^verbatim>\<open>pending_trades\<close>.

  The loops of \<^verbatim>\<open>matchOrder\<close> and the recursion of \<^verbatim>\<open>processStopOrders\<close> are not bounded by their
  syntax: they are \<^theory_text>\<open>partial_function (option)\<close>, with \<open>None\<close> for a run that never returns. The
  theories that follow prove that they do return on every state the book can reach.
\<close>

type_synonym OrderPtr = nat
type_synonym levels = "(double, OrderPtr list) std_map"

record book =
  heap :: "OrderPtr \<Rightarrow> order"
  symbol :: string
  tick_size :: double
  orders_by_id :: "string \<Rightarrow> OrderPtr option"
  bids :: levels
  asks :: levels
  stop_buy_orders :: levels
  stop_sell_orders :: levels
  order_callback :: bool
  trade_callback :: bool
  pending_trades :: "trade list"
  pending_order_updates :: "OrderPtr list"

abbreviation rem_qty :: "book \<Rightarrow> OrderPtr \<Rightarrow> u32" where
  "rem_qty b p \<equiv> o_remaining (heap b p)"

abbreviation set_order :: "OrderPtr \<Rightarrow> order \<Rightarrow> book \<Rightarrow> book" where
  "set_order p ord b \<equiv> b\<lparr>heap := (heap b)(p := ord)\<rparr>"

text \<open>\<^verbatim>\<open>orders_by_id_.erase(order->getId())\<close>\<close>

definition erase_id :: "OrderPtr \<Rightarrow> book \<Rightarrow> book" where
  "erase_id p b = b\<lparr>orders_by_id := (orders_by_id b)(o_id (heap b p) := None)\<rparr>"

subsection \<open>Matching\<close>

definition executeTrade ::
  "(nat \<Rightarrow> time) \<Rightarrow> OrderPtr \<Rightarrow> OrderPtr \<Rightarrow> u32 \<Rightarrow> double \<Rightarrow> book \<Rightarrow> book" where
  "executeTrade now buy_order sell_order qty pr b =
     (let b1 = set_order buy_order (snd (fill (heap b buy_order) qty)) b;
          b2 = set_order sell_order (snd (fill (heap b1 sell_order) qty)) b1;
          trade = \<lparr>t_buy_order_id = o_id (heap b2 buy_order),
                   t_sell_order_id = o_id (heap b2 sell_order),
                   t_symbol = symbol b2, t_price = pr, t_quantity = qty,
                   t_timestamp = now (length (pending_trades b2))\<rparr>
      in b2\<lparr>pending_trades := pending_trades b2 @ [trade],
            pending_order_updates := pending_order_updates b2 @ [buy_order, sell_order]\<rparr>)"

text \<open>
  The inner loop over one price level: it consumes the level's vector from the front and returns
  what is left of it. The two branches of \<^verbatim>\<open>matchOrder\<close> have the same inner loop up to
  which of the two orders is the buyer.
\<close>

definition trade_with ::
  "(nat \<Rightarrow> time) \<Rightarrow> OrderPtr \<Rightarrow> OrderPtr \<Rightarrow> u32 \<Rightarrow> book \<Rightarrow> book" where
  "trade_with now p q qty b =
     (case o_side (heap b p) of
        BUY \<Rightarrow> executeTrade now p q qty (o_price (heap b q)) b
      | SELL \<Rightarrow> executeTrade now q p qty (o_price (heap b q)) b)"

fun match_level ::
  "(nat \<Rightarrow> time) \<Rightarrow> OrderPtr \<Rightarrow> OrderPtr list \<Rightarrow> book \<Rightarrow> OrderPtr list \<times> book" where
  "match_level now p [] b = ([], b)"
| "match_level now p (q # qs) b =
     (if rem_qty b p > 0 then
        let match_quantity = min (rem_qty b p) (rem_qty b q);
            b1 = (if match_quantity > 0 then trade_with now p q match_quantity b else b)
        in if rem_qty b1 q = 0 then match_level now p qs (erase_id q b1)
           else (q # qs, b1)
      else (q # qs, b))"

text \<open>
  The side of the book an incoming order trades against, its best level (\<^verbatim>\<open>asks_.begin()\<close> for a
  buy, \<^verbatim>\<open>bids_.rbegin()\<close> for a sell), and the test that stops a limit order there.
\<close>

definition opposite :: "OrderSide \<Rightarrow> book \<Rightarrow> levels" where
  "opposite sd b = (case sd of BUY \<Rightarrow> asks b | SELL \<Rightarrow> bids b)"

definition set_opposite :: "OrderSide \<Rightarrow> levels \<Rightarrow> book \<Rightarrow> book" where
  "set_opposite sd m b = (case sd of BUY \<Rightarrow> b\<lparr>asks := m\<rparr> | SELL \<Rightarrow> b\<lparr>bids := m\<rparr>)"

definition best_level :: "OrderSide \<Rightarrow> levels \<Rightarrow> (double \<times> OrderPtr list) option" where
  "best_level sd m = (case sd of BUY \<Rightarrow> map_first m | SELL \<Rightarrow> map_last m)"

definition no_match :: "order \<Rightarrow> double \<Rightarrow> bool" where
  "no_match ord best \<longleftrightarrow>
     o_type ord \<noteq> MARKET \<and> (case o_side ord of BUY \<Rightarrow> o_price ord < best | SELL \<Rightarrow> o_price ord > best)"

definition store_level :: "double \<Rightarrow> OrderPtr list \<Rightarrow> levels \<Rightarrow> levels" where
  "store_level k qs m = (if qs = [] then map_erase k m else map_put k qs m)"

partial_function (option) matchOrder :: "(nat \<Rightarrow> time) \<Rightarrow> OrderPtr \<Rightarrow> book \<Rightarrow> book option" where
  "matchOrder now p b =
     (if rem_qty b p > 0 then
        (case best_level (o_side (heap b p)) (opposite (o_side (heap b p)) b) of
           None \<Rightarrow> Some b
         | Some (k, qs) \<Rightarrow>
             if no_match (heap b p) k then Some b
             else
               let (qs', b1) = match_level now p qs b;
                   sd = o_side (heap b p)
               in matchOrder now p (set_opposite sd (store_level k qs' (opposite sd b1)) b1))
      else Some b)"

definition push_level :: "double \<Rightarrow> OrderPtr \<Rightarrow> levels \<Rightarrow> levels" where
  "push_level k p m = map_put k (case map_find m k of None \<Rightarrow> [p] | Some qs \<Rightarrow> qs @ [p]) m"

definition addOrderToBook :: "OrderPtr \<Rightarrow> book \<Rightarrow> book" where
  "addOrderToBook p b =
     (case o_side (heap b p) of
        BUY \<Rightarrow> b\<lparr>bids := push_level (o_price (heap b p)) p (bids b)\<rparr>
      | SELL \<Rightarrow> b\<lparr>asks := push_level (o_price (heap b p)) p (asks b)\<rparr>)"

definition addStopOrder :: "OrderPtr \<Rightarrow> book \<Rightarrow> book" where
  "addStopOrder p b =
     (case o_side (heap b p) of
        BUY \<Rightarrow> b\<lparr>stop_buy_orders := push_level (o_stop_price (heap b p)) p (stop_buy_orders b)\<rparr>
      | SELL \<Rightarrow> b\<lparr>stop_sell_orders := push_level (o_stop_price (heap b p)) p (stop_sell_orders b)\<rparr>)"

text \<open>
  What happens to an order after it was matched: it rests, or it leaves the index. The same
  statements stand in \<^verbatim>\<open>addOrder\<close> and in \<^verbatim>\<open>processStopOrders\<close>.
\<close>

definition settle :: "OrderPtr \<Rightarrow> book \<Rightarrow> book" where
  "settle p b =
     (if rem_qty b p > 0 \<and> o_status (heap b p) \<noteq> FILLED \<and> o_status (heap b p) \<noteq> CANCELED then
        if o_type (heap b p) = MARKET
        then erase_id p (set_order p (snd (cancel (heap b p))) b)
        else addOrderToBook p b
      else erase_id p b)"

subsection \<open>Stop orders\<close>

fun trigger_orders :: "OrderPtr list \<Rightarrow> book \<Rightarrow> book" where
  "trigger_orders [] b = b"
| "trigger_orders (p # ps) b = trigger_orders ps (set_order p (snd (trigger (heap b p))) b)"

function trigger_buys :: "double \<Rightarrow> book \<times> OrderPtr list \<Rightarrow> book \<times> OrderPtr list" where
  "trigger_buys price (b, triggered) =
     (case stop_buy_orders b of
        [] \<Rightarrow> (b, triggered)
      | (k, ps) # rest \<Rightarrow>
          if k \<le> price
          then trigger_buys price ((trigger_orders ps b)\<lparr>stop_buy_orders := rest\<rparr>, triggered @ ps)
          else (b, triggered))"
  by pat_completeness auto
termination
  by (relation "measure (\<lambda>(price, b, triggered). length (stop_buy_orders b))") auto

function trigger_sells :: "double \<Rightarrow> book \<times> OrderPtr list \<Rightarrow> book \<times> OrderPtr list" where
  "trigger_sells price (b, triggered) =
     (case map_last (stop_sell_orders b) of
        None \<Rightarrow> (b, triggered)
      | Some (k, ps) \<Rightarrow>
          if k < price then (b, triggered)
          else trigger_sells price
                 ((trigger_orders ps b)\<lparr>stop_sell_orders := butlast (stop_sell_orders b)\<rparr>,
                  triggered @ ps))"
  by pat_completeness auto
termination
  by (relation "measure (\<lambda>(price, b, triggered). length (stop_sell_orders b))")
    (auto simp: map_last_def split: if_splits)

text \<open>The loop over the trade prices, in the ascending order of \<^verbatim>\<open>std::set<double>\<close>.\<close>

fun trigger_stops :: "double list \<Rightarrow> book \<times> OrderPtr list \<Rightarrow> book \<times> OrderPtr list" where
  "trigger_stops [] bt = bt"
| "trigger_stops (price # prices) bt = trigger_stops prices (trigger_sells price (trigger_buys price bt))"

definition price_set :: "trade list \<Rightarrow> double list" where
  "price_set ts = fold (\<lambda>t. insort_insert (t_price t)) ts []"

fun process_triggered :: "(nat \<Rightarrow> time) \<Rightarrow> OrderPtr list \<Rightarrow> book \<Rightarrow> book option" where
  "process_triggered now [] b = Some b"
| "process_triggered now (p # ps) b =
     (case matchOrder now p b of
        None \<Rightarrow> None
      | Some b1 \<Rightarrow> process_triggered now ps (settle p b1))"

partial_function (option) processStopOrders ::
  "(nat \<Rightarrow> time) \<Rightarrow> double list \<Rightarrow> book \<Rightarrow> book option" where
  "processStopOrders now trade_prices b =
     (case trigger_stops trade_prices (b, []) of
        (b1, triggered) \<Rightarrow>
          if triggered = [] then Some b1
          else
            (case process_triggered now triggered b1 of
               None \<Rightarrow> None
             | Some b2 \<Rightarrow>
                 let prev_trade_count = length (pending_trades b1)
                 in if length (pending_trades b2) > prev_trade_count
                    then processStopOrders now
                           (price_set (drop prev_trade_count (pending_trades b2))) b2
                    else Some b2))"

subsection \<open>The public operations\<close>

text \<open>The constructor; the literal \<^verbatim>\<open>0.01\<close> is the double nearest to it. The heap is the caller's.\<close>

definition new_book :: "string \<Rightarrow> double \<Rightarrow> (OrderPtr \<Rightarrow> order) \<Rightarrow> book" where
  "new_book smb tick h =
     \<lparr>heap = h, symbol = smb, tick_size = (if tick > 0 then tick else fl (1 / 100)),
      orders_by_id = (\<lambda>_. None), bids = [], asks = [], stop_buy_orders = [], stop_sell_orders = [],
      order_callback = False, trade_callback = False,
      pending_trades = [], pending_order_updates = []\<rparr>"

definition getTickSize :: "book \<Rightarrow> double" where
  "getTickSize b = tick_size b"

definition setTickSize :: "double \<Rightarrow> book \<Rightarrow> book" where
  "setTickSize tick b = (if tick > 0 then b\<lparr>tick_size := tick\<rparr> else b)"

text \<open>\<open>None\<close> stands for an argument of \<^verbatim>\<open>std::llround\<close> outside the range of \<^verbatim>\<open>long long\<close>.\<close>

definition roundToTickSize :: "double \<Rightarrow> book \<Rightarrow> double option" where
  "roundToTickSize price b =
     (if tick_size b \<le> 0 then Some price
      else (case llround (fl (price / tick_size b)) of
              None \<Rightarrow> None
            | Some ticks \<Rightarrow> Some (fl (fl (of_int ticks) * tick_size b))))"

definition isValidPrice :: "double \<Rightarrow> book \<Rightarrow> bool" where
  "isValidPrice price b =
     (if tick_size b \<le> 0 then True
      else let epsilon = fl (1 / 10 ^ 10)
           in \<bar>fmod price (tick_size b)\<bar> < epsilon \<or>
              \<bar>fl (fmod price (tick_size b) - tick_size b)\<bar> < epsilon)"

definition setOrderCallback :: "book \<Rightarrow> book" where
  "setOrderCallback b = b\<lparr>order_callback := True\<rparr>"

definition setTradeCallback :: "book \<Rightarrow> book" where
  "setTradeCallback b = b\<lparr>trade_callback := True\<rparr>"

text \<open>
  The callbacks run after the lock is released, when all matching is done: the events name the
  order objects, and a callback that reads one finds its state in the final heap.
\<close>

datatype event = TradeEvent trade | OrderEvent OrderPtr

definition callbacks :: "OrderPtr \<Rightarrow> book \<Rightarrow> event list" where
  "callbacks p b =
     (if trade_callback b then map TradeEvent (pending_trades b) else []) @
     (if order_callback b
      then map OrderEvent (filter (\<lambda>q. q \<noteq> p) (pending_order_updates b)) else []) @
     (if order_callback b then [OrderEvent p] else [])"

definition process_new :: "(nat \<Rightarrow> time) \<Rightarrow> OrderPtr \<Rightarrow> book \<Rightarrow> book option" where
  "process_new now p b =
     (if isStopOrder (heap b p) then Some (addStopOrder p b)
      else
        (case matchOrder now p b of
           None \<Rightarrow> None
         | Some b1 \<Rightarrow>
             let b2 = settle p b1
             in if pending_trades b2 \<noteq> []
                then processStopOrders now (price_set (pending_trades b2)) b2
                else Some b2))"

definition addOrder ::
  "(nat \<Rightarrow> time) \<Rightarrow> OrderPtr option \<Rightarrow> book \<Rightarrow> (bool \<times> event list \<times> book) option" where
  "addOrder now ord b =
     (case ord of
        None \<Rightarrow> Some (False, [], b)
      | Some p \<Rightarrow>
          if rem_qty b p = 0 then Some (False, [], b)
          else
            let b0 = b\<lparr>pending_trades := [], pending_order_updates := []\<rparr>
            in if orders_by_id b0 (o_id (heap b0 p)) \<noteq> None then Some (False, [], b0)
               else
                 (case process_new now p
                         (b0\<lparr>orders_by_id := (orders_by_id b0)(o_id (heap b0 p) \<mapsto> p)\<rparr>) of
                    None \<Rightarrow> None
                  | Some b1 \<Rightarrow> Some (True, callbacks p b1, b1)))"

definition remove_from_level :: "double \<Rightarrow> OrderPtr \<Rightarrow> levels \<Rightarrow> levels" where
  "remove_from_level k p m =
     (case map_find m k of
        None \<Rightarrow> m
      | Some ps \<Rightarrow> if p \<in> set ps then store_level k (remove1 p ps) m else m)"

definition cancelOrder :: "string \<Rightarrow> book \<Rightarrow> bool \<times> event list \<times> book" where
  "cancelOrder i b =
     (case orders_by_id b i of
        None \<Rightarrow> (False, [], b)
      | Some p \<Rightarrow>
          (case cancel (heap b p) of
             (False, ord) \<Rightarrow> (False, [], set_order p ord b)
           | (True, ord) \<Rightarrow>
               let b1 = set_order p ord b;
                   b2 = b1\<lparr>orders_by_id := (orders_by_id b1)(i := None)\<rparr>;
                   b3 =
                     (if isStopOrder ord then
                        (if o_side ord = BUY
                         then b2\<lparr>stop_buy_orders :=
                                remove_from_level (o_stop_price ord) p (stop_buy_orders b2)\<rparr>
                         else b2\<lparr>stop_sell_orders :=
                                remove_from_level (o_stop_price ord) p (stop_sell_orders b2)\<rparr>)
                      else if o_side ord = BUY
                      then b2\<lparr>bids := remove_from_level (o_price ord) p (bids b2)\<rparr>
                      else b2\<lparr>asks := remove_from_level (o_price ord) p (asks b2)\<rparr>)
               in (True, (if order_callback b3 then [OrderEvent p] else []), b3)))"

definition getOrder :: "string \<Rightarrow> book \<Rightarrow> OrderPtr option" where
  "getOrder i b = orders_by_id b i"

subsection \<open>Market data\<close>

record PriceLevel =
  l_price :: double
  l_quantity :: u32
  l_order_count :: int

fun level_quantity :: "u32 \<Rightarrow> OrderPtr list \<Rightarrow> book \<Rightarrow> u32" where
  "level_quantity acc [] b = acc"
| "level_quantity acc (p # ps) b = level_quantity (acc + rem_qty b p) ps b"

fun calculatePriceLevels :: "levels \<Rightarrow> int \<Rightarrow> int \<Rightarrow> book \<Rightarrow> PriceLevel list" where
  "calculatePriceLevels [] depth count b = []"
| "calculatePriceLevels ((k, ps) # m) depth count b =
     (if count < depth
      then \<lparr>l_price = k, l_quantity = level_quantity 0 ps b, l_order_count = sint (of_nat (length ps) :: u32)\<rparr>
           # calculatePriceLevels m depth (count + 1) b
      else [])"

definition getBidLevels :: "int \<Rightarrow> book \<Rightarrow> PriceLevel list" where
  "getBidLevels depth b = calculatePriceLevels (rev (bids b)) depth 0 b"

definition getAskLevels :: "int \<Rightarrow> book \<Rightarrow> PriceLevel list" where
  "getAskLevels depth b = calculatePriceLevels (asks b) depth 0 b"

definition getBestBidPrice :: "book \<Rightarrow> double" where
  "getBestBidPrice b = (case map_last (bids b) of Some (k, _) \<Rightarrow> k | None \<Rightarrow> 0)"

definition getBestAskPrice :: "book \<Rightarrow> double" where
  "getBestAskPrice b = (case map_first (asks b) of Some (k, _) \<Rightarrow> k | None \<Rightarrow> 0)"

definition getBestBidVolume :: "book \<Rightarrow> double" where
  "getBestBidVolume b =
     (case map_last (bids b) of Some (_, ps) \<Rightarrow> of_nat (unat (level_quantity 0 ps b)) | None \<Rightarrow> 0)"

definition getBestAskVolume :: "book \<Rightarrow> double" where
  "getBestAskVolume b =
     (case map_first (asks b) of Some (_, ps) \<Rightarrow> of_nat (unat (level_quantity 0 ps b)) | None \<Rightarrow> 0)"

declare matchOrder.simps [code] processStopOrders.simps [code]
declare trigger_buys.simps [simp del] trigger_sells.simps [simp del]

end
