(* ===== verification/Match_Level.thy ===== *)
theory Match_Level
  imports OrderBook
begin

text \<open>
  One price level: what the inner loop of \<^verbatim>\<open>matchOrder\<close> does to the store, the id index and the
  pending trades, against the abstract \<^emph>\<open>greedy\<close> allocation of a quantity to a queue of
  quantities. The level keeps a suffix of its vector; exactly the orders of the consumed prefix
  are filled and leave the index; nothing outside the level and the incoming order is written.
\<close>

subsection \<open>The abstract allocation\<close>

text \<open>
  A queue of claims with their sizes is served in order: \<open>greedy n Q\<close> lists who gets how much of
  \<open>n\<close>, and \<open>leftover n Q\<close> is what remains of the queue.
\<close>

fun greedy :: "nat \<Rightarrow> ('a \<times> nat) list \<Rightarrow> ('a \<times> nat) list" where
  "greedy n [] = []"
| "greedy n ((q, m) # Q) =
     (if n = 0 then [] else if m \<le> n then (q, m) # greedy (n - m) Q else [(q, n)])"

fun leftover :: "nat \<Rightarrow> ('a \<times> nat) list \<Rightarrow> ('a \<times> nat) list" where
  "leftover n [] = []"
| "leftover n ((q, m) # Q) =
     (if n = 0 then (q, m) # Q else if m \<le> n then leftover (n - m) Q else (q, m - n) # Q)"

lemma greedy_zero [simp]: "greedy 0 Q = []"
  by (cases Q) auto

lemma leftover_zero [simp]: "leftover 0 Q = Q"
  by (cases Q) auto

lemma sum_greedy: "sum_list (map snd (greedy n Q)) = min n (sum_list (map snd Q))"
  by (induction n Q rule: greedy.induct) auto

lemma greedy_append:
  "greedy n (Q @ R) = greedy n Q @ greedy (n - sum_list (map snd Q)) R"
  by (induction n Q rule: greedy.induct) auto

lemma leftover_append:
  "\<forall>f \<in> set Q. snd f \<noteq> 0 \<Longrightarrow>
   leftover n (Q @ R) =
     (if n < sum_list (map snd Q) then leftover n Q @ R
      else leftover (n - sum_list (map snd Q)) R)"
  by (induction n Q rule: greedy.induct) auto

text \<open>The filled claims come in queue order, and only the last one served can be served partly.\<close>

lemma greedy_prefix:
  "\<exists>k. map fst (greedy n Q) = map fst (take k Q) \<and>
       (\<forall>j. Suc j < k \<longrightarrow> snd (greedy n Q ! j) = snd (Q ! j))"
proof (induction n Q rule: greedy.induct)
  case (1 n)
  then show ?case by simp
next
  case (2 n q m Q)
  show ?case
  proof (cases "n = 0 \<or> n < m")
    case True
    then show ?thesis
      by (auto intro!: exI[of _ "if n = 0 then 0 else 1"])
  next
    case False
    with 2 obtain k where
      k: "map fst (greedy (n - m) Q) = map fst (take k Q)"
         "\<forall>j. Suc j < k \<longrightarrow> snd (greedy (n - m) Q ! j) = snd (Q ! j)"
      by auto
    have "snd (greedy n ((q, m) # Q) ! j) = snd (((q, m) # Q) ! j)" if "Suc j < Suc k" for j
      using that k(2) False by (cases j) auto
    with k(1) False show ?thesis
      by (intro exI[of _ "Suc k"]) auto
  qed
qed

subsection \<open>What a trade changes\<close>

text \<open>Two states of an order object that differ at most in the remaining quantity and the status.\<close>

definition same_terms :: "order \<Rightarrow> order \<Rightarrow> bool" where
  "same_terms x y \<longleftrightarrow> y = x\<lparr>o_remaining := o_remaining y, o_status := o_status y\<rparr>"

lemma same_terms_refl [simp]: "same_terms x x"
  by (simp add: same_terms_def)

lemma same_termsD:
  assumes "same_terms x y"
  shows "o_id y = o_id x" "o_side y = o_side x" "o_type y = o_type x" "o_price y = o_price x"
    "o_stop_price y = o_stop_price x" "o_quantity y = o_quantity x" "o_symbol y = o_symbol x"
    "o_client_id y = o_client_id x" "o_timestamp y = o_timestamp x"
  using assms by (cases x; cases y; simp add: same_terms_def)+

lemma same_termsI:
  assumes "o_id y = o_id x" "o_side y = o_side x" "o_type y = o_type x" "o_price y = o_price x"
    "o_stop_price y = o_stop_price x" "o_quantity y = o_quantity x" "o_symbol y = o_symbol x"
    "o_client_id y = o_client_id x" "o_timestamp y = o_timestamp x"
  shows "same_terms x y"
  using assms unfolding same_terms_def by (cases x; cases y) simp

lemma same_terms_trans: "same_terms x y \<Longrightarrow> same_terms y z \<Longrightarrow> same_terms x z"
  by (rule same_termsI) (simp_all add: same_termsD)

lemma same_terms_fill [simp]: "same_terms x (snd (fill x n))"
  by (rule same_termsI) simp_all

text \<open>An order that may still trade if anything of it is left, and is filled otherwise.\<close>

definition live :: "order \<Rightarrow> bool" where
  "live x \<longleftrightarrow> (if o_remaining x = 0 then o_status x = FILLED else active x)"

text \<open>The trade between the incoming order \<open>p\<close> and the resting order \<open>q\<close>.\<close>

definition trade_record :: "(nat \<Rightarrow> time) \<Rightarrow> OrderPtr \<Rightarrow> book \<Rightarrow> nat \<Rightarrow> OrderPtr \<times> nat \<Rightarrow> trade" where
  "trade_record now p b k f =
     \<lparr>t_buy_order_id = o_id (heap b (if o_side (heap b p) = BUY then p else fst f)),
      t_sell_order_id = o_id (heap b (if o_side (heap b p) = BUY then fst f else p)),
      t_symbol = symbol b, t_price = o_price (heap b (fst f)), t_quantity = of_nat (snd f),
      t_timestamp = now k\<rparr>"

fun trade_records :: "(nat \<Rightarrow> time) \<Rightarrow> OrderPtr \<Rightarrow> book \<Rightarrow> nat \<Rightarrow> (OrderPtr \<times> nat) list \<Rightarrow> trade list" where
  "trade_records now p b k [] = []"
| "trade_records now p b k (f # fs) = trade_record now p b k f # trade_records now p b (Suc k) fs"

lemma trade_records_append:
  "trade_records now p b k (fs @ gs) =
     trade_records now p b k fs @ trade_records now p b (k + length fs) gs"
  by (induction fs arbitrary: k) auto

lemma length_trade_records [simp]: "length (trade_records now p b k fs) = length fs"
  by (induction fs arbitrary: k) auto

lemma trade_records_cong:
  assumes "\<And>r. same_terms (heap b r) (heap c r)" and "symbol c = symbol b"
  shows "trade_records now p c k fs = trade_records now p b k fs"
proof -
  have "trade_record now p c k f = trade_record now p b k f" for k f
    using assms(2) by (simp add: trade_record_def same_termsD[OF assms(1)])
  then show ?thesis
    by (induction fs arbitrary: k) simp_all
qed

text \<open>A trade rewrites the two order objects and appends one trade and two notifications.\<close>

lemma trade_with_eq:
  assumes "p \<noteq> q"
  shows "trade_with now p q n b =
    b\<lparr>heap := (heap b)(p := snd (fill (heap b p) n), q := snd (fill (heap b q) n)),
      pending_trades := pending_trades b @
        [trade_record now p b (length (pending_trades b)) (q, unat n)],
      pending_order_updates := pending_order_updates b @
        (if o_side (heap b p) = BUY then [p, q] else [q, p])\<rparr>"
  using assms
  by (cases "o_side (heap b p)")
    (simp_all add: trade_with_def executeTrade_def Let_def trade_record_def fun_upd_twist)

subsection \<open>The inner loop\<close>

text \<open>
  What holds when the loop runs: the incoming order may trade, the level's orders are distinct,
  active, have something left, and all are registered in the id index.
\<close>

definition level_pre :: "OrderPtr \<Rightarrow> OrderPtr list \<Rightarrow> book \<Rightarrow> bool" where
  "level_pre p qs b \<longleftrightarrow>
     live (heap b p) \<and> p \<notin> set qs \<and> distinct qs \<and>
     orders_by_id b (o_id (heap b p)) = Some p \<and>
     (\<forall>q \<in> set qs. active (heap b q) \<and> rem_qty b q \<noteq> 0 \<and>
                   orders_by_id b (o_id (heap b q)) = Some q)"

lemma index_inj:
  assumes "orders_by_id b (o_id (heap b r)) = Some r" and "orders_by_id b (o_id (heap b q)) = Some q"
    and "r \<noteq> q"
  shows "o_id (heap b r) \<noteq> o_id (heap b q)"
  using assms by force

lemma level_preD:
  assumes "level_pre p (q # qs) b" and "rem_qty b p \<noteq> 0"
  shows "active (heap b p)" "active (heap b q)" "rem_qty b q \<noteq> 0" "p \<noteq> q"
  using assms by (auto simp: level_pre_def live_def)

text \<open>The state after the resting order \<open>q\<close> was partly filled, and after it was filled and dropped.\<close>

definition part_fill :: "(nat \<Rightarrow> time) \<Rightarrow> OrderPtr \<Rightarrow> OrderPtr \<Rightarrow> book \<Rightarrow> book" where
  "part_fill now p q b = trade_with now p q (rem_qty b p) b"

definition full_fill :: "(nat \<Rightarrow> time) \<Rightarrow> OrderPtr \<Rightarrow> OrderPtr \<Rightarrow> book \<Rightarrow> book" where
  "full_fill now p q b = erase_id q (trade_with now p q (rem_qty b q) b)"

lemma part_fill_eq:
  assumes "level_pre p (q # qs) b" and "rem_qty b p \<noteq> 0" and "rem_qty b p < rem_qty b q"
  shows "part_fill now p q b =
    b\<lparr>heap := (heap b)
        (p := (heap b p)\<lparr>o_remaining := 0, o_status := FILLED\<rparr>,
         q := (heap b q)\<lparr>o_remaining := rem_qty b q - rem_qty b p, o_status := PARTIAL\<rparr>),
      pending_trades := pending_trades b @
        [trade_record now p b (length (pending_trades b)) (q, unat (rem_qty b p))],
      pending_order_updates := pending_order_updates b @
        (if o_side (heap b p) = BUY then [p, q] else [q, p])\<rparr>"
proof -
  note pre = level_preD[OF assms(1,2)]
  from assms(3) have "rem_qty b p \<le> rem_qty b q" "rem_qty b q \<noteq> rem_qty b p" by auto
  then show ?thesis
    using pre by (simp add: part_fill_def trade_with_eq fill_success)
qed

lemma full_fill_eq:
  assumes "level_pre p (q # qs) b" and "rem_qty b p \<noteq> 0" and "rem_qty b q \<le> rem_qty b p"
  shows "full_fill now p q b =
    b\<lparr>heap := (heap b)
        (p := (heap b p)\<lparr>o_remaining := rem_qty b p - rem_qty b q,
                o_status := (if rem_qty b p = rem_qty b q then FILLED else PARTIAL)\<rparr>,
         q := (heap b q)\<lparr>o_remaining := 0, o_status := FILLED\<rparr>),
      orders_by_id := (orders_by_id b)(o_id (heap b q) := None),
      pending_trades := pending_trades b @
        [trade_record now p b (length (pending_trades b)) (q, unat (rem_qty b q))],
      pending_order_updates := pending_order_updates b @
        (if o_side (heap b p) = BUY then [p, q] else [q, p])\<rparr>"
  using level_preD[OF assms(1,2)] assms(3)
  by (simp add: full_fill_def erase_id_def trade_with_eq fill_success)

lemma level_pre_part_fill:
  assumes "level_pre p (q # qs) b" and "rem_qty b p \<noteq> 0" and "rem_qty b p < rem_qty b q"
  shows "level_pre p (q # qs) (part_fill now p q b)"
proof -
  note pre = level_preD[OF assms(1,2)]
  from assms(3) have "rem_qty b q - rem_qty b p \<noteq> 0" by auto
  with assms(1) pre show ?thesis
    unfolding part_fill_eq[OF assms]
    by (auto simp: level_pre_def live_def active_def)
qed

lemma level_pre_full_fill:
  assumes "level_pre p (q # qs) b" and "rem_qty b p \<noteq> 0" and "rem_qty b q \<le> rem_qty b p"
  shows "level_pre p qs (full_fill now p q b)"
proof -
  note pre = level_preD[OF assms(1,2)]
  have q: "orders_by_id b (o_id (heap b q)) = Some q"
    using assms(1) by (simp add: level_pre_def)
  have p: "o_id (heap b p) \<noteq> o_id (heap b q)"
    using assms(1) pre(4) q by (intro index_inj) (simp_all add: level_pre_def)
  have r: "o_id (heap b r) \<noteq> o_id (heap b q) \<and> r \<noteq> p \<and> r \<noteq> q" if "r \<in> set qs" for r
  proof -
    from that assms(1) have "r \<noteq> p" "r \<noteq> q" "orders_by_id b (o_id (heap b r)) = Some r"
      by (auto simp: level_pre_def)
    with q show ?thesis by (simp add: index_inj)
  qed
  have "live (heap (full_fill now p q b) p)"
    using pre(4) by (simp add: full_fill_eq[OF assms] live_def active_def)
  with assms(1) p r pre(4) show ?thesis
    by (simp add: level_pre_def full_fill_eq[OF assms])
qed

text \<open>The four ways one iteration can go, as an induction rule for the loop.\<close>

lemma match_level_step:
  assumes "level_pre p (q # qs) b"
  shows "match_level now p (q # qs) b =
    (if rem_qty b p = 0 then (q # qs, b)
     else if rem_qty b p < rem_qty b q then (q # qs, part_fill now p q b)
     else match_level now p qs (full_fill now p q b))"
proof (cases "rem_qty b p = 0")
  case True
  then show ?thesis by simp
next
  case False
  note pre = level_preD[OF assms False]
  show ?thesis
  proof (cases "rem_qty b p < rem_qty b q")
    case True
    then have mq: "min (rem_qty b p) (rem_qty b q) = rem_qty b p" by simp
    have "rem_qty b q - rem_qty b p \<noteq> 0" using True by auto
    then have "rem_qty (part_fill now p q b) q \<noteq> 0"
      by (simp add: part_fill_eq[OF assms False True])
    with False True mq show ?thesis
      by (simp add: part_fill_def u32_positive_iff)
  next
    case le: False
    then have le': "rem_qty b q \<le> rem_qty b p" by simp
    then have mq: "min (rem_qty b p) (rem_qty b q) = rem_qty b q" by (simp add: min_def)
    have "rem_qty (full_fill now p q b) q = 0"
      by (simp add: full_fill_eq[OF assms False le'])
    then have "rem_qty (trade_with now p q (rem_qty b q) b) q = 0"
      by (simp add: full_fill_def erase_id_def)
    with False le mq pre show ?thesis
      by (simp add: full_fill_def u32_positive_iff)
  qed
qed

lemma match_level_induct [consumes 1, case_names Nil Done Part Full]:
  assumes "level_pre p qs b"
    and "\<And>b. level_pre p [] b \<Longrightarrow> P [] b [] b"
    and "\<And>q qs b. level_pre p (q # qs) b \<Longrightarrow> rem_qty b p = 0 \<Longrightarrow> P (q # qs) b (q # qs) b"
    and "\<And>q qs b. level_pre p (q # qs) b \<Longrightarrow> rem_qty b p \<noteq> 0 \<Longrightarrow> rem_qty b p < rem_qty b q \<Longrightarrow>
           P (q # qs) b (q # qs) (part_fill now p q b)"
    and "\<And>q qs b qs' b'. level_pre p (q # qs) b \<Longrightarrow> rem_qty b p \<noteq> 0 \<Longrightarrow>
           rem_qty b q \<le> rem_qty b p \<Longrightarrow> P qs (full_fill now p q b) qs' b' \<Longrightarrow> P (q # qs) b qs' b'"
  shows "P qs b (fst (match_level now p qs b)) (snd (match_level now p qs b))"
  using assms(1)
proof (induction qs arbitrary: b)
  case Nil
  then show ?case using assms(2) by simp
next
  case (Cons q qs)
  consider "rem_qty b p = 0" | "rem_qty b p \<noteq> 0" "rem_qty b p < rem_qty b q"
    | "rem_qty b p \<noteq> 0" "rem_qty b q \<le> rem_qty b p"
    by (meson not_le)
  then show ?case
  proof cases
    case 1
    with Cons.prems show ?thesis
      using assms(3) by (simp add: match_level_step del: match_level.simps)
  next
    case 2
    with Cons.prems show ?thesis
      using assms(4) by (simp add: match_level_step del: match_level.simps)
  next
    case 3
    then have "\<not> rem_qty b p < rem_qty b q" by simp
    with 3 Cons show ?thesis
      using assms(5)[OF Cons.prems 3] level_pre_full_fill[OF Cons.prems 3]
      by (simp add: match_level_step del: match_level.simps)
  qed
qed

subsection \<open>The result of the loop\<close>

text \<open>The parts of the book that matching at a level does not touch.\<close>

definition level_frame :: "book \<Rightarrow> book \<Rightarrow> bool" where
  "level_frame b c \<longleftrightarrow>
     bids c = bids b \<and> asks c = asks b \<and> stop_buy_orders c = stop_buy_orders b \<and>
     stop_sell_orders c = stop_sell_orders b \<and> symbol c = symbol b \<and> tick_size c = tick_size b \<and>
     order_callback c = order_callback b \<and> trade_callback c = trade_callback b"

lemma match_level_frame:
  assumes "level_pre p qs b"
  shows "level_frame b (snd (match_level now p qs b))"
  using assms
proof (induction rule: match_level_induct[where now = now])
  case (Part q qs b)
  then show ?case by (simp add: level_frame_def part_fill_eq)
next
  case (Full q qs b qs' b')
  then show ?case by (simp add: level_frame_def full_fill_eq)
qed (simp_all add: level_frame_def)

lemma match_level_terms:
  assumes "level_pre p qs b"
  shows "same_terms (heap b r) (heap (snd (match_level now p qs b)) r)"
  using assms
proof (induction rule: match_level_induct[where now = now])
  case (Part q qs b)
  then show ?case by (simp add: part_fill_eq same_terms_def)
next
  case (Full q qs b qs' b')
  have "same_terms (heap b r) (heap (full_fill now p q b) r)"
    using Full(1-3) by (simp add: full_fill_eq same_terms_def)
  then show ?case using Full(4) by (rule same_terms_trans)
qed simp_all

lemma match_level_wf:
  assumes "level_pre p qs b" and "wf_order (heap b r)"
  shows "wf_order (heap (snd (match_level now p qs b)) r)"
  using assms
proof (induction rule: match_level_induct[where now = now])
  case (Part q qs b)
  then show ?case by (auto simp: part_fill_def trade_with_eq level_preD intro: wf_fill)
next
  case (Full q qs b qs' b')
  have "wf_order (heap (full_fill now p q b) r)"
    using Full(5) level_preD(4)[OF Full(1,2)]
    by (auto simp: full_fill_def erase_id_def trade_with_eq intro: wf_fill)
  then show ?case by (rule Full(4))
qed simp_all

lemma match_level_pre:
  assumes "level_pre p qs b"
  shows "level_pre p (fst (match_level now p qs b)) (snd (match_level now p qs b))"
  using assms
proof (induction rule: match_level_induct[where now = now])
  case (Part q qs b)
  then show ?case by (rule level_pre_part_fill)
qed simp_all

text \<open>The loop leaves the level non-empty only when the incoming order has nothing left.\<close>

lemma match_level_exhausts:
  assumes "level_pre p qs b" and "fst (match_level now p qs b) \<noteq> []"
  shows "rem_qty (snd (match_level now p qs b)) p = 0"
  using assms
proof (induction rule: match_level_induct[where now = now])
  case (Part q qs b)
  then show ?case using level_preD(4)[OF Part(1,2)] by (simp add: part_fill_eq)
qed simp_all

text \<open>The level keeps a suffix; the orders of the consumed prefix are filled and left the index.\<close>

definition consumed :: "OrderPtr list \<Rightarrow> OrderPtr list \<Rightarrow> book \<Rightarrow> OrderPtr list \<Rightarrow> book \<Rightarrow> bool" where
  "consumed gone qs b qs' b' \<longleftrightarrow>
     qs = gone @ qs' \<and> (\<forall>q \<in> set gone. rem_qty b' q = 0) \<and>
     orders_by_id b' = (\<lambda>i. if i \<in> (\<lambda>q. o_id (heap b q)) ` set gone then None else orders_by_id b i)"

lemma consumedD:
  assumes "consumed gone qs b qs' b'"
  shows "set qs = set gone \<union> set qs'" "q \<in> set gone \<Longrightarrow> q \<in> set qs" "q \<in> set qs' \<Longrightarrow> q \<in> set qs"
  using assms by (auto simp: consumed_def)

lemma match_level_consumed_aux:
  assumes "level_pre p qs b"
  shows "(\<exists>gone. consumed gone qs b (fst (match_level now p qs b)) (snd (match_level now p qs b))) \<and>
    (\<forall>r. r \<noteq> p \<longrightarrow> r \<notin> set qs \<longrightarrow> heap (snd (match_level now p qs b)) r = heap b r)"
  using assms
proof (induction rule: match_level_induct[where now = now])
  case (Nil b)
  then show ?case by (auto simp: consumed_def)
next
  case (Done q qs b)
  then show ?case by (auto simp: consumed_def intro!: exI[of _ "[]"])
next
  case (Part q qs b)
  then show ?case by (auto simp: consumed_def part_fill_eq intro!: exI[of _ "[]"])
next
  case (Full q qs b qs' b')
  then obtain gone where gone: "consumed gone qs (full_fill now p q b) qs' b'"
    and rest: "\<And>r. r \<noteq> p \<Longrightarrow> r \<notin> set qs \<Longrightarrow> heap b' r = heap (full_fill now p q b) r"
    by blast
  have "q \<noteq> p" "q \<notin> set qs" using Full(1) by (auto simp: level_pre_def)
  then have "rem_qty b' q = 0" using rest[of q] Full(1-3) by (simp add: full_fill_eq)
  moreover have "o_id (heap (full_fill now p q b) r) = o_id (heap b r)" for r
    using Full(1-3) by (simp add: full_fill_eq)
  moreover have "orders_by_id (full_fill now p q b) = (orders_by_id b)(o_id (heap b q) := None)"
    using Full(1-3) by (simp add: full_fill_eq)
  ultimately have "consumed (q # gone) (q # qs) b qs' b'"
    using gone by (auto simp: consumed_def)
  moreover have "heap b' r = heap b r" if "r \<noteq> p" "r \<notin> set (q # qs)" for r
    using that rest[of r] Full(1-3) by (simp add: full_fill_eq)
  ultimately show ?case by blast
qed

lemmas match_level_consumed = match_level_consumed_aux[THEN conjunct1]

lemma match_level_untouched:
  "level_pre p qs b \<Longrightarrow> r \<noteq> p \<Longrightarrow> r \<notin> set qs \<Longrightarrow>
   heap (snd (match_level now p qs b)) r = heap b r"
  using match_level_consumed_aux by blast

text \<open>The trades of the loop are the greedy allocation of the incoming quantity to the level.\<close>

definition claims :: "book \<Rightarrow> OrderPtr list \<Rightarrow> (OrderPtr \<times> nat) list" where
  "claims b qs = map (\<lambda>q. (q, unat (rem_qty b q))) qs"

lemma claims_Cons: "claims b (q # qs) = (q, unat (rem_qty b q)) # claims b qs"
  by (simp add: claims_def)

lemma claims_cong: "(\<And>q. q \<in> set qs \<Longrightarrow> heap c q = heap b q) \<Longrightarrow> claims c qs = claims b qs"
  by (simp add: claims_def)

lemma claims_full_fill:
  assumes "level_pre p (q # qs) b" and "rem_qty b p \<noteq> 0" and "rem_qty b q \<le> rem_qty b p"
  shows "claims (full_fill now p q b) qs = claims b qs"
proof (rule claims_cong)
  fix r
  assume "r \<in> set qs"
  with assms(1) have "r \<noteq> p" "r \<noteq> q" by (auto simp: level_pre_def)
  then show "heap (full_fill now p q b) r = heap b r" by (simp add: full_fill_eq[OF assms])
qed

definition fill_updates :: "OrderPtr \<Rightarrow> OrderSide \<Rightarrow> (OrderPtr \<times> nat) list \<Rightarrow> OrderPtr list" where
  "fill_updates p sd fs = concat (map (\<lambda>f. if sd = BUY then [p, fst f] else [fst f, p]) fs)"

lemma match_level_greedy_aux:
  assumes "level_pre p qs b"
  shows "let b' = snd (match_level now p qs b);
             qs' = fst (match_level now p qs b);
             n = unat (rem_qty b p);
             fs = greedy n (claims b qs)
         in claims b' qs' = leftover n (claims b qs) \<and>
            unat (rem_qty b' p) = n - sum_list (map snd (claims b qs)) \<and>
            pending_trades b' = pending_trades b @ trade_records now p b (length (pending_trades b)) fs \<and>
            pending_order_updates b' = pending_order_updates b @ fill_updates p (o_side (heap b p)) fs"
  using assms
proof (induction rule: match_level_induct[where now = now])
  case (Nil b)
  then show ?case by (simp add: claims_def fill_updates_def)
next
  case (Done q qs b)
  then show ?case by (simp add: fill_updates_def)
next
  case (Part q qs b)
  note pre = level_preD[OF Part(1,2)]
  have rest: "claims (part_fill now p q b) qs = claims b qs"
  proof (rule claims_cong)
    fix r assume "r \<in> set qs"
    with Part(1) have "r \<noteq> p" "r \<noteq> q" by (auto simp: level_pre_def)
    then show "heap (part_fill now p q b) r = heap b r" by (simp add: part_fill_eq[OF Part])
  qed
  have lt: "unat (rem_qty b p) < unat (rem_qty b q)" and nz: "0 < unat (rem_qty b p)"
    using Part(2,3) by (simp_all add: word_less_nat_alt unat_gt_0)
  have "unat (rem_qty b q - rem_qty b p) = unat (rem_qty b q) - unat (rem_qty b p)"
    using Part(3) by (simp add: unat_sub)
  then show ?case
    using lt nz pre(4) rest by (simp add: claims_Cons part_fill_eq[OF Part] Let_def fill_updates_def)
next
  case (Full q qs b qs' b')
  note pre = level_preD[OF Full(1,2)] and eq = full_fill_eq[OF Full(1-3)]
  have le: "unat (rem_qty b q) \<le> unat (rem_qty b p)" and nz: "0 < unat (rem_qty b p)"
    using Full(2,3) by (simp_all add: word_le_nat_alt unat_gt_0)
  have sub: "unat (rem_qty (full_fill now p q b) p) = unat (rem_qty b p) - unat (rem_qty b q)"
    using pre(4) Full(3) by (simp add: eq unat_sub)
  have "trade_records now p (full_fill now p q b) k fs = trade_records now p b k fs" for k fs
    by (rule trade_records_cong) (simp_all add: eq same_terms_def)
  moreover have "o_side (heap (full_fill now p q b) p) = o_side (heap b p)"
    by (simp add: eq)
  moreover have "pending_trades (full_fill now p q b) =
      pending_trades b @ [trade_record now p b (length (pending_trades b)) (q, unat (rem_qty b q))]"
    "pending_order_updates (full_fill now p q b) =
      pending_order_updates b @ (if o_side (heap b p) = BUY then [p, q] else [q, p])"
    by (simp_all add: eq)
  ultimately show ?case
    using Full(4) le nz sub claims_full_fill[OF Full(1-3), of now]
    by (simp add: Let_def claims_Cons fill_updates_def)
qed

lemmas match_level_greedy = match_level_greedy_aux[unfolded Let_def]

end
