(* ===== verification/Book_Inv.thy ===== *)
theory Book_Inv
  imports Match_Level
begin

text \<open>
  The representation invariant of \<^verbatim>\<open>OrderBook\<close> and the proof that \<^verbatim>\<open>matchOrder\<close> returns and keeps it.
  The invariant says how the four level maps, the id index and the order objects agree, and that
  the book is not crossed. It is stated up to a set \<open>X\<close> of orders in flight: orders that are
  registered in the index while they are being matched and rest in no level.
\<close>

subsection \<open>The invariant\<close>

definition in_levels :: "levels \<Rightarrow> OrderPtr \<Rightarrow> bool" where
  "in_levels m q \<longleftrightarrow> (\<exists>k qs. map_find m k = Some qs \<and> q \<in> set qs)"

definition levels_ok :: "(double \<Rightarrow> OrderPtr \<Rightarrow> bool) \<Rightarrow> levels \<Rightarrow> bool" where
  "levels_ok P m \<longleftrightarrow> map_inv m \<and>
     (\<forall>k qs. map_find m k = Some qs \<longrightarrow> qs \<noteq> [] \<and> distinct qs \<and> (\<forall>q \<in> set qs. P k q))"

definition indexed :: "book \<Rightarrow> OrderPtr \<Rightarrow> bool" where
  "indexed b q \<longleftrightarrow> orders_by_id b (o_id (heap b q)) = Some q"

definition open_order :: "book \<Rightarrow> OrderPtr \<Rightarrow> bool" where
  "open_order b q \<longleftrightarrow>
     active (heap b q) \<and> rem_qty b q \<noteq> 0 \<and> wf_order (heap b q) \<and> indexed b q"

text \<open>An order resting at price \<open>k\<close>, and a stop order waiting at stop price \<open>k\<close>.\<close>

definition rests :: "book \<Rightarrow> OrderSide \<Rightarrow> double \<Rightarrow> OrderPtr \<Rightarrow> bool" where
  "rests b sd k q \<longleftrightarrow> o_side (heap b q) = sd \<and> o_price (heap b q) = k \<and>
     o_type (heap b q) = LIMIT \<and> open_order b q"

definition waits :: "book \<Rightarrow> OrderSide \<Rightarrow> double \<Rightarrow> OrderPtr \<Rightarrow> bool" where
  "waits b sd k q \<longleftrightarrow> o_side (heap b q) = sd \<and> o_stop_price (heap b q) = k \<and>
     isStopOrder (heap b q) \<and> open_order b q"

definition in_book :: "book \<Rightarrow> OrderPtr \<Rightarrow> bool" where
  "in_book b q \<longleftrightarrow> in_levels (bids b) q \<or> in_levels (asks b) q \<or>
     in_levels (stop_buy_orders b) q \<or> in_levels (stop_sell_orders b) q"

definition uncrossed :: "book \<Rightarrow> bool" where
  "uncrossed b \<longleftrightarrow>
     (\<forall>x qs y rs. map_find (bids b) x = Some qs \<longrightarrow> map_find (asks b) y = Some rs \<longrightarrow> x < y)"

definition index_ok :: "OrderPtr set \<Rightarrow> book \<Rightarrow> bool" where
  "index_ok X b \<longleftrightarrow>
     (\<forall>i q. orders_by_id b i = Some q \<longrightarrow> o_id (heap b q) = i \<and> (q \<in> X \<or> in_book b q))"

definition book_inv_upto :: "OrderPtr set \<Rightarrow> book \<Rightarrow> bool" where
  "book_inv_upto X b \<longleftrightarrow>
     levels_ok (rests b BUY) (bids b) \<and> levels_ok (rests b SELL) (asks b) \<and>
     levels_ok (waits b BUY) (stop_buy_orders b) \<and> levels_ok (waits b SELL) (stop_sell_orders b) \<and>
     index_ok X b \<and> uncrossed b"

abbreviation book_inv :: "book \<Rightarrow> bool" where
  "book_inv \<equiv> book_inv_upto {}"

subsection \<open>Levels\<close>

lemma levels_okD:
  assumes "levels_ok P m" and "map_find m k = Some qs"
  shows "qs \<noteq> []" "distinct qs" "q \<in> set qs \<Longrightarrow> P k q"
  using assms by (auto simp: levels_ok_def)

lemma levels_ok_mono:
  assumes "levels_ok P m" and "\<And>k qs q. map_find m k = Some qs \<Longrightarrow> q \<in> set qs \<Longrightarrow> P k q \<Longrightarrow> Q k q"
  shows "levels_ok Q m"
  using assms by (simp add: levels_ok_def)

lemma levels_ok_in: "levels_ok P m \<Longrightarrow> in_levels m q \<Longrightarrow> \<exists>k. P k q"
  by (auto simp: levels_ok_def in_levels_def)

lemma store_level_replace: "store_level k qs m = om.replace (qs = []) k qs m"
  by (simp add: store_level_def om.replace_def)

lemma map_inv_store_level: "map_inv m \<Longrightarrow> map_inv (store_level k qs m)"
  by (simp add: store_level_replace om.inv_replace)

lemma find_store_level:
  "map_find (store_level k qs m) k' =
     (if k' = k then (if qs = [] then None else Some qs) else map_find m k')"
  by (simp add: store_level_def map_find_put map_find_erase)

lemma levels_ok_store:
  assumes "levels_ok P m" and "distinct qs" and "\<forall>q \<in> set qs. P k q"
  shows "levels_ok P (store_level k qs m)"
  using assms by (auto simp: levels_ok_def map_inv_store_level find_store_level split: if_splits)

lemma levels_ok_push:
  assumes "levels_ok P m" and "P k p" and "\<not> in_levels m p"
  shows "levels_ok P (push_level k p m)"
proof -
  have "levels_ok P (store_level k (case map_find m k of None \<Rightarrow> [p] | Some qs \<Rightarrow> qs @ [p]) m)"
    using assms by (intro levels_ok_store)
      (auto simp: in_levels_def dest: levels_okD split: option.splits)
  then show ?thesis
    by (simp add: push_level_def store_level_def split: option.splits)
qed

lemma find_push_level:
  "map_find (push_level k p m) k' =
     (if k' = k then Some (case map_find m k of None \<Rightarrow> [p] | Some qs \<Rightarrow> qs @ [p])
      else map_find m k')"
  by (simp add: push_level_def map_find_put)

lemma in_levels_put:
  "in_levels (map_put k qs m) q \<longleftrightarrow> q \<in> set qs \<or> (\<exists>k' rs. k' \<noteq> k \<and> map_find m k' = Some rs \<and> q \<in> set rs)"
  by (auto simp: in_levels_def map_find_put)

lemma in_levels_push: "in_levels (push_level k p m) q \<longleftrightarrow> q = p \<or> in_levels m q"
proof (cases "map_find m k")
  case None
  then have "in_levels m q \<longleftrightarrow> (\<exists>k' rs. k' \<noteq> k \<and> map_find m k' = Some rs \<and> q \<in> set rs)"
    unfolding in_levels_def by (metis option.distinct(1))
  with None show ?thesis by (auto simp: push_level_def in_levels_put)
next
  case (Some qs)
  then have "in_levels m q \<longleftrightarrow> q \<in> set qs \<or> (\<exists>k' rs. k' \<noteq> k \<and> map_find m k' = Some rs \<and> q \<in> set rs)"
    unfolding in_levels_def by (metis option.sel)
  with Some show ?thesis by (auto simp: push_level_def in_levels_put)
qed

lemma in_levels_store:
  "in_levels (store_level k qs m) q \<longleftrightarrow>
     q \<in> set qs \<or> (\<exists>k' rs. k' \<noteq> k \<and> map_find m k' = Some rs \<and> q \<in> set rs)"
  by (auto simp: in_levels_def find_store_level)

subsection \<open>The invariant across one level\<close>

lemma open_orderD:
  "open_order b q \<Longrightarrow> active (heap b q)" "open_order b q \<Longrightarrow> rem_qty b q \<noteq> 0"
  "open_order b q \<Longrightarrow> wf_order (heap b q)" "open_order b q \<Longrightarrow> indexed b q"
  by (simp_all add: open_order_def)

lemma restsD: "rests b sd k q \<Longrightarrow> open_order b q" and waitsD: "waits b sd k q \<Longrightarrow> open_order b q"
  by (simp_all add: rests_def waits_def)

lemma rests_not_waits: "rests b sd k q \<Longrightarrow> \<not> waits b sd' k' q"
  by (auto simp: rests_def waits_def isStopOrder_def)

lemma book_invD:
  assumes "book_inv_upto X b"
  shows "levels_ok (rests b BUY) (bids b)" "levels_ok (rests b SELL) (asks b)"
    "levels_ok (waits b BUY) (stop_buy_orders b)" "levels_ok (waits b SELL) (stop_sell_orders b)"
    "index_ok X b" "uncrossed b"
  using assms by (simp_all add: book_inv_upto_def)

lemma in_book_open:
  assumes inv: "book_inv_upto X b" and "in_book b q"
  shows "open_order b q"
proof -
  from assms(2) have "(\<exists>sd k. rests b sd k q) \<or> (\<exists>sd k. waits b sd k q)"
    unfolding in_book_def
    using book_invD(1-4)[OF inv] by (blast dest: levels_ok_in)
  then show ?thesis by (auto dest: restsD waitsD)
qed

text \<open>The side of the book that holds the resting orders an order of side \<open>sd\<close> trades with.\<close>

fun other_side :: "OrderSide \<Rightarrow> OrderSide" where
  "other_side BUY = SELL"
| "other_side SELL = BUY"

lemma opposite_ok: "book_inv_upto X b \<Longrightarrow> levels_ok (rests b (other_side sd)) (opposite sd b)"
  by (cases sd) (simp_all add: opposite_def book_invD)

lemma best_level_find: "map_inv m \<Longrightarrow> best_level sd m = Some (k, qs) \<Longrightarrow> map_find m k = Some qs"
  by (cases sd) (simp_all add: best_level_def map_first_find map_last_find)

lemma best_level_None: "best_level sd m = None \<longleftrightarrow> m = []"
  by (cases sd) (simp_all add: best_level_def)

lemma in_opposite: "map_find (opposite sd b) k = Some qs \<Longrightarrow> q \<in> set qs \<Longrightarrow> in_book b q"
  by (cases sd) (auto simp: opposite_def in_book_def in_levels_def)

text \<open>The order being matched: in flight, registered, not in the book.\<close>

definition match_pre :: "OrderPtr set \<Rightarrow> OrderPtr \<Rightarrow> book \<Rightarrow> bool" where
  "match_pre X p b \<longleftrightarrow> book_inv_upto X b \<and> p \<in> X \<and> \<not> in_book b p \<and> live (heap b p) \<and>
     wf_order (heap b p) \<and> indexed b p"

lemma match_pre_level:
  assumes "match_pre X p b" and "best_level sd (opposite sd b) = Some (k, qs)"
  shows "level_pre p qs b"
proof -
  from assms(1) have ok: "levels_ok (rests b (other_side sd)) (opposite sd b)"
    unfolding match_pre_def by (blast intro: opposite_ok)
  then have find: "map_find (opposite sd b) k = Some qs"
    using assms(2) by (simp add: best_level_find levels_ok_def)
  have "open_order b q" if "q \<in> set qs" for q
    using levels_okD(3)[OF ok find that] by (rule restsD)
  moreover have "p \<notin> set qs"
    using assms(1) in_opposite[OF find] by (auto simp: match_pre_def)
  ultimately show ?thesis
    using assms(1) levels_okD(2)[OF ok find]
    by (auto simp: level_pre_def match_pre_def open_order_def indexed_def)
qed

text \<open>One round of the outer loop.\<close>

definition match_round :: "(nat \<Rightarrow> time) \<Rightarrow> OrderPtr \<Rightarrow> double \<Rightarrow> OrderPtr list \<Rightarrow> book \<Rightarrow> book" where
  "match_round now p k qs b =
     (let (qs', b1) = match_level now p qs b; sd = o_side (heap b p)
      in set_opposite sd (store_level k qs' (opposite sd b1)) b1)"

lemma matchOrder_unfold:
  "matchOrder now p b =
     (if rem_qty b p = 0 then Some b
      else case best_level (o_side (heap b p)) (opposite (o_side (heap b p)) b) of
             None \<Rightarrow> Some b
           | Some (k, qs) \<Rightarrow> if no_match (heap b p) k then Some b
                            else matchOrder now p (match_round now p k qs b))"
  by (subst matchOrder.simps)
    (simp add: match_round_def u32_positive_iff Let_def split: option.splits prod.splits)

text \<open>The incoming order meets the best level; the facts about the round are collected here.\<close>

definition round_pre :: "OrderPtr set \<Rightarrow> OrderPtr \<Rightarrow> double \<Rightarrow> OrderPtr list \<Rightarrow> book \<Rightarrow> bool" where
  "round_pre X p k qs b \<longleftrightarrow> match_pre X p b \<and>
     best_level (o_side (heap b p)) (opposite (o_side (heap b p)) b) = Some (k, qs)"

lemma round_level_pre: "round_pre X p k qs b \<Longrightarrow> level_pre p qs b"
  unfolding round_pre_def by (blast intro: match_pre_level)

lemma round_find: "round_pre X p k qs b \<Longrightarrow> map_find (opposite (o_side (heap b p)) b) k = Some qs"
  unfolding round_pre_def match_pre_def
  by (blast intro: best_level_find dest: opposite_ok levels_ok_def[THEN iffD1])

lemma set_opposite_simps [simp]:
  "heap (set_opposite sd m b) = heap b" "orders_by_id (set_opposite sd m b) = orders_by_id b"
  "symbol (set_opposite sd m b) = symbol b" "pending_trades (set_opposite sd m b) = pending_trades b"
  "tick_size (set_opposite sd m b) = tick_size b"
  "pending_order_updates (set_opposite sd m b) = pending_order_updates b"
  "stop_buy_orders (set_opposite sd m b) = stop_buy_orders b"
  "stop_sell_orders (set_opposite sd m b) = stop_sell_orders b"
  "order_callback (set_opposite sd m b) = order_callback b"
  "trade_callback (set_opposite sd m b) = trade_callback b"
  "opposite sd (set_opposite sd m b) = m"
  "opposite (other_side sd) (set_opposite sd m b) = opposite (other_side sd) b"
  by (cases sd; simp add: set_opposite_def opposite_def)+

lemma match_round_fields:
  fixes now p k qs b
  defines "b1 \<equiv> snd (match_level now p qs b)" and "qs' \<equiv> fst (match_level now p qs b)"
  shows "heap (match_round now p k qs b) = heap b1"
    "orders_by_id (match_round now p k qs b) = orders_by_id b1"
    "pending_trades (match_round now p k qs b) = pending_trades b1"
    "pending_order_updates (match_round now p k qs b) = pending_order_updates b1"
    "level_pre p qs b \<Longrightarrow> opposite (o_side (heap b p)) (match_round now p k qs b) =
       store_level k qs' (opposite (o_side (heap b p)) b)"
    "level_pre p qs b \<Longrightarrow> opposite (other_side (o_side (heap b p))) (match_round now p k qs b) =
       opposite (other_side (o_side (heap b p))) b"
    "level_pre p qs b \<Longrightarrow> stop_buy_orders (match_round now p k qs b) = stop_buy_orders b"
    "level_pre p qs b \<Longrightarrow> stop_sell_orders (match_round now p k qs b) = stop_sell_orders b"
    "level_pre p qs b \<Longrightarrow> symbol (match_round now p k qs b) = symbol b"
    "level_pre p qs b \<Longrightarrow> tick_size (match_round now p k qs b) = tick_size b"
    "level_pre p qs b \<Longrightarrow> order_callback (match_round now p k qs b) = order_callback b"
    "level_pre p qs b \<Longrightarrow> trade_callback (match_round now p k qs b) = trade_callback b"
proof -
  have round: "match_round now p k qs b =
      set_opposite (o_side (heap b p)) (store_level k qs' (opposite (o_side (heap b p)) b1)) b1"
    by (simp add: match_round_def b1_def qs'_def case_prod_beta Let_def)
  show "heap (match_round now p k qs b) = heap b1"
    "orders_by_id (match_round now p k qs b) = orders_by_id b1"
    "pending_trades (match_round now p k qs b) = pending_trades b1"
    "pending_order_updates (match_round now p k qs b) = pending_order_updates b1"
    by (simp_all add: round)
  assume "level_pre p qs b"
  then have frame: "level_frame b b1" unfolding b1_def by (rule match_level_frame)
  then have "opposite sd b1 = opposite sd b" for sd
    by (cases sd) (simp_all add: level_frame_def opposite_def)
  with frame show
    "opposite (o_side (heap b p)) (match_round now p k qs b) =
       store_level k qs' (opposite (o_side (heap b p)) b)"
    "opposite (other_side (o_side (heap b p))) (match_round now p k qs b) =
       opposite (other_side (o_side (heap b p))) b"
    "stop_buy_orders (match_round now p k qs b) = stop_buy_orders b"
    "stop_sell_orders (match_round now p k qs b) = stop_sell_orders b"
    "symbol (match_round now p k qs b) = symbol b"
    "tick_size (match_round now p k qs b) = tick_size b"
    "order_callback (match_round now p k qs b) = order_callback b"
    "trade_callback (match_round now p k qs b) = trade_callback b"
    by (simp_all add: round level_frame_def)
qed

lemma round_terms:
  "level_pre p qs b \<Longrightarrow> same_terms (heap b r) (heap (match_round now p k qs b) r)"
  by (simp add: match_round_fields match_level_terms)

lemma round_untouched:
  "level_pre p qs b \<Longrightarrow> r \<noteq> p \<Longrightarrow> r \<notin> set qs \<Longrightarrow> heap (match_round now p k qs b) r = heap b r"
  by (simp add: match_round_fields match_level_untouched)

text \<open>Orders the round does not fill stay registered.\<close>

lemma round_indexed:
  assumes "level_pre p qs b" and "indexed b r" and "r \<notin> set qs"
  shows "indexed (match_round now p k qs b) r"
proof -
  obtain gone where gone: "consumed gone qs b (fst (match_level now p qs b)) (snd (match_level now p qs b))"
    using match_level_consumed[OF assms(1)] by blast
  have "o_id (heap b r) \<noteq> o_id (heap b q)" if "q \<in> set gone" for q
  proof (rule index_inj)
    show "orders_by_id b (o_id (heap b r)) = Some r" using assms(2) by (simp add: indexed_def)
    from that gone have "q \<in> set qs" by (blast dest: consumedD)
    with assms(1,3) show "orders_by_id b (o_id (heap b q)) = Some q" "r \<noteq> q"
      by (auto simp: level_pre_def)
  qed
  then have "orders_by_id (match_round now p k qs b) (o_id (heap b r)) = Some r"
    using gone assms(2) by (auto simp: match_round_fields consumed_def indexed_def)
  then show ?thesis
    using same_termsD(1)[OF round_terms[OF assms(1)]] by (simp add: indexed_def)
qed

lemma round_kept:
  assumes "level_pre p qs b" and "q \<in> set (fst (match_level now p qs b))" and "open_order b q"
  shows "open_order (match_round now p k qs b) q"
  using match_level_pre[OF assms(1), of now] assms(2,3) match_level_wf[OF assms(1), of q now]
  by (auto simp: open_order_def level_pre_def match_round_fields indexed_def)

lemma round_open:
  assumes "level_pre p qs b" and "open_order b q" and "q \<noteq> p"
    and "q \<in> set qs \<Longrightarrow> q \<in> set (fst (match_level now p qs b))"
  shows "open_order (match_round now p k qs b) q"
proof (cases "q \<in> set qs")
  case True
  with assms show ?thesis by (blast intro: round_kept)
next
  case False
  with assms show ?thesis
    using round_indexed[OF assms(1) _ False] round_untouched[OF assms(1,3) False]
    by (simp add: open_order_def)
qed

lemma round_rests:
  assumes "level_pre p qs b" and "rests b sd k' q" and "q \<noteq> p"
    and "q \<in> set qs \<Longrightarrow> q \<in> set (fst (match_level now p qs b))"
  shows "rests (match_round now p k qs b) sd k' q"
  using assms(2) round_open[OF assms(1) _ assms(3,4)] round_terms[OF assms(1), THEN same_termsD(2)]
    round_terms[OF assms(1), THEN same_termsD(3)] round_terms[OF assms(1), THEN same_termsD(4)]
  by (simp add: rests_def)

lemma round_waits:
  assumes "level_pre p qs b" and "waits b sd k' q" and "q \<noteq> p" and "q \<notin> set qs"
  shows "waits (match_round now p k qs b) sd k' q"
  using assms(2) round_open[OF assms(1) _ assms(3)] round_untouched[OF assms(1,3,4)] assms(4)
  by (simp add: waits_def)

text \<open>The invariant seen from the side of the incoming order.\<close>

lemma book_inv_sided:
  "book_inv_upto X b \<longleftrightarrow>
     levels_ok (rests b (other_side sd)) (opposite sd b) \<and>
     levels_ok (rests b sd) (opposite (other_side sd) b) \<and>
     levels_ok (waits b BUY) (stop_buy_orders b) \<and> levels_ok (waits b SELL) (stop_sell_orders b) \<and>
     index_ok X b \<and> uncrossed b"
  by (cases sd) (auto simp: book_inv_upto_def opposite_def)

lemma in_book_sided:
  "in_book b q \<longleftrightarrow> in_levels (opposite sd b) q \<or> in_levels (opposite (other_side sd) b) q \<or>
     in_levels (stop_buy_orders b) q \<or> in_levels (stop_sell_orders b) q"
  by (cases sd) (auto simp: in_book_def opposite_def)

lemma uncrossed_shrink:
  assumes "uncrossed b"
    and "\<And>k qs. map_find (opposite sd c) k = Some qs \<Longrightarrow> \<exists>rs. map_find (opposite sd b) k = Some rs"
    and "\<And>k qs. map_find (opposite (other_side sd) c) k = Some qs \<Longrightarrow>
           \<exists>rs. map_find (opposite (other_side sd) b) k = Some rs"
  shows "uncrossed c"
  using assms by (cases sd) (fastforce simp: uncrossed_def opposite_def)+

lemma round_outside_level:
  assumes "round_pre X p k qs b" and "map_find m k' = Some rs" and "q \<in> set rs" and "q \<in> set qs"
    and "m = opposite (o_side (heap b p)) b \<and> k' \<noteq> k \<or>
         m = opposite (other_side (o_side (heap b p))) b \<or>
         m = stop_buy_orders b \<or> m = stop_sell_orders b"
  shows False
proof -
  let ?sd = "o_side (heap b p)"
  from assms(1) have inv: "book_inv_upto X b" by (simp add: round_pre_def match_pre_def)
  then have "rests b (other_side ?sd) k q"
    using levels_okD(3)[OF opposite_ok round_find[OF assms(1)] assms(4)] by blast
  then have "o_side (heap b q) = other_side ?sd" "o_price (heap b q) = k" "o_type (heap b q) = LIMIT"
    by (simp_all add: rests_def)
  moreover from inv assms(2,3,5) have
    "rests b (other_side ?sd) k' q \<and> k' \<noteq> k \<or> rests b ?sd k' q \<or> (\<exists>sd. waits b sd k' q)"
    using book_inv_sided[of X b ?sd] by (blast dest: levels_okD(3))
  ultimately show False
    by (cases ?sd) (auto simp: rests_def waits_def isStopOrder_def)
qed

lemma round_not_incoming:
  assumes "round_pre X p k qs b" and "map_find m k' = Some rs" and "q \<in> set rs"
    and "m \<in> {opposite (o_side (heap b p)) b, opposite (other_side (o_side (heap b p))) b,
              stop_buy_orders b, stop_sell_orders b}"
  shows "q \<noteq> p"
proof -
  from assms(2-4) have "in_book b q"
    unfolding in_book_sided[of b q "o_side (heap b p)"] by (auto simp: in_levels_def)
  with assms(1) show ?thesis by (auto simp: round_pre_def match_pre_def)
qed

lemma round_index_ok:
  assumes "round_pre X p k qs b"
  shows "index_ok X (match_round now p k qs b)"
  unfolding index_ok_def
proof (intro allI impI)
  fix i r
  let ?b = "match_round now p k qs b" and ?sd = "o_side (heap b p)"
  let ?qs' = "fst (match_level now p qs b)" and ?b1 = "snd (match_level now p qs b)"
  assume i: "orders_by_id ?b i = Some r"
  note pre = round_level_pre[OF assms]
  obtain gone where gone: "consumed gone qs b ?qs' ?b1"
    using match_level_consumed[OF pre] by blast
  from i gone have old: "orders_by_id b i = Some r" and kept: "i \<notin> (\<lambda>q. o_id (heap b q)) ` set gone"
    by (auto simp: match_round_fields consumed_def split: if_splits)
  from assms have "index_ok X b" by (simp add: round_pre_def match_pre_def book_inv_upto_def)
  with old have id: "o_id (heap b r) = i" and loc: "r \<in> X \<or> in_book b r"
    by (auto simp: index_ok_def)
  have "in_book ?b r" if "in_book b r"
  proof (cases "r \<in> set qs")
    case True
    with gone kept id have "r \<in> set ?qs'" by (auto dest: consumedD(1))
    then show ?thesis
      using pre by (auto simp: in_book_sided[of _ _ ?sd] match_round_fields in_levels_store)
  next
    case False
    have "in_levels (opposite ?sd ?b) r" if "in_levels (opposite ?sd b) r"
    proof -
      from that obtain k' rs where k': "map_find (opposite ?sd b) k' = Some rs" "r \<in> set rs"
        by (auto simp: in_levels_def)
      with False round_find[OF assms] have "k' \<noteq> k" by auto
      with k' show ?thesis using pre by (auto simp: match_round_fields in_levels_store)
    qed
    with that pre show ?thesis
      by (auto simp: in_book_sided[of _ _ ?sd] match_round_fields)
  qed
  with id loc show "o_id (heap ?b r) = i \<and> (r \<in> X \<or> in_book ?b r)"
    using same_termsD(1)[OF round_terms[OF pre]] by auto
qed

lemma round_inv:
  assumes "round_pre X p k qs b"
  shows "book_inv_upto X (match_round now p k qs b)"
proof -
  let ?b = "match_round now p k qs b" and ?sd = "o_side (heap b p)"
  let ?qs' = "fst (match_level now p qs b)"
  note pre = round_level_pre[OF assms] and find = round_find[OF assms]
  note fields = match_round_fields
  from assms have inv: "book_inv_upto X b" by (simp add: round_pre_def match_pre_def)
  note ok = inv[unfolded book_inv_sided[of X b ?sd]]
  have other: "levels_ok (rests ?b ?sd) (opposite (other_side ?sd) b)"
    using ok by (elim conjE levels_ok_mono)
      (blast intro: round_rests[OF pre] dest: round_outside_level[OF assms] round_not_incoming[OF assms])
  have stops: "levels_ok (waits ?b BUY) (stop_buy_orders b)" "levels_ok (waits ?b SELL) (stop_sell_orders b)"
    using ok by (auto elim!: levels_ok_mono intro: round_waits[OF pre]
        dest: round_outside_level[OF assms] round_not_incoming[OF assms])
  have sub: "q \<in> set qs" if "q \<in> set ?qs'" for q
    using that match_level_consumed[OF pre, of now] by (blast dest: consumedD)
  have same: "rests ?b (other_side ?sd) k' q"
    if "map_find (opposite ?sd b) k' = Some rs" "q \<in> set rs" "k' = k \<Longrightarrow> q \<in> set ?qs'" for k' rs q
  proof -
    from ok that have "rests b (other_side ?sd) k' q" by (blast dest: levels_okD(3))
    moreover have "q \<in> set qs \<Longrightarrow> q \<in> set ?qs'"
      using that round_outside_level[OF assms that(1,2)] by blast
    moreover have "q \<noteq> p" using that round_not_incoming[OF assms that(1,2)] by blast
    ultimately show ?thesis by (blast intro: round_rests[OF pre])
  qed
  have "distinct ?qs'" using match_level_pre[OF pre, of now] by (simp add: level_pre_def)
  then have opp: "levels_ok (rests ?b (other_side ?sd)) (store_level k ?qs' (opposite ?sd b))"
    using ok same sub find
    by (auto simp: levels_ok_def map_inv_store_level find_store_level split: if_splits)
  have "uncrossed ?b"
    using ok find
    by (elim conjE uncrossed_shrink[where sd = ?sd and b = b])
      (auto simp: fields pre find_store_level split: if_splits)
  then show ?thesis
    using other stops opp round_index_ok[OF assms]
    by (simp add: book_inv_sided[of X ?b ?sd] fields pre)
qed

text \<open>A round only takes orders out of the book.\<close>

lemma round_in_book:
  assumes "round_pre X p k qs b" and "in_book (match_round now p k qs b) q"
  shows "in_book b q"
proof -
  let ?sd = "o_side (heap b p)"
  note pre = round_level_pre[OF assms(1)] and find = round_find[OF assms(1)]
  have sub: "q \<in> set qs" if "q \<in> set (fst (match_level now p qs b))"
    using that match_level_consumed[OF pre, of now] by (blast dest: consumedD)
  from assms(2) consider "q \<in> set (fst (match_level now p qs b))"
    | k' rs where "map_find (opposite ?sd b) k' = Some rs" "q \<in> set rs"
    | "in_levels (opposite (other_side ?sd) b) q \<or> in_levels (stop_buy_orders b) q \<or>
       in_levels (stop_sell_orders b) q"
    unfolding in_book_sided[of _ _ ?sd] by (auto simp: match_round_fields pre in_levels_store)
  then show ?thesis
  proof cases
    case 1
    then show ?thesis using sub find by (blast intro: in_opposite)
  next
    case 2
    then show ?thesis by (rule in_opposite)
  next
    case 3
    then show ?thesis unfolding in_book_sided[of _ _ ?sd] by blast
  qed
qed

lemma round_match_pre:
  assumes "round_pre X p k qs b"
  shows "match_pre X p (match_round now p k qs b)"
proof -
  note pre = round_level_pre[OF assms]
  have "level_pre p (fst (match_level now p qs b)) (snd (match_level now p qs b))"
    using pre by (rule match_level_pre)
  then have "live (heap (match_round now p k qs b) p)" "indexed (match_round now p k qs b) p"
    by (simp_all add: level_pre_def match_round_fields indexed_def)
  moreover have "wf_order (heap (match_round now p k qs b) p)"
    using assms match_level_wf[OF pre] by (simp add: match_round_fields round_pre_def match_pre_def)
  moreover have "\<not> in_book (match_round now p k qs b) p" "p \<in> X"
    using assms round_in_book[OF assms] by (auto simp: round_pre_def match_pre_def)
  ultimately show ?thesis
    using round_inv[OF assms] by (simp add: match_pre_def)
qed

lemma length_erase: "map_find m k = Some v \<Longrightarrow> length (map_erase k m) < length m"
  unfolding map_erase_def by (rule length_filter_less[of "(k, v)"]) (auto dest: map_find_in)

text \<open>Every round either removes a level from the book or exhausts the incoming order.\<close>

definition match_work :: "OrderPtr \<Rightarrow> book \<Rightarrow> nat" where
  "match_work p b = (if rem_qty b p = 0 then 0 else Suc (length (opposite (o_side (heap b p)) b)))"

lemma round_work:
  assumes "round_pre X p k qs b" and "rem_qty b p \<noteq> 0"
  shows "match_work p (match_round now p k qs b) < match_work p b"
proof (cases "fst (match_level now p qs b) = []")
  case True
  note pre = round_level_pre[OF assms(1)]
  have "o_side (heap (match_round now p k qs b) p) = o_side (heap b p)"
    using same_termsD(2)[OF round_terms[OF pre]] .
  with True assms(2) length_erase[OF round_find[OF assms(1)]] pre show ?thesis
    by (simp add: match_work_def match_round_fields store_level_def)
next
  case False
  then have "rem_qty (match_round now p k qs b) p = 0"
    using match_level_exhausts[OF round_level_pre[OF assms(1)]] by (simp add: match_round_fields)
  with assms(2) show ?thesis by (simp add: match_work_def)
qed

text \<open>The ways \<^verbatim>\<open>matchOrder\<close> can stop.\<close>

definition match_stops :: "OrderPtr \<Rightarrow> book \<Rightarrow> bool" where
  "match_stops p b \<longleftrightarrow> rem_qty b p = 0 \<or>
     (case best_level (o_side (heap b p)) (opposite (o_side (heap b p)) b) of
        None \<Rightarrow> True | Some (k, qs) \<Rightarrow> no_match (heap b p) k)"

text \<open>
  \<^verbatim>\<open>matchOrder\<close> returns, and a relation between the initial and the final state holds when it
  holds where the loop stops and is carried backwards over a round.
\<close>

lemma matchOrder_induct [consumes 1, case_names Stop Round]:
  assumes "match_pre X p b"
    and "\<And>b. match_pre X p b \<Longrightarrow> match_stops p b \<Longrightarrow> P b b"
    and "\<And>b k qs b'. round_pre X p k qs b \<Longrightarrow> rem_qty b p \<noteq> 0 \<Longrightarrow> \<not> no_match (heap b p) k \<Longrightarrow>
           P (match_round now p k qs b) b' \<Longrightarrow> P b b'"
  shows "\<exists>b'. matchOrder now p b = Some b' \<and> P b b'"
  using assms(1)
proof (induction "match_work p b" arbitrary: b rule: less_induct)
  case less
  show ?case
  proof (cases "match_stops p b")
    case True
    then have "matchOrder now p b = Some b"
      by (subst matchOrder_unfold) (auto simp: match_stops_def split: option.splits)
    with True assms(2)[OF less.prems] show ?thesis by simp
  next
    case False
    then obtain k qs where nz: "rem_qty b p \<noteq> 0" and pre: "round_pre X p k qs b"
      and m: "\<not> no_match (heap b p) k"
      using less.prems by (auto simp: match_stops_def round_pre_def split: option.splits)
    from less.hyps[OF round_work[OF pre nz] round_match_pre[OF pre]]
    obtain b' where b': "matchOrder now p (match_round now p k qs b) = Some b'"
      "P (match_round now p k qs b) b'" by blast
    have "matchOrder now p b = Some b'"
      using nz m pre b'(1) by (subst matchOrder_unfold) (simp add: round_pre_def)
    with assms(3)[OF pre nz m b'(2)] show ?thesis by blast
  qed
qed

text \<open>Partial versions: when \<^verbatim>\<open>matchOrder\<close> returned \<open>b'\<close>, the relation holds of \<open>b'\<close>.\<close>

lemma matchOrder_rel [consumes 2, case_names Stop Round]:
  assumes "matchOrder now p b = Some b'" and "match_pre X p b"
    and "\<And>b. match_pre X p b \<Longrightarrow> match_stops p b \<Longrightarrow> P b b"
    and "\<And>b k qs b'. round_pre X p k qs b \<Longrightarrow> rem_qty b p \<noteq> 0 \<Longrightarrow> \<not> no_match (heap b p) k \<Longrightarrow>
           P (match_round now p k qs b) b' \<Longrightarrow> P b b'"
  shows "P b b'"
  using matchOrder_induct[of X p b P now, OF assms(2-4)] assms(1) by force

lemma matchOrder_returns: "match_pre X p b \<Longrightarrow> \<exists>b'. matchOrder now p b = Some b'"
  using matchOrder_induct[of X p b "\<lambda>_ _. True" now] by simp

lemma matchOrder_pre:
  "matchOrder now p b = Some b' \<Longrightarrow> match_pre X p b \<Longrightarrow> match_pre X p b' \<and> match_stops p b'"
  by (rule matchOrder_rel[where P = "\<lambda>b b'. match_pre X p b' \<and> match_stops p b'" and X = X]) auto

lemma matchOrder_terms:
  "matchOrder now p b = Some b' \<Longrightarrow> match_pre X p b \<Longrightarrow> same_terms (heap b r) (heap b' r)"
proof (rule matchOrder_rel[where P = "\<lambda>b b'. same_terms (heap b r) (heap b' r)" and X = X])
  fix b k qs b'
  assume "round_pre X p k qs b" and "same_terms (heap (match_round now p k qs b) r) (heap b' r)"
  then show "same_terms (heap b r) (heap b' r)"
    using round_terms[OF round_level_pre] same_terms_trans by blast
qed auto

text \<open>Orders outside the book other than the incoming one keep their state and their registration.\<close>

lemma matchOrder_bystander:
  assumes "matchOrder now p b = Some b'" and "match_pre X p b" and "r \<noteq> p" and "\<not> in_book b r"
  shows "heap b' r = heap b r \<and> (indexed b r \<longrightarrow> indexed b' r) \<and> \<not> in_book b' r"
  using assms(1,2,4)
proof (induction rule: matchOrder_rel)
  case (Stop b)
  then show ?case by simp
next
  case (Round b k qs b')
  have "r \<notin> set qs" using Round(5) round_find[OF Round(1)] by (blast dest: in_opposite)
  moreover have "\<not> in_book (match_round now p k qs b) r"
    using Round(1,5) by (blast dest: round_in_book)
  ultimately show ?case
    using Round(4) round_level_pre[OF Round(1)] assms(3) round_untouched round_indexed by metis
qed

lemma matchOrder_in_book:
  "matchOrder now p b = Some b' \<Longrightarrow> match_pre X p b \<Longrightarrow> in_book b' q \<longrightarrow> in_book b q"
  by (rule matchOrder_rel[where P = "\<lambda>b b'. in_book b' q \<longrightarrow> in_book b q" and X = X])
    (auto dest: round_in_book)

lemma matchOrder_frame:
  assumes "matchOrder now p b = Some b'" and "match_pre X p b"
  shows "stop_buy_orders b' = stop_buy_orders b \<and> stop_sell_orders b' = stop_sell_orders b \<and>
    symbol b' = symbol b \<and> tick_size b' = tick_size b \<and>
    order_callback b' = order_callback b \<and> trade_callback b' = trade_callback b"
  using assms
proof (induction rule: matchOrder_rel)
  case (Round b k qs b')
  then show ?case by (simp add: match_round_fields round_level_pre)
qed simp

end
