(* ===== verification/Book_Ops.thy ===== *)
theory Book_Ops
  imports Book_Inv
begin

text \<open>
  The remaining operations of \<^verbatim>\<open>OrderBook\<close> keep the invariant: settling an order after matching,
  triggering and processing stop orders (whose cascade ends because every round removes a stop
  level), \<^verbatim>\<open>addOrder\<close> and \<^verbatim>\<open>cancelOrder\<close>.
\<close>

subsection \<open>Settling an order\<close>

text \<open>Rewriting or unregistering an order that is not in the book leaves the book as it is.\<close>

lemma in_book_cong:
  "bids c = bids b \<Longrightarrow> asks c = asks b \<Longrightarrow> stop_buy_orders c = stop_buy_orders b \<Longrightarrow>
   stop_sell_orders c = stop_sell_orders b \<Longrightarrow> in_book c q = in_book b q"
  by (simp add: in_book_def)

lemma book_inv_same_levels:
  assumes inv: "book_inv_upto X b"
    and lv: "bids c = bids b" "asks c = asks b" "stop_buy_orders c = stop_buy_orders b"
      "stop_sell_orders c = stop_sell_orders b"
    and keep: "\<And>q. in_book b q \<Longrightarrow> heap c q = heap b q \<and> indexed c q"
    and idx: "index_ok Y c"
  shows "book_inv_upto Y c"
proof -
  have r: "rests b sd k q \<Longrightarrow> in_book b q \<Longrightarrow> rests c sd k q"
    and w: "waits b sd k q \<Longrightarrow> in_book b q \<Longrightarrow> waits c sd k q" for sd k q
    using keep[of q] by (simp_all add: rests_def waits_def open_order_def)
  have "in_levels m q" if "map_find m k = Some qs" "q \<in> set qs" for m :: levels and k qs q
    using that by (auto simp: in_levels_def)
  then have mem: "in_book b q" if "map_find m k = Some qs" "q \<in> set qs"
    "m \<in> {bids b, asks b, stop_buy_orders b, stop_sell_orders b}" for m k qs q
    using that unfolding in_book_def by blast
  have "uncrossed c" using inv lv by (simp add: book_inv_upto_def uncrossed_def)
  moreover have "levels_ok (rests c BUY) (bids b)" "levels_ok (rests c SELL) (asks b)"
    "levels_ok (waits c BUY) (stop_buy_orders b)" "levels_ok (waits c SELL) (stop_sell_orders b)"
    using book_invD(1-4)[OF inv] by (auto elim!: levels_ok_mono intro: r w mem)
  ultimately show ?thesis using idx lv by (simp add: book_inv_upto_def)
qed

lemma erase_outside:
  assumes inv: "book_inv_upto X b" and p: "\<not> in_book b p" "indexed b p"
    and id: "o_id ord = o_id (heap b p)"
  shows "book_inv_upto (X - {p}) (erase_id p (set_order p ord b))"
proof (rule book_inv_same_levels[OF inv])
  fix q assume q: "in_book b q"
  with p have "q \<noteq> p" by auto
  moreover from in_book_open[OF inv q] have "indexed b q" by (rule open_orderD)
  ultimately have "o_id (heap b q) \<noteq> o_id (heap b p)"
    using p(2) index_inj[of b q p] by (simp add: indexed_def)
  with \<open>q \<noteq> p\<close> \<open>indexed b q\<close> show "heap (erase_id p (set_order p ord b)) q = heap b q \<and>
      indexed (erase_id p (set_order p ord b)) q"
    using id by (simp add: erase_id_def indexed_def)
next
  show "index_ok (X - {p}) (erase_id p (set_order p ord b))"
    unfolding index_ok_def
  proof (intro allI impI)
    fix i q assume i: "orders_by_id (erase_id p (set_order p ord b)) i = Some q"
    then have old: "orders_by_id b i = Some q" and "i \<noteq> o_id (heap b p)"
      using id by (auto simp: erase_id_def split: if_splits)
    moreover from inv old have "o_id (heap b q) = i" "q \<in> X \<or> in_book b q"
      by (auto simp: book_inv_upto_def index_ok_def)
    ultimately show "o_id (heap (erase_id p (set_order p ord b)) q) = i \<and>
        (q \<in> X - {p} \<or> in_book (erase_id p (set_order p ord b)) q)"
      by (auto simp: erase_id_def in_book_def)
  qed
qed (simp_all add: erase_id_def)

lemma rest_order_inv:
  assumes inv: "book_inv_upto X b" and p: "\<not> in_book b p" "rests b (o_side (heap b p)) (o_price (heap b p)) p"
    and cross: "\<And>k qs. map_find (opposite (o_side (heap b p)) b) k = Some qs \<Longrightarrow> no_match (heap b p) k"
  shows "book_inv_upto (X - {p}) (addOrderToBook p b)"
proof -
  let ?c = "addOrderToBook p b"
  have same: "heap ?c = heap b" "orders_by_id ?c = orders_by_id b"
    "stop_buy_orders ?c = stop_buy_orders b" "stop_sell_orders ?c = stop_sell_orders b"
    by (simp_all add: addOrderToBook_def split: OrderSide.splits)
  then have preds: "rests ?c = rests b" "waits ?c = waits b"
    by (simp_all add: rests_def waits_def open_order_def indexed_def fun_eq_iff)
  have book: "in_book ?c q \<longleftrightarrow> q = p \<or> in_book b q" for q
    by (auto simp: addOrderToBook_def in_book_def in_levels_push split: OrderSide.splits)
  have "levels_ok (rests b BUY) (bids ?c)" "levels_ok (rests b SELL) (asks ?c)"
    using book_invD(1,2)[OF inv] p
    by (auto simp: addOrderToBook_def in_book_def intro!: levels_ok_push split: OrderSide.splits)
  moreover have "uncrossed ?c"
    using book_invD(6)[OF inv] cross
    by (auto simp: uncrossed_def addOrderToBook_def opposite_def no_match_def find_push_level
        split: OrderSide.splits if_splits)
  moreover have "index_ok (X - {p}) ?c"
    using book_invD(5)[OF inv] by (auto simp: index_ok_def same book)
  ultimately show ?thesis
    using book_invD(3,4)[OF inv] by (simp add: book_inv_upto_def preds same)
qed

text \<open>Where matching stopped with something left, no level of the other side can be matched.\<close>

lemma match_stops_cross:
  assumes inv: "book_inv_upto X b" and "match_stops p b" and "rem_qty b p \<noteq> 0"
    and "map_find (opposite (o_side (heap b p)) b) k = Some qs" and "o_type (heap b p) \<noteq> MARKET"
  shows "no_match (heap b p) k"
proof -
  have minv: "map_inv (opposite (o_side (heap b p)) b)"
    using opposite_ok[OF inv] by (auto simp: levels_ok_def)
  have "opposite (o_side (heap b p)) b \<noteq> []" using assms(4) by auto
  with assms(2,3) obtain k0 qs0 where
    best: "best_level (o_side (heap b p)) (opposite (o_side (heap b p)) b) = Some (k0, qs0)"
    and no: "no_match (heap b p) k0"
    by (auto simp: match_stops_def best_level_None split: option.splits)
  show ?thesis
  proof (cases "o_side (heap b p)")
    case BUY
    with best minv assms(4) have "k0 \<le> k" by (auto simp: best_level_def intro: map_first_least)
    with no BUY show ?thesis by (auto simp: no_match_def)
  next
    case SELL
    with best minv assms(4) have "k \<le> k0" by (auto simp: best_level_def intro: map_last_greatest)
    with no SELL show ?thesis by (auto simp: no_match_def)
  qed
qed

lemma settle_inv:
  assumes pre: "match_pre X p b" and stops: "match_stops p b" and nostop: "\<not> isStopOrder (heap b p)"
  shows "book_inv_upto (X - {p}) (settle p b)"
proof -
  from pre have inv: "book_inv_upto X b" and out: "\<not> in_book b p" and idx: "indexed b p"
    and live: "live (heap b p)" and wf: "wf_order (heap b p)"
    by (simp_all add: match_pre_def)
  have erase: "book_inv_upto (X - {p}) (erase_id p b)"
    using erase_outside[OF inv out idx, of "heap b p"] by simp
  show ?thesis
  proof (cases "rem_qty b p \<noteq> 0 \<and> o_type (heap b p) \<noteq> MARKET")
    case True
    with live nostop wf idx have rests: "rests b (o_side (heap b p)) (o_price (heap b p)) p"
      by (cases "o_type (heap b p)") (auto simp: rests_def open_order_def live_def isStopOrder_def)
    from True live have "settle p b = addOrderToBook p b"
      by (simp add: settle_def u32_positive_iff live_def active_iff)
    with rest_order_inv[OF inv out rests] match_stops_cross[OF inv stops] True show ?thesis by simp
  next
    case False
    with live have "settle p b = erase_id p b \<or>
        settle p b = erase_id p (set_order p (snd (cancel (heap b p))) b)"
      by (auto simp: settle_def u32_positive_iff live_def active_iff)
    with erase erase_outside[OF inv out idx, of "snd (cancel (heap b p))"] show ?thesis by auto
  qed
qed

text \<open>Settling one order leaves every other order alone.\<close>

lemma settle_bystander:
  assumes "indexed b p" and "r \<noteq> p"
  shows "heap (settle p b) r = heap b r" "indexed b r \<Longrightarrow> indexed (settle p b) r"
    "in_book (settle p b) r \<longleftrightarrow> in_book b r"
proof -
  show "heap (settle p b) r = heap b r"
    using assms(2) by (simp add: settle_def erase_id_def addOrderToBook_def split: OrderSide.splits)
  show "indexed (settle p b) r" if "indexed b r"
    using assms index_inj[of b r p] that
    by (auto simp: settle_def erase_id_def addOrderToBook_def indexed_def split: OrderSide.splits)
  show "in_book (settle p b) r \<longleftrightarrow> in_book b r"
    using assms(2)
    by (auto simp: settle_def erase_id_def addOrderToBook_def in_book_def in_levels_push
        split: OrderSide.splits)
qed

lemma settle_frame [simp]:
  "stop_buy_orders (settle p b) = stop_buy_orders b" "stop_sell_orders (settle p b) = stop_sell_orders b"
  "symbol (settle p b) = symbol b" "pending_trades (settle p b) = pending_trades b"
  "pending_order_updates (settle p b) = pending_order_updates b"
  "order_callback (settle p b) = order_callback b" "trade_callback (settle p b) = trade_callback b"
  by (simp_all add: settle_def erase_id_def addOrderToBook_def split: OrderSide.splits)

subsection \<open>Triggering stop orders\<close>

text \<open>Orders in flight: registered, active, out of the book and no longer stop orders.\<close>

definition in_flight :: "book \<Rightarrow> OrderPtr \<Rightarrow> bool" where
  "in_flight b p \<longleftrightarrow> open_order b p \<and> \<not> isStopOrder (heap b p) \<and> \<not> in_book b p"

definition flight_inv :: "book \<Rightarrow> OrderPtr list \<Rightarrow> bool" where
  "flight_inv b ps \<longleftrightarrow> book_inv_upto (set ps) b \<and> distinct ps \<and> (\<forall>p \<in> set ps. in_flight b p)"

definition stops :: "OrderSide \<Rightarrow> book \<Rightarrow> levels" where
  "stops sd b = (case sd of BUY \<Rightarrow> stop_buy_orders b | SELL \<Rightarrow> stop_sell_orders b)"

definition set_stops :: "OrderSide \<Rightarrow> levels \<Rightarrow> book \<Rightarrow> book" where
  "set_stops sd m b = (case sd of BUY \<Rightarrow> b\<lparr>stop_buy_orders := m\<rparr> | SELL \<Rightarrow> b\<lparr>stop_sell_orders := m\<rparr>)"

lemma set_stops_simps [simp]:
  "heap (set_stops sd m b) = heap b" "orders_by_id (set_stops sd m b) = orders_by_id b"
  "bids (set_stops sd m b) = bids b" "asks (set_stops sd m b) = asks b"
  "pending_trades (set_stops sd m b) = pending_trades b"
  "pending_order_updates (set_stops sd m b) = pending_order_updates b"
  "symbol (set_stops sd m b) = symbol b"
  "order_callback (set_stops sd m b) = order_callback b"
  "trade_callback (set_stops sd m b) = trade_callback b"
  "stops sd (set_stops sd m b) = m"
  "stops (other_side sd) (set_stops sd m b) = stops (other_side sd) b"
  by (cases sd; simp add: set_stops_def stops_def)+

lemma trigger_orders_eq:
  "distinct ps \<Longrightarrow> trigger_orders ps b =
     b\<lparr>heap := (\<lambda>q. if q \<in> set ps then snd (trigger (heap b q)) else heap b q)\<rparr>"
  by (induction ps arbitrary: b) (auto simp: fun_eq_iff intro!: book.equality)

text \<open>Taking the stop level at \<open>k\<close> out of the book and triggering its orders.\<close>

definition pop_level :: "OrderSide \<Rightarrow> double \<Rightarrow> OrderPtr list \<Rightarrow> book \<Rightarrow> book" where
  "pop_level sd k ps b = set_stops sd (map_erase k (stops sd b)) (trigger_orders ps b)"

lemma book_inv_stops:
  "book_inv_upto X b \<longleftrightarrow>
     levels_ok (rests b BUY) (bids b) \<and> levels_ok (rests b SELL) (asks b) \<and>
     levels_ok (waits b sd) (stops sd b) \<and> levels_ok (waits b (other_side sd)) (stops (other_side sd) b) \<and>
     index_ok X b \<and> uncrossed b"
  by (cases sd) (auto simp: book_inv_upto_def stops_def)

lemma in_book_stops:
  "in_book b q \<longleftrightarrow> in_levels (bids b) q \<or> in_levels (asks b) q \<or>
     in_levels (stops sd b) q \<or> in_levels (stops (other_side sd) b) q"
  by (cases sd) (auto simp: in_book_def stops_def)

text \<open>The orders of the level, as the invariant describes them.\<close>

definition pop_pre :: "OrderPtr set \<Rightarrow> OrderSide \<Rightarrow> double \<Rightarrow> OrderPtr list \<Rightarrow> book \<Rightarrow> bool" where
  "pop_pre X sd k ps b \<longleftrightarrow> book_inv_upto X b \<and> map_find (stops sd b) k = Some ps"

lemma pop_preD:
  assumes "pop_pre X sd k ps b"
  shows "distinct ps" "q \<in> set ps \<Longrightarrow> waits b sd k q" "q \<in> set ps \<Longrightarrow> in_book b q"
  using assms book_inv_stops[of X b sd]
  by (auto simp: pop_pre_def in_book_stops[of b q sd] in_levels_def dest: levels_okD)

lemma pop_level_fields:
  assumes "pop_pre X sd k ps b"
  shows "heap (pop_level sd k ps b) = (\<lambda>q. if q \<in> set ps then snd (trigger (heap b q)) else heap b q)"
    "bids (pop_level sd k ps b) = bids b" "asks (pop_level sd k ps b) = asks b"
    "orders_by_id (pop_level sd k ps b) = orders_by_id b"
    "stops sd (pop_level sd k ps b) = map_erase k (stops sd b)"
    "stops (other_side sd) (pop_level sd k ps b) = stops (other_side sd) b"
    "pending_trades (pop_level sd k ps b) = pending_trades b"
    "pending_order_updates (pop_level sd k ps b) = pending_order_updates b"
    "symbol (pop_level sd k ps b) = symbol b"
    "order_callback (pop_level sd k ps b) = order_callback b"
    "trade_callback (pop_level sd k ps b) = trade_callback b"
  using pop_preD(1)[OF assms]
  by (cases sd; simp add: pop_level_def trigger_orders_eq stops_def set_stops_def)+

lemma pop_level_open:
  "pop_pre X sd k ps b \<Longrightarrow> open_order (pop_level sd k ps b) q = open_order b q"
  by (auto simp: open_order_def indexed_def pop_level_fields active_def wf_order_def)

lemma pop_level_in_book:
  assumes pre: "pop_pre X sd k ps b"
  shows "in_book (pop_level sd k ps b) q \<longleftrightarrow> in_book b q \<and> q \<notin> set ps"
proof -
  from pre have inv: "book_inv_upto X b" and find: "map_find (stops sd b) k = Some ps"
    by (simp_all add: pop_pre_def)
  note ok = inv[unfolded book_inv_stops[of _ b sd]] and wt = pop_preD(2)[OF pre, of q]
  have "q \<notin> set ps" if "in_levels (bids b) q \<or> in_levels (asks b) q \<or> in_levels (stops (other_side sd) b) q"
    using that ok wt by (cases sd) (auto dest!: levels_ok_in simp: rests_def waits_def isStopOrder_def)
  moreover have "k' = k" if "map_find (stops sd b) k' = Some rs" "q \<in> set rs" "q \<in> set ps" for k' rs
    using ok that wt by (auto dest!: levels_okD(3) simp: waits_def)
  then have "in_levels (map_erase k (stops sd b)) q \<longleftrightarrow> in_levels (stops sd b) q \<and> q \<notin> set ps"
    using find unfolding in_levels_def map_find_erase by (metis option.distinct(1) option.sel)
  ultimately show ?thesis by (auto simp: in_book_stops[of _ q sd] pop_level_fields[OF pre])
qed

lemma pop_level_inv:
  assumes pre: "pop_pre X sd k ps b"
  shows "book_inv_upto (X \<union> set ps) (pop_level sd k ps b)"
proof -
  let ?c = "pop_level sd k ps b"
  note ok = pre[unfolded pop_pre_def book_inv_stops[of _ b sd]] and fields = pop_level_fields[OF pre]
  have rw: "rests ?c sd' k' q \<longleftrightarrow> rests b sd' k' q" "waits ?c sd' k' q \<longleftrightarrow> waits b sd' k' q"
    if "q \<notin> set ps" for sd' k' q
    using that by (simp_all add: rests_def waits_def pop_level_open[OF pre] fields)
  have notin: "q \<notin> set ps" if "map_find m k' = Some rs" "q \<in> set rs"
    "m \<in> {bids ?c, asks ?c, stops sd ?c, stops (other_side sd) ?c}" for m k' rs q
    using that pop_level_in_book[OF pre, of q]
    unfolding in_book_stops[of ?c q sd] by (auto simp: in_levels_def)
  have "levels_ok (waits b sd) (map_erase k (stops sd b))"
    using ok by (auto simp: levels_ok_def map_inv_erase map_find_erase)
  then have "levels_ok (waits ?c sd) (stops sd ?c)"
    using notin by (auto elim!: levels_ok_mono simp: fields rw)
  moreover have "levels_ok (rests ?c BUY) (bids ?c)" "levels_ok (rests ?c SELL) (asks ?c)"
    "levels_ok (waits ?c (other_side sd)) (stops (other_side sd) ?c)"
    using ok notin by (auto elim!: levels_ok_mono simp: fields rw)
  moreover have "index_ok (X \<union> set ps) ?c"
    using ok by (auto simp: index_ok_def fields pop_level_in_book[OF pre])
  moreover have "uncrossed ?c" using ok by (auto simp: uncrossed_def fields)
  ultimately show ?thesis by (simp add: book_inv_stops[of _ ?c sd])
qed

lemma pop_level_flight:
  assumes fl: "flight_inv b tr" and find: "map_find (stops sd b) k = Some ps"
  shows "flight_inv (pop_level sd k ps b) (tr @ ps)"
proof -
  let ?c = "pop_level sd k ps b"
  from fl find have pre: "pop_pre (set tr) sd k ps b" by (simp add: flight_inv_def pop_pre_def)
  have "distinct (tr @ ps)"
    using fl pop_preD(1,3)[OF pre] by (auto simp: flight_inv_def in_flight_def)
  moreover have "in_flight ?c q" if "q \<in> set (tr @ ps)" for q
  proof (cases "q \<in> set ps")
    case True
    then have "open_order b q" using pop_preD(2)[OF pre] by (blast intro: waitsD)
    with True show ?thesis
      by (simp add: in_flight_def pop_level_open[OF pre] pop_level_in_book[OF pre]
          pop_level_fields[OF pre] trigger_not_stop)
  next
    case False
    with that fl show ?thesis
      by (auto simp: in_flight_def flight_inv_def pop_level_open[OF pre] pop_level_in_book[OF pre]
          pop_level_fields[OF pre])
  qed
  ultimately show ?thesis using pop_level_inv[OF pre] by (simp add: flight_inv_def)
qed

text \<open>
  The trigger loops as a sequence of steps, each of which takes one level out of the book whose
  stop price one of the trade prices has reached.
\<close>

fun triggers :: "OrderSide \<Rightarrow> double \<Rightarrow> double \<Rightarrow> bool" where
  "triggers BUY k price = (k \<le> price)"
| "triggers SELL k price = (price \<le> k)"

inductive pops :: "double list \<Rightarrow> book \<times> OrderPtr list \<Rightarrow> book \<times> OrderPtr list \<Rightarrow> bool"
  for prices :: "double list" where
  pops_refl: "pops prices bt bt"
| pops_step: "flight_inv b tr \<Longrightarrow> map_find (stops sd b) k = Some ps \<Longrightarrow> price \<in> set prices \<Longrightarrow>
    triggers sd k price \<Longrightarrow> pops prices (pop_level sd k ps b, tr @ ps) bt' \<Longrightarrow> pops prices (b, tr) bt'"

lemma pops_trans: "pops prices s t \<Longrightarrow> pops prices t u \<Longrightarrow> pops prices s u"
  by (induction rule: pops.induct) (auto intro: pops.intros)

lemma pops_mono: "pops prices s t \<Longrightarrow> set prices \<subseteq> set prices' \<Longrightarrow> pops prices' s t"
  by (induction rule: pops.induct) (auto intro: pops.intros)

lemma pops_flight: "pops prices s t \<Longrightarrow> flight_inv (fst s) (snd s) \<Longrightarrow> flight_inv (fst t) (snd t)"
  by (induction rule: pops.induct) (auto intro: pop_level_flight)

lemma pops_keeps:
  "pops prices s t \<Longrightarrow> map_find (stops sd (fst t)) k = Some ps \<Longrightarrow> map_find (stops sd (fst s)) k = Some ps"
proof (induction rule: pops.induct)
  case (pops_step b tr sd' k' ps' price bt')
  then have pre: "pop_pre (set tr) sd' k' ps' b" by (simp add: pop_pre_def flight_inv_def)
  from pops_step have "map_find (stops sd (pop_level sd' k' ps' b)) k = Some ps" by simp
  then show ?case
    using pop_level_fields(5,6)[OF pre]
    by (cases sd; cases sd') (auto simp: map_find_erase split: if_splits)
qed simp

lemma erase_head: "map_inv ((k, v) # m) \<Longrightarrow> map_erase k ((k, v) # m) = m"
  by (auto simp: map_erase_def map_inv_Cons filter_id_conv)

lemma erase_last: "map_inv m \<Longrightarrow> map_last m = Some (k, v) \<Longrightarrow> map_erase k m = butlast m"
  by (auto dest!: map_last_snoc simp: map_erase_def map_inv_snoc filter_id_conv)

lemma stops_inv: "flight_inv b tr \<Longrightarrow> map_inv (stops sd b)"
  using book_inv_stops[of "set tr" b sd] by (simp add: flight_inv_def levels_ok_def)

lemma trigger_buys_pops:
  "flight_inv b tr \<Longrightarrow> pops [price] (b, tr) (trigger_buys price (b, tr)) \<and>
   (\<forall>k ps. map_find (stops BUY (fst (trigger_buys price (b, tr)))) k = Some ps \<longrightarrow> price < k)"
proof (induction price "(b, tr)" arbitrary: b tr rule: trigger_buys.induct)
  case (1 price b tr)
  have minv: "map_inv (stop_buy_orders b)" using stops_inv[OF 1(2), of BUY] by (simp add: stops_def)
  show ?case
  proof (cases "stop_buy_orders b")
    case Nil
    then show ?thesis by (simp add: trigger_buys.simps[of price b tr] pops_refl stops_def)
  next
    case (Cons e rest)
    obtain k ps where e: "e = (k, ps)" by (cases e)
    show ?thesis
    proof (cases "k \<le> price")
      case True
      have find: "map_find (stops BUY b) k = Some ps" by (simp add: stops_def Cons e map_find_Cons)
      have pop: "(trigger_orders ps b)\<lparr>stop_buy_orders := rest\<rparr> = pop_level BUY k ps b"
        using minv by (simp add: pop_level_def set_stops_def stops_def Cons e erase_head)
      have "flight_inv (pop_level BUY k ps b) (tr @ ps)" using 1(2) find by (rule pop_level_flight)
      with 1(1)[OF Cons e[symmetric] True] pop
      have "pops [price] (pop_level BUY k ps b, tr @ ps) (trigger_buys price (b, tr)) \<and>
          (\<forall>k ps. map_find (stops BUY (fst (trigger_buys price (b, tr)))) k = Some ps \<longrightarrow> price < k)"
        using True by (simp add: trigger_buys.simps[of price b tr] Cons e)
      then show ?thesis using pops_step[OF 1(2) find, of price "[price]"] True by simp
    next
      case False
      then have "price < k'" if "map_find (stop_buy_orders b) k' = Some ps'" for k' ps'
        using that minv by (auto simp: Cons e map_inv_Cons map_find_Cons split: if_splits dest!: map_find_in)
      with False show ?thesis by (simp add: trigger_buys.simps[of price b tr] Cons e pops_refl stops_def)
    qed
  qed
qed

lemma trigger_sells_pops:
  "flight_inv b tr \<Longrightarrow> pops [price] (b, tr) (trigger_sells price (b, tr)) \<and>
   (\<forall>k ps. map_find (stops SELL (fst (trigger_sells price (b, tr)))) k = Some ps \<longrightarrow> k < price)"
proof (induction price "(b, tr)" arbitrary: b tr rule: trigger_sells.induct)
  case (1 price b tr)
  have minv: "map_inv (stop_sell_orders b)" using stops_inv[OF 1(2), of SELL] by (simp add: stops_def)
  show ?case
  proof (cases "map_last (stop_sell_orders b)")
    case None
    then have "stop_sell_orders b = []" by simp
    then show ?thesis by (simp add: trigger_sells.simps[of price b tr] pops_refl stops_def map_last_def)
  next
    case (Some e)
    obtain k ps where e: "e = (k, ps)" by (cases e)
    show ?thesis
    proof (cases "k < price")
      case False
      have find: "map_find (stops SELL b) k = Some ps"
        using minv Some e by (simp add: stops_def map_last_find)
      have pop: "(trigger_orders ps b)\<lparr>stop_sell_orders := butlast (stop_sell_orders b)\<rparr> =
          pop_level SELL k ps b"
        using minv Some e by (simp add: pop_level_def set_stops_def stops_def erase_last)
      have "flight_inv (pop_level SELL k ps b) (tr @ ps)" using 1(2) find by (rule pop_level_flight)
      with 1(1)[OF Some e[symmetric] False] pop
      have "pops [price] (pop_level SELL k ps b, tr @ ps) (trigger_sells price (b, tr)) \<and>
          (\<forall>k ps. map_find (stops SELL (fst (trigger_sells price (b, tr)))) k = Some ps \<longrightarrow> k < price)"
        using False by (simp add: trigger_sells.simps[of price b tr] Some e)
      then show ?thesis using pops_step[OF 1(2) find, of price "[price]"] False by simp
    next
      case True
      then have "k' < price" if "map_find (stop_sell_orders b) k' = Some ps'" for k' ps'
        using map_last_greatest[OF minv _ that] Some e by force
      with True show ?thesis by (simp add: trigger_sells.simps[of price b tr] Some e pops_refl stops_def)
    qed
  qed
qed

text \<open>
  After the loops no waiting stop order is reached by any of the trade prices, and only levels that
  one of the prices has reached were taken out.
\<close>

lemma trigger_stops_pops:
  "flight_inv b tr \<Longrightarrow> pops prices (b, tr) (trigger_stops prices (b, tr)) \<and>
   (\<forall>sd k ps. map_find (stops sd (fst (trigger_stops prices (b, tr)))) k = Some ps \<longrightarrow>
      (\<forall>price \<in> set prices. \<not> triggers sd k price))"
proof (induction prices arbitrary: b tr)
  case Nil
  then show ?case by (simp add: pops_refl)
next
  case (Cons price prices)
  obtain b1 tr1 where t1: "trigger_buys price (b, tr) = (b1, tr1)" by (cases "trigger_buys price (b, tr)")
  obtain b2 tr2 where t2: "trigger_sells price (b1, tr1) = (b2, tr2)" by (cases "trigger_sells price (b1, tr1)")
  from trigger_buys_pops[OF Cons.prems, of price] t1
  have p1: "pops [price] (b, tr) (b1, tr1)" and d1: "\<forall>k ps. map_find (stops BUY b1) k = Some ps \<longrightarrow> price < k"
    by simp_all
  from pops_flight[OF p1] Cons.prems have f1: "flight_inv b1 tr1" by simp
  from trigger_sells_pops[OF f1, of price] t2
  have p2: "pops [price] (b1, tr1) (b2, tr2)" and d2: "\<forall>k ps. map_find (stops SELL b2) k = Some ps \<longrightarrow> k < price"
    by simp_all
  from pops_flight[OF p2] f1 have f2: "flight_inv b2 tr2" by simp
  let ?r = "trigger_stops prices (b2, tr2)"
  note IH = Cons.IH[OF f2]
  have run: "trigger_stops (price # prices) (b, tr) = ?r" by (simp add: t1 t2)
  have "pops (price # prices) (b, tr) (b1, tr1)" "pops (price # prices) (b1, tr1) (b2, tr2)"
    "pops (price # prices) (b2, tr2) ?r"
    using p1 p2 IH by (auto elim: pops_mono)
  then have "pops (price # prices) (b, tr) ?r" by (blast intro: pops_trans)
  moreover have "\<not> triggers sd k price" if "map_find (stops sd (fst ?r)) k = Some ps" for sd k ps
    using pops_keeps[OF conjunct1[OF IH] that] pops_keeps[OF p2, of sd k ps] d1 d2
    by (cases sd) fastforce+
  ultimately show ?case using IH unfolding run by auto
qed

lemma pops_count:
  assumes "pops prices s t"
  shows "length (stops BUY (fst t)) + length (stops SELL (fst t)) + (if snd t = snd s then 0 else 1)
    \<le> length (stops BUY (fst s)) + length (stops SELL (fst s)) \<and> length (snd s) \<le> length (snd t)"
  using assms
proof (induction rule: pops.induct)
  case (pops_step b tr sd k ps price bt')
  then have pre: "pop_pre (set tr) sd k ps b" by (simp add: pop_pre_def flight_inv_def)
  have "length (map_erase k (stops sd b)) < length (stops sd b)" using pops_step(2) by (rule length_erase)
  then have "length (stops BUY (pop_level sd k ps b)) + length (stops SELL (pop_level sd k ps b))
      < length (stops BUY b) + length (stops SELL b)"
    using pop_level_fields(5,6)[OF pre] by (cases sd) simp_all
  with pops_step show ?case by auto
qed simp

lemma pops_frame:
  assumes "pops prices s t"
  shows "pending_trades (fst t) = pending_trades (fst s) \<and> bids (fst t) = bids (fst s) \<and>
    asks (fst t) = asks (fst s) \<and> orders_by_id (fst t) = orders_by_id (fst s) \<and>
    pending_order_updates (fst t) = pending_order_updates (fst s) \<and> symbol (fst t) = symbol (fst s) \<and>
    order_callback (fst t) = order_callback (fst s) \<and> trade_callback (fst t) = trade_callback (fst s) \<and>
    (\<forall>r. o_remaining (heap (fst t) r) = o_remaining (heap (fst s) r) \<and>
         o_id (heap (fst t) r) = o_id (heap (fst s) r) \<and> o_side (heap (fst t) r) = o_side (heap (fst s) r) \<and>
         o_price (heap (fst t) r) = o_price (heap (fst s) r))"
  using assms
proof (induction rule: pops.induct)
  case (pops_step b tr sd k ps price bt')
  then have pre: "pop_pre (set tr) sd k ps b" by (simp add: pop_pre_def flight_inv_def)
  from pops_step.IH show ?case by (simp add: pop_level_fields[OF pre])
qed simp

lemma pops_mono_triggered: "pops prices s t \<Longrightarrow> \<exists>ps. snd t = snd s @ ps"
  by (induction rule: pops.induct) auto

subsection \<open>Processing triggered orders\<close>

lemma flight_match_pre:
  "flight_inv b ps \<Longrightarrow> p \<in> set ps \<Longrightarrow> match_pre (set ps) p b"
  by (auto simp: flight_inv_def in_flight_def match_pre_def open_order_def live_def)

text \<open>Matching and settling the first order in flight leaves the others in flight.\<close>

lemma flight_next:
  assumes fl: "flight_inv b (p # ps)" and m: "matchOrder now p b = Some b1"
  shows "flight_inv (settle p b1) ps"
proof -
  have pre: "match_pre (set (p # ps)) p b" using fl by (intro flight_match_pre) simp_all
  then have post: "match_pre (set (p # ps)) p b1" "match_stops p b1"
    using matchOrder_pre[OF m] by auto
  have "\<not> isStopOrder (heap b1 p)"
    using fl same_termsD(3)[OF matchOrder_terms[OF m pre]]
    by (simp add: flight_inv_def in_flight_def isStopOrder_def)
  then have "book_inv_upto (set (p # ps) - {p}) (settle p b1)" using post by (intro settle_inv)
  moreover have "set (p # ps) - {p} = set ps" using fl by (auto simp: flight_inv_def)
  moreover have "in_flight (settle p b1) q" if "q \<in> set ps" for q
  proof -
    from fl that have "q \<noteq> p" "in_flight b q" by (auto simp: flight_inv_def)
    then show ?thesis
      using matchOrder_bystander[OF m pre] settle_bystander[of b1 p q] post(1)
      by (simp add: in_flight_def open_order_def match_pre_def)
  qed
  ultimately show ?thesis using fl by (simp add: flight_inv_def)
qed

lemma process_triggered_induct [consumes 1, case_names Nil Cons]:
  assumes "flight_inv b ps"
    and "\<And>b. flight_inv b [] \<Longrightarrow> P [] b b"
    and "\<And>p ps b b1 b'. flight_inv b (p # ps) \<Longrightarrow> matchOrder now p b = Some b1 \<Longrightarrow>
           match_pre (set (p # ps)) p b \<Longrightarrow> flight_inv (settle p b1) ps \<Longrightarrow>
           P ps (settle p b1) b' \<Longrightarrow> P (p # ps) b b'"
  shows "\<exists>b'. process_triggered now ps b = Some b' \<and> P ps b b'"
  using assms(1)
proof (induction ps arbitrary: b)
  case Nil
  with assms(2) show ?case by simp
next
  case (Cons p ps)
  have pre: "match_pre (set (p # ps)) p b" using Cons.prems by (intro flight_match_pre) simp_all
  then obtain b1 where m: "matchOrder now p b = Some b1" using matchOrder_returns by blast
  have fl: "flight_inv (settle p b1) ps" using Cons.prems m by (rule flight_next)
  with Cons.IH obtain b' where "process_triggered now ps (settle p b1) = Some b'" "P ps (settle p b1) b'"
    by blast
  with m assms(3)[OF Cons.prems m pre fl] show ?case by auto
qed

lemma process_triggered_rel [consumes 2, case_names Nil Cons]:
  assumes "process_triggered now ps b = Some b'" and "flight_inv b ps"
    and "\<And>b. flight_inv b [] \<Longrightarrow> P [] b b"
    and "\<And>p ps b b1 b'. flight_inv b (p # ps) \<Longrightarrow> matchOrder now p b = Some b1 \<Longrightarrow>
           match_pre (set (p # ps)) p b \<Longrightarrow> flight_inv (settle p b1) ps \<Longrightarrow>
           P ps (settle p b1) b' \<Longrightarrow> P (p # ps) b b'"
  shows "P ps b b'"
  using process_triggered_induct[of b ps P now, OF assms(2-4)] assms(1) by force

lemma process_triggered_inv:
  "process_triggered now ps b = Some b' \<Longrightarrow> flight_inv b ps \<Longrightarrow> book_inv b' \<and>
   stop_buy_orders b' = stop_buy_orders b \<and> stop_sell_orders b' = stop_sell_orders b"
proof (induction rule: process_triggered_rel)
  case (Nil b)
  then show ?case by (simp add: flight_inv_def)
next
  case (Cons p ps b b1 b')
  then show ?case using matchOrder_frame[OF Cons(2,3)] by simp
qed

text \<open>
  The cascade: a round that triggered something took at least one stop level out of the book, so
  the recursion ends. The rule has one case per way a call can go.
\<close>

definition stop_rounds :: "book \<Rightarrow> nat" where
  "stop_rounds b = length (stops BUY b) + length (stops SELL b)"

lemma processStopOrders_induct [consumes 1, case_names Quiet Once Cascade]:
  assumes "book_inv b"
    and "\<And>prices b b1. book_inv b \<Longrightarrow> pops prices (b, []) (b1, []) \<Longrightarrow>
           trigger_stops prices (b, []) = (b1, []) \<Longrightarrow> book_inv b1 \<Longrightarrow> P prices b b1"
    and "\<And>prices b b1 ps b2. book_inv b \<Longrightarrow> pops prices (b, []) (b1, ps) \<Longrightarrow>
           trigger_stops prices (b, []) = (b1, ps) \<Longrightarrow> ps \<noteq> [] \<Longrightarrow> flight_inv b1 ps \<Longrightarrow>
           process_triggered now ps b1 = Some b2 \<Longrightarrow> book_inv b2 \<Longrightarrow>
           length (pending_trades b2) \<le> length (pending_trades b1) \<Longrightarrow> P prices b b2"
    and "\<And>prices b b1 ps b2 b'. book_inv b \<Longrightarrow> pops prices (b, []) (b1, ps) \<Longrightarrow>
           trigger_stops prices (b, []) = (b1, ps) \<Longrightarrow> ps \<noteq> [] \<Longrightarrow> flight_inv b1 ps \<Longrightarrow>
           process_triggered now ps b1 = Some b2 \<Longrightarrow> book_inv b2 \<Longrightarrow>
           length (pending_trades b2) > length (pending_trades b1) \<Longrightarrow>
           P (price_set (drop (length (pending_trades b1)) (pending_trades b2))) b2 b' \<Longrightarrow> P prices b b'"
  shows "\<exists>b'. processStopOrders now prices b = Some b' \<and> P prices b b'"
  using assms(1)
proof (induction "stop_rounds b" arbitrary: b prices rule: less_induct)
  case less
  have fl: "flight_inv b []" using less.prems by (simp add: flight_inv_def)
  obtain b1 ps where tr: "trigger_stops prices (b, []) = (b1, ps)" by (cases "trigger_stops prices (b, [])")
  with trigger_stops_pops[OF fl, of prices] have pops: "pops prices (b, []) (b1, ps)" by simp
  from pops_flight[OF pops] fl have fl1: "flight_inv b1 ps" by simp
  show ?case
  proof (cases "ps = []")
    case True
    with fl1 have "book_inv b1" by (simp add: flight_inv_def)
    with True assms(2)[OF less.prems] pops tr show ?thesis
      by (subst processStopOrders.simps) simp
  next
    case False
    obtain b2 where p: "process_triggered now ps b1 = Some b2"
      using process_triggered_induct[OF fl1, of "\<lambda>_ _ _. True" now] by blast
    note inv2 = process_triggered_inv[OF p fl1]
    have "stop_rounds b2 < stop_rounds b"
      using inv2 pops_count[OF pops] False by (simp add: stop_rounds_def stops_def)
    note IH = less.hyps[OF this conjunct1[OF inv2]]
    have run: "processStopOrders now prices b =
        (if length (pending_trades b2) > length (pending_trades b1)
         then processStopOrders now (price_set (drop (length (pending_trades b1)) (pending_trades b2))) b2
         else Some b2)"
      using False by (subst processStopOrders.simps) (simp add: tr p)
    show ?thesis
    proof (cases "length (pending_trades b2) > length (pending_trades b1)")
      case True
      with IH assms(4)[OF less.prems pops tr False fl1 p conjunct1[OF inv2] True] show ?thesis
        unfolding run by (metis (full_types))
    next
      case le: False
      with assms(3)[OF less.prems pops tr False fl1 p conjunct1[OF inv2]] show ?thesis
        unfolding run by simp
    qed
  qed
qed

end
