(* ===== verification/Engine.thy ===== *)
theory Engine
  imports Book_Ops
begin

text \<open>
  Whole calls of \<^verbatim>\<open>addOrder\<close>. The locales \<open>matching_relation\<close> and \<open>engine_relation\<close> are the interface
  between the engine and every property that compares the book before and after a call: a
  reflexive and transitive relation that each elementary step respects (a round of matching,
  settling an order, taking out a stop level, and for \<open>engine_relation\<close> parking a stop order) is
  respected by \<^verbatim>\<open>processStopOrders\<close>, and by the whole call.
\<close>

subsection \<open>Relations that every step of the engine respects\<close>

locale matching_relation =
  fixes R :: "book \<Rightarrow> book \<Rightarrow> bool"
  assumes R_refl: "R b b"
    and R_trans: "R a b \<Longrightarrow> R b c \<Longrightarrow> R a c"
    and R_round: "round_pre X p k qs b \<Longrightarrow> rem_qty b p \<noteq> 0 \<Longrightarrow> \<not> no_match (heap b p) k \<Longrightarrow>
      R b (match_round now p k qs b)"
    and R_settle: "match_pre X p b \<Longrightarrow> R b (settle p b)"
    and R_pop: "pop_pre X sd k ps b \<Longrightarrow> R b (pop_level sd k ps b)"
begin

lemma R_match:
  assumes "matchOrder now p b = Some b'" and "match_pre X p b"
  shows "R b b'"
  using assms
proof (induction rule: matchOrder_rel)
  case (Stop b)
  show ?case by (rule R_refl)
next
  case (Round b k qs b')
  then show ?case using R_trans[OF R_round] by blast
qed

lemma R_match_settle:
  assumes "matchOrder now p b = Some b1" and "match_pre X p b"
  shows "R b (settle p b1)"
proof -
  have "match_pre X p b1" using matchOrder_pre[OF assms] by simp
  then show ?thesis using R_match[OF assms] R_settle R_trans by blast
qed

lemma R_triggered:
  assumes "process_triggered now ps b = Some b'" and "flight_inv b ps"
  shows "R b b'"
  using assms
proof (induction rule: process_triggered_rel)
  case (Nil b)
  show ?case by (rule R_refl)
next
  case (Cons p ps b b1 b')
  then show ?case using R_trans[OF R_match_settle] by blast
qed

lemma R_pops: "pops prices s t \<Longrightarrow> R (fst s) (fst t)"
proof (induction rule: pops.induct)
  case (pops_refl bt)
  show ?case by (rule R_refl)
next
  case (pops_step b tr sd k ps price bt')
  then have "pop_pre (set tr) sd k ps b" by (simp add: pop_pre_def flight_inv_def)
  then show ?case using R_trans[OF R_pop] pops_step by simp
qed

lemma R_stops_exists:
  assumes "book_inv b"
  shows "\<exists>b'. processStopOrders now prices b = Some b' \<and> R b b'"
  using assms
proof (induction rule: processStopOrders_induct)
  case (Quiet prices b b1)
  then show ?case using R_pops[of prices "(b, [])" "(b1, [])"] by simp
next
  case (Once prices b b1 ps b2)
  then show ?case using R_pops[of prices "(b, [])" "(b1, ps)"] R_trans[OF _ R_triggered[OF Once(6,5)]] by simp
next
  case (Cascade prices b b1 ps b2 b')
  have "R b b2"
    using R_pops[OF Cascade(2)] R_trans[OF _ R_triggered[OF Cascade(6,5)]] by simp
  then show ?case using Cascade(9) R_trans by blast
qed

lemma R_stops: "processStopOrders now prices b = Some b' \<Longrightarrow> book_inv b \<Longrightarrow> R b b'"
  using R_stops_exists[of b now prices] by force

end

subsection \<open>The invariant across stop processing\<close>

lemma processStopOrders_inv:
  assumes "book_inv b"
  shows "\<exists>b'. processStopOrders now prices b = Some b' \<and> book_inv b'"
  using assms by (induction rule: processStopOrders_induct) simp_all

subsection \<open>A new order\<close>

text \<open>The order \<open>p\<close> has just been entered in the index and is about to be processed.\<close>

definition entered :: "OrderPtr \<Rightarrow> book \<Rightarrow> bool" where
  "entered p b \<longleftrightarrow> book_inv_upto {p} b \<and> open_order b p \<and> \<not> in_book b p"

lemma entered_match_pre: "entered p b \<Longrightarrow> match_pre {p} p b"
  by (simp add: entered_def match_pre_def open_order_def live_def)

lemma addStopOrder_stops:
  "addStopOrder p b = set_stops (o_side (heap b p))
     (push_level (o_stop_price (heap b p)) p (stops (o_side (heap b p)) b)) b"
  by (simp add: addStopOrder_def set_stops_def stops_def split: OrderSide.splits)

lemma park_inv:
  assumes "entered p b" and "isStopOrder (heap b p)"
  shows "book_inv (addStopOrder p b)"
proof -
  let ?sd = "o_side (heap b p)" and ?c = "addStopOrder p b"
  from assms have inv: "book_inv_upto {p} b" and out: "\<not> in_book b p" and opn: "open_order b p"
    by (simp_all add: entered_def)
  note ok = inv[unfolded book_inv_stops[of _ b ?sd]]
  have preds: "rests ?c = rests b" "waits ?c = waits b"
    by (simp_all add: rests_def waits_def open_order_def indexed_def fun_eq_iff addStopOrder_stops)
  have "levels_ok (waits b ?sd) (push_level (o_stop_price (heap b p)) p (stops ?sd b))"
    using ok out opn assms(2) by (intro levels_ok_push) (auto simp: waits_def in_book_stops[of b p ?sd])
  moreover have "index_ok {} ?c"
    using ok unfolding index_ok_def in_book_stops[of _ _ ?sd]
    by (auto simp: addStopOrder_stops in_levels_push)
  ultimately show ?thesis
    using ok unfolding book_inv_stops[of _ ?c ?sd] preds
    by (auto simp: addStopOrder_stops uncrossed_def)
qed

lemma settled_inv:
  assumes "entered p b" and "\<not> isStopOrder (heap b p)" and "matchOrder now p b = Some b1"
  shows "book_inv (settle p b1)"
proof -
  note pre = entered_match_pre[OF assms(1)]
  have "\<not> isStopOrder (heap b1 p)"
    using assms(2) same_termsD(3)[OF matchOrder_terms[OF assms(3) pre, of p]] by (simp add: isStopOrder_def)
  then show ?thesis using settle_inv matchOrder_pre[OF assms(3) pre] by fastforce
qed

text \<open>The three ways a new order can go.\<close>

lemma process_new_cases:
  assumes "entered p b"
  obtains (Park) "isStopOrder (heap b p)" "process_new now p b = Some (addStopOrder p b)"
      "book_inv (addStopOrder p b)"
  | (Quiet) b1 where "\<not> isStopOrder (heap b p)" "matchOrder now p b = Some b1"
      "pending_trades b1 = []" "process_new now p b = Some (settle p b1)" "book_inv (settle p b1)"
  | (Trades) b1 b' where "\<not> isStopOrder (heap b p)" "matchOrder now p b = Some b1"
      "pending_trades b1 \<noteq> []" "book_inv (settle p b1)"
      "processStopOrders now (price_set (pending_trades b1)) (settle p b1) = Some b'"
      "process_new now p b = Some b'" "book_inv b'"
proof (cases "isStopOrder (heap b p)")
  case True
  with Park park_inv[OF assms True] show ?thesis by (simp add: process_new_def)
next
  case False
  obtain b1 where m: "matchOrder now p b = Some b1"
    using matchOrder_returns[OF entered_match_pre[OF assms]] by blast
  note inv = settled_inv[OF assms False m]
  then obtain b' where s: "processStopOrders now (price_set (pending_trades b1)) (settle p b1) = Some b'"
    "book_inv b'"
    using processStopOrders_inv by blast
  show ?thesis
  proof (cases "pending_trades b1 = []")
    case True
    with Quiet[OF False m] inv m False show ?thesis by (simp add: process_new_def)
  next
    case t: False
    with Trades[OF False m t inv s(1) _ s(2)] m False s show ?thesis by (simp add: process_new_def)
  qed
qed

lemma process_new_inv: "entered p b \<Longrightarrow> \<exists>b'. process_new now p b = Some b' \<and> book_inv b'"
  by (erule process_new_cases[where now = now]) auto

locale engine_relation = matching_relation +
  assumes R_park: "open_order b p \<Longrightarrow> R b (addStopOrder p b)"
begin

lemma R_new:
  assumes "process_new now p b = Some b'" and "entered p b"
  shows "R b b'"
proof (cases rule: process_new_cases[OF assms(2), of now])
  case 1
  then show ?thesis using assms R_park by (simp add: entered_def)
next
  case (2 b1)
  then show ?thesis using assms R_match_settle[OF 2(2) entered_match_pre] by simp
next
  case (3 b1 b2)
  then show ?thesis
    using assms R_trans[OF R_match_settle[OF 3(2) entered_match_pre] R_stops[OF 3(5,4)]] by simp
qed

end

text \<open>Entering an order whose id is not known.\<close>

definition enter :: "OrderPtr \<Rightarrow> book \<Rightarrow> book" where
  "enter p b = b\<lparr>pending_trades := [], pending_order_updates := [],
     orders_by_id := (orders_by_id b)(o_id (heap b p) \<mapsto> p)\<rparr>"

definition acceptable :: "OrderPtr \<Rightarrow> book \<Rightarrow> bool" where
  "acceptable p b \<longleftrightarrow> rem_qty b p \<noteq> 0 \<and> orders_by_id b (o_id (heap b p)) = None"

lemma addOrder_accept:
  "acceptable p b \<Longrightarrow> addOrder now (Some p) b =
     (case process_new now p (enter p b) of None \<Rightarrow> None | Some b1 \<Rightarrow> Some (True, callbacks p b1, b1))"
  by (simp add: addOrder_def acceptable_def enter_def)

lemma not_in_book_unknown:
  "book_inv b \<Longrightarrow> orders_by_id b (o_id (heap b p)) = None \<Longrightarrow> \<not> in_book b p"
  by (auto dest: in_book_open simp: open_order_def indexed_def)

lemma enter_entered:
  assumes inv: "book_inv b" and ok: "acceptable p b" and ord: "active (heap b p)" "wf_order (heap b p)"
  shows "entered p (enter p b)"
proof -
  have out: "\<not> in_book b p" using inv ok by (simp add: acceptable_def not_in_book_unknown)
  have "book_inv_upto {p} (enter p b)"
  proof (rule book_inv_same_levels[OF inv])
    fix q assume "in_book b q"
    then have "indexed b q" using in_book_open[OF inv] by (blast dest: open_orderD)
    then show "heap (enter p b) q = heap b q \<and> indexed (enter p b) q"
      using ok by (auto simp: enter_def indexed_def acceptable_def)
  next
    show "index_ok {p} (enter p b)"
      using book_invD(5)[OF inv] by (auto simp: index_ok_def enter_def in_book_def)
  qed (simp_all add: enter_def)
  moreover have "in_book (enter p b) p = in_book b p" by (rule in_book_cong) (simp_all add: enter_def)
  ultimately show ?thesis
    using ok ord out by (simp add: entered_def open_order_def indexed_def enter_def acceptable_def)
qed

lemma addOrder_reject:
  assumes "\<not> acceptable p b"
  shows "\<exists>b'. addOrder now (Some p) b = Some (False, [], b') \<and>
    (\<exists>ts us. b' = b\<lparr>pending_trades := ts, pending_order_updates := us\<rparr>)"
proof (cases "rem_qty b p = 0")
  case True
  then show ?thesis
    by (intro exI[of _ b] conjI exI[of _ "pending_trades b"] exI[of _ "pending_order_updates b"])
      (simp_all add: addOrder_def)
next
  case False
  with assms show ?thesis by (auto simp: addOrder_def acceptable_def)
qed

lemma book_inv_pending:
  assumes "book_inv_upto X b"
  shows "book_inv_upto X (b\<lparr>pending_trades := ts, pending_order_updates := us\<rparr>)"
proof (rule book_inv_same_levels[OF assms])
  fix q assume "in_book b q"
  then show "heap (b\<lparr>pending_trades := ts, pending_order_updates := us\<rparr>) q = heap b q \<and>
      indexed (b\<lparr>pending_trades := ts, pending_order_updates := us\<rparr>) q"
    using in_book_open[OF assms] by (auto simp: open_order_def indexed_def)
next
  show "index_ok X (b\<lparr>pending_trades := ts, pending_order_updates := us\<rparr>)"
    using book_invD(5)[OF assms] by (simp add: index_ok_def in_book_def)
qed simp_all

lemma addOrder_run:
  assumes "book_inv b" and "active (heap b p)" and "wf_order (heap b p)"
  obtains (Reject) b' where "\<not> acceptable p b" "addOrder now (Some p) b = Some (False, [], b')"
      "book_inv b'" "heap b' = heap b"
  | (Accept) b' where "acceptable p b" "entered p (enter p b)" "process_new now p (enter p b) = Some b'"
      "addOrder now (Some p) b = Some (True, callbacks p b', b')" "book_inv b'"
proof (cases "acceptable p b")
  case True
  note ent = enter_entered[OF assms(1) True assms(2,3)]
  obtain b' where "process_new now p (enter p b) = Some b'" "book_inv b'"
    using process_new_inv[OF ent] by blast
  with Accept[OF True ent] addOrder_accept[OF True] show ?thesis by simp
next
  case False
  from addOrder_reject[OF False, of now] obtain ts us where
    "addOrder now (Some p) b = Some (False, [], b\<lparr>pending_trades := ts, pending_order_updates := us\<rparr>)"
    by blast
  with Reject[OF False] book_inv_pending[OF assms(1)] show ?thesis by simp
qed

end
