(* ===== verification/Book_Api.thy ===== *)
theory Book_Api
  imports Engine
begin

text \<open>
  \<^verbatim>\<open>cancelOrder\<close>, and the states a book can reach through its public operations. A book is created
  empty; a client writes an order object at a fresh address and submits it, cancels by id, or changes the tick
  size and the callbacks.
\<close>

subsection \<open>Cancelling\<close>

lemma remove_absent: "\<not> in_levels m p \<Longrightarrow> remove_from_level k p m = m"
  by (auto simp: remove_from_level_def in_levels_def split: option.splits)

lemma find_remove:
  assumes "levels_ok P m"
  shows "map_find (remove_from_level k p m) k' =
    (case map_find m k' of None \<Rightarrow> None
     | Some ps \<Rightarrow> if k' = k then if remove1 p ps = [] then None else Some (remove1 p ps) else Some ps)"
proof (cases "map_find m k")
  case None
  then show ?thesis by (auto simp: remove_from_level_def split: option.splits)
next
  case (Some ps)
  with assms have "ps \<noteq> []" by (rule levels_okD)
  with Some show ?thesis
    by (auto simp: remove_from_level_def find_store_level remove1_idem split: option.splits)
qed

text \<open>\<open>p\<close> can only stand in the level at \<open>k\<close>; afterwards it stands in none.\<close>

lemma levels_ok_remove:
  assumes ok: "levels_ok P m" and home: "\<And>k'. P k' p \<Longrightarrow> k' = k"
  shows "levels_ok (\<lambda>k' q. P k' q \<and> q \<noteq> p) (remove_from_level k p m)"
  unfolding levels_ok_def
proof (intro conjI allI impI)
  show "map_inv (remove_from_level k p m)"
    using ok by (auto simp: levels_ok_def remove_from_level_def intro: map_inv_store_level split: option.splits)
  fix k' qs
  assume "map_find (remove_from_level k p m) k' = Some qs"
  then obtain ps where ps: "map_find m k' = Some ps" "qs = (if k' = k then remove1 p ps else ps)" "qs \<noteq> []"
    using levels_okD(1)[OF ok, of k'] unfolding find_remove[OF ok]
    by (simp split: option.splits if_splits)
  note d = levels_okD[OF ok ps(1)]
  show "qs \<noteq> []" by (rule ps(3))
  show "distinct qs" using ps(2) d(2) by (simp add: distinct_remove1)
  show "\<forall>q\<in>set qs. P k' q \<and> q \<noteq> p"
    using ps(2) d(2,3) home by (auto simp: set_remove1_eq)
qed

lemma in_levels_remove:
  assumes ok: "levels_ok P m" and home: "\<And>k'. P k' p \<Longrightarrow> k' = k"
  shows "in_levels (remove_from_level k p m) q \<longleftrightarrow> in_levels m q \<and> q \<noteq> p"
proof
  assume in': "in_levels (remove_from_level k p m) q"
  then obtain k' rs where rs: "map_find m k' = Some rs" "q \<in> set (if k' = k then remove1 p rs else rs)"
    by (auto simp: in_levels_def find_remove[OF ok] split: option.splits if_splits)
  then have "in_levels m q"
    using set_remove1_subset[of p rs] by (auto simp: in_levels_def split: if_splits)
  moreover from levels_ok_in[OF levels_ok_remove[OF ok home] in'] have "q \<noteq> p" by blast
  ultimately show "in_levels m q \<and> q \<noteq> p" ..
next
  assume q: "in_levels m q \<and> q \<noteq> p"
  then obtain k' rs where rs: "map_find m k' = Some rs" "q \<in> set rs" by (auto simp: in_levels_def)
  with q have "q \<in> set (if k' = k then remove1 p rs else rs)" by (simp add: in_set_remove1)
  with rs show "in_levels (remove_from_level k p m) q"
    unfolding in_levels_def by (intro exI[of _ k'] exI[of _ "if k' = k then remove1 p rs else rs"])
      (auto simp: find_remove[OF ok])
qed

text \<open>Taking an order out of all four maps at once; three of the removals change nothing.\<close>

definition withdraw :: "OrderPtr \<Rightarrow> book \<Rightarrow> book" where
  "withdraw p b =
     b\<lparr>heap := (heap b)(p := snd (cancel (heap b p))),
       orders_by_id := (orders_by_id b)(o_id (heap b p) := None),
       bids := remove_from_level (o_price (heap b p)) p (bids b),
       asks := remove_from_level (o_price (heap b p)) p (asks b),
       stop_buy_orders := remove_from_level (o_stop_price (heap b p)) p (stop_buy_orders b),
       stop_sell_orders := remove_from_level (o_stop_price (heap b p)) p (stop_sell_orders b)\<rparr>"

lemma withdraw_in_book:
  assumes "book_inv_upto X b"
  shows "in_book (withdraw p b) q \<longleftrightarrow> in_book b q \<and> q \<noteq> p"
proof -
  note ok = book_invD(1-4)[OF assms]
  have "in_levels (bids (withdraw p b)) q \<longleftrightarrow> in_levels (bids b) q \<and> q \<noteq> p"
    "in_levels (asks (withdraw p b)) q \<longleftrightarrow> in_levels (asks b) q \<and> q \<noteq> p"
    "in_levels (stop_buy_orders (withdraw p b)) q \<longleftrightarrow> in_levels (stop_buy_orders b) q \<and> q \<noteq> p"
    "in_levels (stop_sell_orders (withdraw p b)) q \<longleftrightarrow> in_levels (stop_sell_orders b) q \<and> q \<noteq> p"
    using in_levels_remove[OF ok(1), of p "o_price (heap b p)" q]
      in_levels_remove[OF ok(2), of p "o_price (heap b p)" q]
      in_levels_remove[OF ok(3), of p "o_stop_price (heap b p)" q]
      in_levels_remove[OF ok(4), of p "o_stop_price (heap b p)" q]
    by (simp_all add: withdraw_def rests_def waits_def)
  then show ?thesis unfolding in_book_def by blast
qed

lemma withdraw_open:
  assumes "indexed b p" and "q \<noteq> p" and "open_order b q"
  shows "open_order (withdraw p b) q"
proof -
  have "o_id (heap b q) \<noteq> o_id (heap b p)"
    using assms index_inj[of b q p] by (auto simp: open_order_def indexed_def)
  with assms show ?thesis by (simp add: open_order_def indexed_def withdraw_def)
qed

lemma withdraw_levels:
  assumes inv: "book_inv_upto X b" and idx: "indexed b p"
  shows "levels_ok (rests (withdraw p b) BUY) (bids (withdraw p b))"
    "levels_ok (rests (withdraw p b) SELL) (asks (withdraw p b))"
    "levels_ok (waits (withdraw p b) BUY) (stop_buy_orders (withdraw p b))"
    "levels_ok (waits (withdraw p b) SELL) (stop_sell_orders (withdraw p b))"
proof -
  note ok = book_invD(1-4)[OF inv]
  have heap: "heap (withdraw p b) q = heap b q" if "q \<noteq> p" for q using that by (simp add: withdraw_def)
  have r: "rests (withdraw p b) sd k q" if "rests b sd k q \<and> q \<noteq> p" for sd k q
    using that withdraw_open[OF idx, of q] by (simp add: rests_def heap)
  have w: "waits (withdraw p b) sd k q" if "waits b sd k q \<and> q \<noteq> p" for sd k q
    using that withdraw_open[OF idx, of q] by (simp add: waits_def heap)
  have maps: "bids (withdraw p b) = remove_from_level (o_price (heap b p)) p (bids b)"
    "asks (withdraw p b) = remove_from_level (o_price (heap b p)) p (asks b)"
    "stop_buy_orders (withdraw p b) = remove_from_level (o_stop_price (heap b p)) p (stop_buy_orders b)"
    "stop_sell_orders (withdraw p b) = remove_from_level (o_stop_price (heap b p)) p (stop_sell_orders b)"
    by (simp_all add: withdraw_def)
  have h: "rests b sd k p \<Longrightarrow> k = o_price (heap b p)" "waits b sd k p \<Longrightarrow> k = o_stop_price (heap b p)" for sd k
    by (simp_all add: rests_def waits_def)
  show "levels_ok (rests (withdraw p b) BUY) (bids (withdraw p b))"
    unfolding maps by (rule levels_ok_mono[OF levels_ok_remove[OF ok(1) h(1)]]) (simp_all add: r)
  show "levels_ok (rests (withdraw p b) SELL) (asks (withdraw p b))"
    unfolding maps by (rule levels_ok_mono[OF levels_ok_remove[OF ok(2) h(1)]]) (simp_all add: r)
  show "levels_ok (waits (withdraw p b) BUY) (stop_buy_orders (withdraw p b))"
    unfolding maps by (rule levels_ok_mono[OF levels_ok_remove[OF ok(3) h(2)]]) (simp_all add: w)
  show "levels_ok (waits (withdraw p b) SELL) (stop_sell_orders (withdraw p b))"
    unfolding maps by (rule levels_ok_mono[OF levels_ok_remove[OF ok(4) h(2)]]) (simp_all add: w)
qed

lemma withdraw_inv:
  assumes inv: "book_inv_upto X b" and idx: "indexed b p"
  shows "book_inv_upto X (withdraw p b)"
proof -
  let ?c = "withdraw p b"
  have "uncrossed ?c"
    using book_invD(6)[OF inv]
    by (auto simp: uncrossed_def withdraw_def find_remove[OF book_invD(1)[OF inv]]
        find_remove[OF book_invD(2)[OF inv]] split: option.splits if_splits)
  moreover have "index_ok X ?c"
    unfolding index_ok_def
  proof (intro allI impI)
    fix i q assume "orders_by_id ?c i = Some q"
    then have i: "orders_by_id b i = Some q" "i \<noteq> o_id (heap b p)"
      by (simp_all add: withdraw_def split: if_splits)
    then have q: "o_id (heap b q) = i" "q \<in> X \<or> in_book b q"
      using book_invD(5)[OF inv] by (simp_all add: index_ok_def)
    with i(2) have "q \<noteq> p" by blast
    with q show "o_id (heap ?c q) = i \<and> (q \<in> X \<or> in_book ?c q)"
      unfolding withdraw_in_book[OF inv] by (simp add: withdraw_def)
  qed
  ultimately show ?thesis using withdraw_levels[OF inv idx] by (simp add: book_inv_upto_def)
qed

lemma known_order:
  assumes "book_inv b" and "orders_by_id b i = Some p"
  shows "o_id (heap b p) = i" "in_book b p" "open_order b p" "indexed b p"
proof -
  show "o_id (heap b p) = i" and "in_book b p"
    using book_invD(5)[OF assms(1)] assms(2) by (auto simp: index_ok_def)
  then show "open_order b p" using in_book_open[OF assms(1)] by blast
  then show "indexed b p" by (rule open_orderD)
qed

lemma cancelOrder_known:
  assumes inv: "book_inv b" and i: "orders_by_id b i = Some p"
  shows "cancelOrder i b = (True, if order_callback b then [OrderEvent p] else [], withdraw p b)"
proof -
  note known = known_order[OF assms] and ok = book_invD(1-4)[OF inv]
  obtain ord where ord: "cancel (heap b p) = (True, ord)"
    using known(3) cancel_success_iff[of "heap b p"] by (cases "cancel (heap b p)") (auto simp: open_order_def)
  have terms: "isStopOrder ord = isStopOrder (heap b p)" "o_side ord = o_side (heap b p)"
    "o_price ord = o_price (heap b p)" "o_stop_price ord = o_stop_price (heap b p)"
    using cancel_frame[of "heap b p"] unfolding ord by (simp_all add: isStopOrder_def)
  have "\<not> in_levels (bids b) p" if "isStopOrder (heap b p) \<or> o_side (heap b p) = SELL"
    using that ok(1) by (auto dest!: levels_ok_in simp: rests_def isStopOrder_def)
  moreover have "\<not> in_levels (asks b) p" if "isStopOrder (heap b p) \<or> o_side (heap b p) = BUY"
    using that ok(2) by (auto dest!: levels_ok_in simp: rests_def isStopOrder_def)
  moreover have "\<not> in_levels (stop_buy_orders b) p" if "\<not> isStopOrder (heap b p) \<or> o_side (heap b p) = SELL"
    using that ok(3) by (auto dest!: levels_ok_in simp: waits_def)
  moreover have "\<not> in_levels (stop_sell_orders b) p" if "\<not> isStopOrder (heap b p) \<or> o_side (heap b p) = BUY"
    using that ok(4) by (auto dest!: levels_ok_in simp: waits_def)
  ultimately show ?thesis
    using known(1) unfolding cancelOrder_def i
    by (cases "o_side (heap b p)"; cases "isStopOrder (heap b p)")
      (simp_all add: withdraw_def remove_absent ord terms)
qed

lemma cancelOrder_inv: "book_inv b \<Longrightarrow> book_inv (snd (snd (cancelOrder i b)))"
proof (cases "orders_by_id b i")
  case None
  then show "book_inv b \<Longrightarrow> ?thesis" by (simp add: cancelOrder_def)
next
  case (Some p)
  assume inv: "book_inv b"
  note known = known_order[OF inv Some]
  show ?thesis using withdraw_inv[OF inv known(4)] by (simp add: cancelOrder_known[OF inv Some])
qed

subsection \<open>Reachable books\<close>

text \<open>
  The order objects clients submit: newly constructed ones, and the ones restored from the store, which
  may be marked \<open>PARTIAL\<close>, or \<open>FILLED\<close> with nothing left.
\<close>

definition submittable :: "order \<Rightarrow> bool" where
  "submittable ord \<longleftrightarrow> o_remaining ord = 0 \<or> active ord \<and> wf_order ord"

lemma submittable_new: "submittable (new_order now i sd pr qty smb cid ty sp)"
  by (simp add: submittable_def wf_new_order active_new_order)

lemma submittable_refill: "submittable (snd (fill (new_order now i sd pr qty smb cid ty sp) 0))"
  by (simp add: submittable_def fill_def new_order_def active_def wf_order_def Let_def)

inductive book_step :: "book \<Rightarrow> book \<Rightarrow> bool" where
  submit: "p \<notin> ran (orders_by_id b) \<Longrightarrow> submittable ord \<Longrightarrow>
    addOrder now (Some p) (set_order p ord b) = Some (ok, evs, b') \<Longrightarrow>
    book_step b b'"
| submit_null: "addOrder now None b = Some (ok, evs, b') \<Longrightarrow> book_step b b'"
| cancel: "cancelOrder i b = (ok, evs, b') \<Longrightarrow> book_step b b'"
| tick: "book_step b (setTickSize t b)"
| order_cb: "book_step b (setOrderCallback b)"
| trade_cb: "book_step b (setTradeCallback b)"

inductive reachable_book :: "book \<Rightarrow> bool" where
  init: "reachable_book (new_book smb tick h)"
| step: "reachable_book b \<Longrightarrow> book_step b b' \<Longrightarrow> reachable_book b'"

inductive_cases book_stepE: "book_step b b'"

lemma new_book_inv: "book_inv (new_book smb tick h)"
  by (simp add: book_inv_upto_def levels_ok_def index_ok_def uncrossed_def new_book_def map_inv_def)

text \<open>Writing a fresh object at an address the book does not refer to.\<close>

lemma alloc_inv:
  assumes inv: "book_inv b" and new: "p \<notin> ran (orders_by_id b)"
  shows "book_inv (set_order p ord b)"
proof (rule book_inv_same_levels[OF inv])
  fix q assume q: "in_book b q"
  then have "indexed b q" using in_book_open[OF inv] by (blast dest: open_orderD)
  moreover from this new have "q \<noteq> p" by (auto simp: indexed_def ran_def)
  ultimately show "heap (set_order p ord b) q = heap b q \<and> indexed (set_order p ord b) q"
    by (simp add: indexed_def)
next
  show "index_ok {} (set_order p ord b)"
    unfolding index_ok_def
  proof (intro allI impI)
    fix i q assume "orders_by_id (set_order p ord b) i = Some q"
    then have i: "orders_by_id b i = Some q" by simp
    with new have "q \<noteq> p" by (auto simp: ran_def)
    with known_order[OF inv i] show "o_id (heap (set_order p ord b) q) = i \<and>
        (q \<in> {} \<or> in_book (set_order p ord b) q)" by (simp add: in_book_def)
  qed
qed simp_all

lemma book_inv_fields:
  assumes "book_inv b"
  shows "book_inv (b\<lparr>tick_size := t\<rparr>)" "book_inv (b\<lparr>order_callback := f\<rparr>)" "book_inv (b\<lparr>trade_callback := f\<rparr>)"
  using assms by (simp_all add: book_inv_upto_def levels_ok_def rests_def waits_def open_order_def
      indexed_def index_ok_def in_book_def uncrossed_def)

lemma book_step_inv: "book_step b b' \<Longrightarrow> book_inv b \<Longrightarrow> book_inv b'"
proof (induction rule: book_step.induct)
  case (submit p b ord now ok evs b')
  have c: "book_inv (set_order p ord b)" using submit by (simp add: alloc_inv)
  show ?case
  proof (cases "o_remaining ord = 0")
    case True
    with submit c show ?thesis by (simp add: addOrder_def)
  next
    case False
    show ?thesis
      by (rule addOrder_run[OF c, of p now]) (use submit False in \<open>simp_all add: submittable_def\<close>)
  qed
next
  case (cancel i b ok evs b')
  then show ?case using cancelOrder_inv[of b i] by simp
qed (auto simp: addOrder_def setTickSize_def setOrderCallback_def setTradeCallback_def book_inv_fields)

lemma reachable_inv: "reachable_book b \<Longrightarrow> book_inv b"
  by (induction rule: reachable_book.induct) (auto intro: new_book_inv book_step_inv)

end
