(* ===== verification/Ledger.thy ===== *)
theory Ledger
  imports Book_Api
begin

text \<open>
  What a call of \<^verbatim>\<open>addOrder\<close> does to quantities and which trades it may print. Two relations that
  every step of the engine respects are instances of \<open>engine_relation\<close>: \<open>ledger\<close>, the accounting of
  quantities order by order, and \<open>recorded\<close>, the shape of the new trades and of the notifications
  that go with them.
\<close>

subsection \<open>Accounting\<close>

definition traded :: "string \<Rightarrow> trade list \<Rightarrow> nat" where
  "traded i ts = (\<Sum>t\<leftarrow>ts. if t_buy_order_id t = i \<or> t_sell_order_id t = i then unat (t_quantity t) else 0)"

lemma traded_simps [simp]:
  "traded i [] = 0" "traded i (ts @ us) = traded i ts + traded i us"
  by (simp_all add: traded_def)

lemma traded_none:
  "\<forall>t \<in> set ts. t_buy_order_id t \<noteq> i \<and> t_sell_order_id t \<noteq> i \<Longrightarrow> traded i ts = 0"
  by (simp add: traded_def)

definition parties_known :: "book \<Rightarrow> trade list \<Rightarrow> bool" where
  "parties_known b ts \<longleftrightarrow>
     (\<forall>t \<in> set ts. orders_by_id b (t_buy_order_id t) \<noteq> None \<and> orders_by_id b (t_sell_order_id t) \<noteq> None)"

text \<open>
  What a registered order has left plus what it traded is what it had left before; an order that
  is not registered trades nothing.
\<close>

definition accounts :: "book \<Rightarrow> trade list \<Rightarrow> book \<Rightarrow> OrderPtr \<Rightarrow> bool" where
  "accounts b ts c r \<longleftrightarrow> unat (rem_qty b r) =
     unat (rem_qty c r) + (if indexed b r then traded (o_id (heap b r)) ts else 0)"

definition ledger :: "book \<Rightarrow> book \<Rightarrow> bool" where
  "ledger b c \<longleftrightarrow>
     (\<exists>ts. pending_trades c = pending_trades b @ ts \<and> parties_known b ts \<and> (\<forall>r. accounts b ts c r)) \<and>
     orders_by_id c \<subseteq>\<^sub>m orders_by_id b \<and> (\<forall>r. o_id (heap c r) = o_id (heap b r))"

lemma ledger_refl: "ledger b b"
  by (auto simp: ledger_def accounts_def parties_known_def intro!: exI[of _ "[]"])

lemma indexed_anti:
  assumes "orders_by_id c \<subseteq>\<^sub>m orders_by_id b" and "o_id (heap c r) = o_id (heap b r)" and "indexed c r"
  shows "indexed b r"
  using assms map_leD by (fastforce simp: indexed_def)

lemma ledger_trans:
  assumes "ledger a b" and "ledger b c"
  shows "ledger a c"
proof -
  from assms obtain ts us where
    ts: "pending_trades b = pending_trades a @ ts" "parties_known a ts" "\<And>r. accounts a ts b r"
      "orders_by_id b \<subseteq>\<^sub>m orders_by_id a" "\<And>r. o_id (heap b r) = o_id (heap a r)"
    and us: "pending_trades c = pending_trades b @ us" "parties_known b us" "\<And>r. accounts b us c r"
      "orders_by_id c \<subseteq>\<^sub>m orders_by_id b" "\<And>r. o_id (heap c r) = o_id (heap b r)"
    unfolding ledger_def by blast
  have dom: "orders_by_id b i \<noteq> None \<Longrightarrow> orders_by_id a i \<noteq> None" for i
    using map_leD[OF ts(4)] by blast
  then have "parties_known a (ts @ us)" using ts(2) us(2) unfolding parties_known_def by auto
  moreover have "accounts a (ts @ us) c r" for r
  proof (cases "indexed a r \<and> \<not> indexed b r")
    case True
    then have "orders_by_id b (o_id (heap a r)) = None"
      using map_leD[OF ts(4), of "o_id (heap a r)"] ts(5)[of r] by (cases "orders_by_id b (o_id (heap a r))") (auto simp: indexed_def)
    then have "traded (o_id (heap a r)) us = 0"
      using us(2) by (intro traded_none) (auto simp: parties_known_def)
    with True ts(3)[of r] us(3)[of r] show ?thesis by (simp add: accounts_def)
  next
    case False
    then show ?thesis
      using ts(3)[of r] us(3)[of r] ts(5) indexed_anti[OF ts(4,5), of r] by (auto simp: accounts_def)
  qed
  moreover have "orders_by_id c \<subseteq>\<^sub>m orders_by_id a" using us(4) ts(4) by (rule map_le_trans)
  ultimately show ?thesis using ts(1,5) us(1,5) unfolding ledger_def by auto
qed

text \<open>One trade, and steps without one.\<close>

lemma ledger_trade:
  assumes idx: "indexed b p" "indexed b q" "p \<noteq> q"
    and t: "pending_trades c = pending_trades b @ [t]"
      "{t_buy_order_id t, t_sell_order_id t} = {o_id (heap b p), o_id (heap b q)}"
    and le: "orders_by_id c \<subseteq>\<^sub>m orders_by_id b" and ids: "\<And>r. o_id (heap c r) = o_id (heap b r)"
    and qty: "unat (rem_qty b p) = unat (rem_qty c p) + unat (t_quantity t)"
      "unat (rem_qty b q) = unat (rem_qty c q) + unat (t_quantity t)"
      "\<And>r. r \<noteq> p \<Longrightarrow> r \<noteq> q \<Longrightarrow> rem_qty c r = rem_qty b r"
  shows "ledger b c"
proof -
  have party: "t_buy_order_id t = i \<or> t_sell_order_id t = i \<longleftrightarrow> i = o_id (heap b p) \<or> i = o_id (heap b q)" for i
    using t(2) by (metis insert_iff singletonD)
  have "accounts b [t] c r" for r
  proof (cases "r = p \<or> r = q")
    case True
    with qty idx show ?thesis by (auto simp: accounts_def traded_def party)
  next
    case False
    then have "indexed b r \<Longrightarrow> o_id (heap b r) \<noteq> o_id (heap b p) \<and> o_id (heap b r) \<noteq> o_id (heap b q)"
      using idx index_inj[of b r p] index_inj[of b r q] by (simp add: indexed_def)
    with False qty(3)[of r] show ?thesis by (auto simp: accounts_def traded_def party)
  qed
  moreover have "parties_known b [t]"
    using idx party[of "t_buy_order_id t"] party[of "t_sell_order_id t"]
    by (auto simp: parties_known_def indexed_def)
  ultimately show ?thesis using t(1) le ids unfolding ledger_def by blast
qed

lemma ledger_quiet:
  assumes "pending_trades c = pending_trades b" and "orders_by_id c \<subseteq>\<^sub>m orders_by_id b"
    and "\<And>r. o_id (heap c r) = o_id (heap b r)" and "\<And>r. rem_qty c r = rem_qty b r"
  shows "ledger b c"
  using assms by (auto simp: ledger_def accounts_def parties_known_def intro!: exI[of _ "[]"])

lemma trade_parties:
  "{t_buy_order_id (trade_record now p b k f), t_sell_order_id (trade_record now p b k f)} =
     {o_id (heap b p), o_id (heap b (fst f))}"
  by (auto simp: trade_record_def)

lemma trade_quantity [simp]: "t_quantity (trade_record now p b k (q, unat w)) = w"
  by (simp add: trade_record_def)

lemma match_level_ledger:
  assumes "level_pre p qs b"
  shows "ledger b (snd (match_level now p qs b))"
  using assms
proof (induction rule: match_level_induct[where now = now])
  case (Part q qs b)
  note pre = level_preD[OF Part(1,2)] and eq = part_fill_eq[OF Part, of now]
  have "rem_qty b p \<le> rem_qty b q" using Part(3) by simp
  then show ?case
    by (intro ledger_trade[where p = p and q = q and
          t = "trade_record now p b (length (pending_trades b)) (q, unat (rem_qty b p))"])
      (use Part(1) pre(4) trade_parties[of now p b _ "(q, _)"] in
        \<open>auto simp: eq indexed_def level_pre_def unat_sub word_le_nat_alt\<close>)
next
  case (Full q qs b qs' b')
  note pre = level_preD[OF Full(1,2)] and eq = full_fill_eq[OF Full(1-3), of now]
  have "ledger b (full_fill now p q b)"
    by (intro ledger_trade[where p = p and q = q and
          t = "trade_record now p b (length (pending_trades b)) (q, unat (rem_qty b q))"])
      (use Full(1,3) pre(4) trade_parties[of now p b _ "(q, _)"] in
        \<open>auto simp: eq indexed_def level_pre_def unat_sub word_le_nat_alt map_le_forget\<close>)
  then show ?case using Full(4) by (rule ledger_trans)
qed (simp_all add: ledger_refl)

lemma round_ledger: "round_pre X p k qs b \<Longrightarrow> ledger b (match_round now p k qs b)"
  using match_level_ledger[OF round_level_pre, of X p k qs b now]
  by (simp add: ledger_def accounts_def match_round_fields)

interpretation ledger: engine_relation ledger
proof unfold_locales
  fix X p b assume "match_pre X p b"
  show "ledger b (settle p b)"
    by (rule ledger_quiet)
      (auto simp: settle_def erase_id_def addOrderToBook_def map_le_forget split: OrderSide.splits)
next
  fix X sd k ps b assume "pop_pre X sd k ps b"
  then show "ledger b (pop_level sd k ps b)"
    by (intro ledger_quiet) (simp_all add: pop_level_fields)
qed (auto intro: ledger_refl ledger_trans round_ledger ledger_quiet simp: addStopOrder_stops)

subsection \<open>Trades and notifications\<close>

text \<open>An order with a price limit; triggering a stop order does not change whether it has one.\<close>

definition has_limit :: "order \<Rightarrow> bool" where
  "has_limit ord \<longleftrightarrow> o_type ord = LIMIT \<or> o_type ord = STOP_LIMIT"

definition same_contract :: "order \<Rightarrow> order \<Rightarrow> bool" where
  "same_contract x y \<longleftrightarrow> o_id y = o_id x \<and> o_client_id y = o_client_id x \<and> o_symbol y = o_symbol x \<and>
     o_side y = o_side x \<and> o_price y = o_price x \<and> o_stop_price y = o_stop_price x \<and>
     o_quantity y = o_quantity x \<and> o_timestamp y = o_timestamp x \<and> has_limit y = has_limit x"

text \<open>
  A trade that both parties agreed to: a positive quantity of the book's symbol between a buy and a
  sell order, at the price of one of them and within the limit of each.
\<close>

definition fair_trade :: "book \<Rightarrow> trade \<Rightarrow> bool" where
  "fair_trade b t \<longleftrightarrow> t_quantity t \<noteq> 0 \<and> t_symbol t = symbol b \<and>
     (\<exists>x y. o_id (heap b x) = t_buy_order_id t \<and> o_side (heap b x) = BUY \<and>
            o_id (heap b y) = t_sell_order_id t \<and> o_side (heap b y) = SELL \<and>
            t_price t \<in> {o_price (heap b x), o_price (heap b y)} \<and>
            (has_limit (heap b x) \<longrightarrow> t_price t \<le> o_price (heap b x)) \<and>
            (has_limit (heap b y) \<longrightarrow> o_price (heap b y) \<le> t_price t))"

text \<open>The order objects to notify: for each trade its buyer, then its seller.\<close>

definition notified :: "book \<Rightarrow> trade list \<Rightarrow> OrderPtr list \<Rightarrow> bool" where
  "notified b ts us \<longleftrightarrow>
     map (\<lambda>q. o_id (heap b q)) us = concat (map (\<lambda>t. [t_buy_order_id t, t_sell_order_id t]) ts)"

definition same_settings :: "book \<Rightarrow> book \<Rightarrow> bool" where
  "same_settings b c \<longleftrightarrow> symbol c = symbol b \<and>
     order_callback c = order_callback b \<and> trade_callback c = trade_callback b"

definition recorded :: "book \<Rightarrow> book \<Rightarrow> bool" where
  "recorded b c \<longleftrightarrow>
     (\<exists>ts us. pending_trades c = pending_trades b @ ts \<and>
        pending_order_updates c = pending_order_updates b @ us \<and>
        (\<forall>t \<in> set ts. fair_trade b t) \<and> notified b ts us) \<and>
     (\<forall>r. same_contract (heap b r) (heap c r)) \<and> same_settings b c"

lemma same_contract_terms: "same_terms x y \<Longrightarrow> same_contract x y"
  by (simp add: same_contract_def has_limit_def same_termsD)

lemma same_contract_refl [simp]: "same_contract x x"
  by (simp add: same_contract_def)

lemma same_contract_cancel [simp]: "same_contract x (snd (cancel x))"
  by (simp add: same_contract_def has_limit_def)

lemma same_contract_trigger [simp]: "same_contract x (snd (trigger x))"
  by (auto simp: same_contract_def has_limit_def trigger_def)

lemma fair_trade_stable:
  assumes "\<forall>r. same_contract (heap b r) (heap c r)" and "same_settings b c"
  shows "fair_trade c t = fair_trade b t"
  using assms by (simp add: fair_trade_def same_contract_def same_settings_def)

lemma recorded_quiet:
  assumes "pending_trades c = pending_trades b" and "pending_order_updates c = pending_order_updates b"
    and "\<And>r. same_contract (heap b r) (heap c r)" and "same_settings b c"
  shows "recorded b c"
  using assms by (auto simp: recorded_def notified_def intro!: exI[of _ "[]"])

lemma recorded_refl: "recorded b b"
  by (rule recorded_quiet) (simp_all add: same_settings_def)

lemma recorded_trans:
  assumes "recorded a b" and "recorded b c"
  shows "recorded a c"
proof -
  from assms obtain ts us ts' us' where
    ab: "pending_trades b = pending_trades a @ ts" "pending_order_updates b = pending_order_updates a @ us"
      "\<forall>t \<in> set ts. fair_trade a t" "notified a ts us"
    and bc: "pending_trades c = pending_trades b @ ts'" "pending_order_updates c = pending_order_updates b @ us'"
      "\<forall>t \<in> set ts'. fair_trade b t" "notified b ts' us'"
    and same: "\<forall>r. same_contract (heap a r) (heap b r)" "same_settings a b"
      "\<forall>r. same_contract (heap b r) (heap c r)" "same_settings b c"
    unfolding recorded_def by blast
  have "\<forall>t \<in> set (ts @ ts'). fair_trade a t"
    using ab(3) bc(3) by (auto simp: fair_trade_stable[OF same(1,2)])
  moreover have "notified a (ts @ ts') (us @ us')"
    using ab(4) bc(4) same(1) by (simp add: notified_def same_contract_def)
  moreover have "\<forall>r. same_contract (heap a r) (heap c r)" "same_settings a c"
    using same by (simp_all add: same_contract_def same_settings_def)
  ultimately show ?thesis using ab(1,2) bc(1,2) unfolding recorded_def by auto
qed

lemma greedy_mem:
  "(q, m) \<in> set (greedy n Q) \<Longrightarrow> \<forall>f \<in> set Q. snd f \<noteq> 0 \<Longrightarrow> 0 < m \<and> m \<le> n \<and> q \<in> fst ` set Q"
  by (induction n Q rule: greedy.induct) (force split: if_splits)+

lemma trade_records_mem:
  "t \<in> set (trade_records now p b k fs) \<Longrightarrow> \<exists>j. \<exists>f \<in> set fs. t = trade_record now p b j f"
proof (induction fs arbitrary: k)
  case (Cons f fs)
  then consider "t = trade_record now p b k f" | "t \<in> set (trade_records now p b (Suc k) fs)" by auto
  then show ?case
  proof cases
    case 2
    from Cons.IH[OF this] show ?thesis by auto
  qed auto
qed simp

lemma notified_records:
  "notified b (trade_records now p b k fs) (fill_updates p (o_side (heap b p)) fs)"
  by (induction fs arbitrary: k)
    (auto simp: notified_def fill_updates_def trade_record_def)

lemma round_fair:
  assumes pre: "round_pre X p k qs b" and m: "\<not> no_match (heap b p) k"
    and f: "f \<in> set (greedy (unat (rem_qty b p)) (claims b qs))"
  shows "fair_trade b (trade_record now p b j f)"
proof -
  let ?sd = "o_side (heap b p)"
  obtain q n where qn: "f = (q, n)" by (cases f)
  have rests: "rests b (other_side ?sd) k r" if "r \<in> set qs" for r
    using pre levels_okD(3)[OF opposite_ok round_find[OF pre] that]
    by (simp add: round_pre_def match_pre_def) blast
  then have "\<forall>f \<in> set (claims b qs). snd f \<noteq> 0"
    by (auto simp: claims_def rests_def open_order_def unat_gt_0)
  from greedy_mem[OF f[unfolded qn] this] have n: "0 < n" "n \<le> unat (rem_qty b p)" and q: "q \<in> set qs"
    by (auto simp: claims_def)
  have "n < 2 ^ LENGTH(32)" using n(2) unsigned_less[of "rem_qty b p"] by (rule le_less_trans)
  then have "unat (of_nat n :: u32) = n" by (simp add: unsigned_of_nat take_bit_nat_eq_self)
  then have "(of_nat n :: u32) \<noteq> 0" using n(1) by (metis less_irrefl unsigned_0)
  with rests[OF q] m show ?thesis
    by (cases ?sd; intro fair_trade_def[THEN iffD2] conjI exI[of _ "if ?sd = BUY then p else q"]
        exI[of _ "if ?sd = BUY then q else p"])
      (auto simp: trade_record_def qn rests_def no_match_def has_limit_def)
qed

lemma round_recorded:
  assumes pre: "round_pre X p k qs b" and m: "\<not> no_match (heap b p) k"
  shows "recorded b (match_round now p k qs b)"
proof -
  note lp = round_level_pre[OF pre]
  let ?fs = "greedy (unat (rem_qty b p)) (claims b qs)"
  have "pending_trades (match_round now p k qs b) =
      pending_trades b @ trade_records now p b (length (pending_trades b)) ?fs"
    "pending_order_updates (match_round now p k qs b) =
      pending_order_updates b @ fill_updates p (o_side (heap b p)) ?fs"
    using match_level_greedy[OF lp, of now] by (simp_all add: match_round_fields)
  moreover have "\<forall>t \<in> set (trade_records now p b (length (pending_trades b)) ?fs). fair_trade b t"
    using round_fair[OF pre m] by (auto dest!: trade_records_mem)
  ultimately show ?thesis
    using notified_records same_contract_terms[OF round_terms[OF lp]]
    by (auto simp: recorded_def same_settings_def match_round_fields lp)
qed

interpretation recorded: engine_relation recorded
proof unfold_locales
  fix X p b assume "match_pre X p b"
  show "recorded b (settle p b)"
    by (rule recorded_quiet)
      (auto simp: settle_def erase_id_def addOrderToBook_def same_settings_def split: OrderSide.splits)
next
  fix X sd k ps b assume "pop_pre X sd k ps b"
  then show "recorded b (pop_level sd k ps b)"
    by (intro recorded_quiet) (auto simp: pop_level_fields same_settings_def)
qed (auto intro: recorded_refl recorded_trans round_recorded recorded_quiet
      simp: addStopOrder_stops same_settings_def)

text \<open>Only orders the book knows are notified.\<close>

definition known_updates :: "book \<Rightarrow> book \<Rightarrow> bool" where
  "known_updates b c \<longleftrightarrow>
     (\<exists>us. pending_order_updates c = pending_order_updates b @ us \<and> (\<forall>u \<in> set us. indexed b u)) \<and>
     orders_by_id c \<subseteq>\<^sub>m orders_by_id b \<and> (\<forall>r. o_id (heap c r) = o_id (heap b r))"

lemma known_updates_trans:
  assumes "known_updates a b" and "known_updates b c"
  shows "known_updates a c"
proof -
  from assms obtain us vs where
    us: "pending_order_updates b = pending_order_updates a @ us" "\<forall>u \<in> set us. indexed a u"
    and vs: "pending_order_updates c = pending_order_updates b @ vs" "\<forall>u \<in> set vs. indexed b u"
    and le: "orders_by_id b \<subseteq>\<^sub>m orders_by_id a" "orders_by_id c \<subseteq>\<^sub>m orders_by_id b"
    and ids: "\<And>r. o_id (heap b r) = o_id (heap a r)" "\<And>r. o_id (heap c r) = o_id (heap b r)"
    unfolding known_updates_def by blast
  have "\<forall>u \<in> set (us @ vs). indexed a u" using us(2) vs(2) indexed_anti[OF le(1) ids(1)] by auto
  then show ?thesis
    using us(1) vs(1) map_le_trans[OF le(2,1)] ids unfolding known_updates_def by auto
qed

lemma known_updates_quiet:
  "ledger b c \<Longrightarrow> pending_order_updates c = pending_order_updates b \<Longrightarrow> known_updates b c"
  by (auto simp: known_updates_def ledger_def)

lemma round_known_updates:
  assumes pre: "round_pre X p k qs b"
  shows "known_updates b (match_round now p k qs b)"
proof -
  note lp = round_level_pre[OF pre]
  let ?fs = "greedy (unat (rem_qty b p)) (claims b qs)"
  have "fst f \<in> set qs" if "f \<in> set ?fs" for f
    using that greedy_mem[of "fst f" "snd f" "unat (rem_qty b p)" "claims b qs"] lp
    by (auto simp: claims_def level_pre_def unat_gt_0)
  then have "\<forall>u \<in> set (fill_updates p (o_side (heap b p)) ?fs). indexed b u"
    using lp by (auto simp: fill_updates_def level_pre_def indexed_def)
  then show ?thesis
    using match_level_greedy[OF lp, of now] round_ledger[OF pre, of now]
    by (auto simp: known_updates_def ledger_def match_round_fields)
qed

interpretation known_updates: engine_relation known_updates
proof unfold_locales
  fix X sd k ps b assume "pop_pre X sd k ps b"
  then show "known_updates b (pop_level sd k ps b)"
    by (intro known_updates_quiet ledger.R_pop) (simp_all add: pop_level_fields)
next
  fix X p b assume "match_pre X p b"
  then show "known_updates b (settle p b)"
    by (intro known_updates_quiet ledger.R_settle) simp_all
next
  fix b p assume "open_order b p"
  then show "known_updates b (addStopOrder p b)"
    by (intro known_updates_quiet ledger.R_park) (simp_all add: addStopOrder_stops)
qed (auto intro: known_updates_trans round_known_updates known_updates_quiet ledger_refl)

subsection \<open>Whole calls\<close>

lemma enter_fields [simp]:
  "heap (enter p b) = heap b" "symbol (enter p b) = symbol b" "pending_trades (enter p b) = []"
  "pending_order_updates (enter p b) = []" "order_callback (enter p b) = order_callback b"
  "trade_callback (enter p b) = trade_callback b" "in_book (enter p b) q = in_book b q"
  by (simp_all add: enter_def in_book_def)

lemma enter_indexed:
  assumes "entered p (enter p b)"
  shows "indexed (enter p b) r \<longleftrightarrow> r = p \<or> in_book b r"
proof -
  from assms have inv: "book_inv_upto {p} (enter p b)" and p: "indexed (enter p b) p"
    by (auto simp: entered_def open_order_def)
  show ?thesis
    using book_invD(5)[OF inv] in_book_open[OF inv, of r] p
    by (auto simp: index_ok_def indexed_def open_order_def)
qed

lemma accepted_ledger:
  assumes "entered p (enter p b)" and "process_new now p (enter p b) = Some b'"
  shows "unat (rem_qty b r) = unat (rem_qty b' r) +
    (if r = p \<or> in_book b r then traded (o_id (heap b r)) (pending_trades b') else 0)"
  using ledger.R_new[OF assms(2,1)]
  by (auto simp: ledger_def accounts_def enter_indexed[OF assms(1)])

lemma accepted_recorded:
  assumes "entered p (enter p b)" and "process_new now p (enter p b) = Some b'"
  shows "\<forall>t \<in> set (pending_trades b'). fair_trade b t"
    "notified b (pending_trades b') (pending_order_updates b')"
    "same_contract (heap b r) (heap b' r)" "same_settings b b'"
proof -
  have rec: "recorded (enter p b) b'" using recorded.R_new[OF assms(2,1)] .
  then show "\<forall>t \<in> set (pending_trades b'). fair_trade b t"
    by (auto simp: recorded_def fair_trade_def)
  from rec show "notified b (pending_trades b') (pending_order_updates b')"
    by (auto simp: recorded_def notified_def)
  from rec show "same_contract (heap b r) (heap b' r)" "same_settings b b'"
    by (auto simp: recorded_def same_settings_def)
qed

lemma accepted_updates:
  assumes "entered p (enter p b)" and "process_new now p (enter p b) = Some b'"
    and "u \<in> set (pending_order_updates b')"
  shows "u = p \<or> o_id (heap b u) \<noteq> o_id (heap b p)"
proof -
  have "indexed (enter p b) u"
    using known_updates.R_new[OF assms(2,1)] assms(3) by (auto simp: known_updates_def)
  moreover have "indexed (enter p b) p" using assms(1) by (simp add: entered_def open_order_def)
  ultimately show ?thesis using index_inj[of "enter p b" u p] by (auto simp: indexed_def)
qed

lemma addOrder_accepted:
  assumes "book_inv b" "active (heap b p)" "wf_order (heap b p)"
    and "addOrder now (Some p) b = Some (True, evs, b')"
  shows "acceptable p b" "entered p (enter p b)" "process_new now p (enter p b) = Some b'"
    "evs = callbacks p b'" "book_inv b'"
  by (rule addOrder_run[OF assms(1-3), of now]; use assms(4) in simp)+

end
