(* ===== verification/Price_Time.thy ===== *)
theory Price_Time
  imports Ledger
begin

text \<open>
  Price-time priority. The side of the book an incoming order meets is one queue, level after
  level from the best price on and oldest first within a level; the order may trade with the levels
  its limit admits. \<^verbatim>\<open>matchOrder\<close> implements the greedy allocation of the incoming quantity to the
  admitted part of that queue: trade for trade, in that order, and what it leaves in the book is what
  the allocation leaves of the queue.
\<close>

subsection \<open>The queue\<close>

definition ranked :: "OrderSide \<Rightarrow> levels \<Rightarrow> levels" where
  "ranked sd m = (case sd of BUY \<Rightarrow> m | SELL \<Rightarrow> rev m)"

definition queue :: "OrderSide \<Rightarrow> book \<Rightarrow> OrderPtr list" where
  "queue sd b = concat (map snd (ranked sd (opposite sd b)))"

definition eligible :: "OrderPtr \<Rightarrow> book \<Rightarrow> OrderPtr list" where
  "eligible p b = concat (map snd (takeWhile (\<lambda>e. \<not> no_match (heap b p) (fst e))
     (ranked (o_side (heap b p)) (opposite (o_side (heap b p)) b))))"

lemma best_ranked:
  "best_level sd m = (case ranked sd m of [] \<Rightarrow> None | e # _ \<Rightarrow> Some e)"
  by (cases sd; cases m rule: rev_cases)
    (auto simp: best_level_def ranked_def map_first_def map_last_def split: list.splits)

lemma ranked_best: "best_level sd m = Some e \<Longrightarrow> ranked sd m = e # tl (ranked sd m)"
  by (auto simp: best_ranked split: list.splits)

lemma put_last: "map_inv (m @ [(k, u)]) \<Longrightarrow> map_put k v (m @ [(k, u)]) = m @ [(k, v)]"
  by (induction m) (auto simp: map_inv_Cons dest: order.asym)

lemma ranked_store:
  assumes "map_inv m" and "best_level sd m = Some (k, qs)"
  shows "ranked sd (store_level k qs' m) = (if qs' = [] then [] else [(k, qs')]) @ tl (ranked sd m)"
proof (cases sd)
  case BUY
  with assms obtain m' where "m = (k, qs) # m'"
    by (auto simp: best_level_def map_first_def split: list.splits)
  then have "map_erase k m = m'" "map_put k qs' m = (k, qs') # m'" "tl m = m'"
    using assms(1) erase_head by simp_all
  with BUY show ?thesis by (simp add: ranked_def store_level_def)
next
  case SELL
  with assms(2) have last: "map_last m = Some (k, qs)" by (simp add: best_level_def)
  from map_last_snoc[OF last] obtain m' where m: "m = m' @ [(k, qs)]" by blast
  have "map_erase k m = m'" using erase_last[OF assms(1) last] by (simp add: m)
  moreover have "map_put k qs' m = m' @ [(k, qs')]" using assms(1) put_last by (simp add: m)
  ultimately show ?thesis using SELL by (simp add: ranked_def store_level_def m)
qed

lemma ranked_find:
  "map_inv m \<Longrightarrow> e \<in> set (ranked sd m) \<Longrightarrow> map_find m (fst e) = Some (snd e)"
  by (cases sd; cases e) (auto simp: ranked_def in_map_find)

text \<open>The level after the best one is a different level.\<close>

lemma ranked_tl_key:
  assumes "map_inv m" and "best_level sd m = Some (k, qs)" and "e \<in> set (tl (ranked sd m))"
  shows "fst e \<noteq> k"
proof -
  have "distinct (map fst (ranked sd m))"
    using map_inv_distinct[OF assms(1)] by (cases sd) (simp_all add: ranked_def rev_map[symmetric])
  then show ?thesis using assms(3) ranked_best[OF assms(2)] by (metis distinct.simps(2) fst_conv image_eqI list.simps(9) list.set_map)
qed

lemma leftover_empty: "\<forall>f \<in> set Q. snd f \<noteq> 0 \<Longrightarrow> leftover n Q = [] \<longleftrightarrow> sum_list (map snd Q) \<le> n"
  by (induction n Q rule: leftover.induct) auto

lemma claims_append [simp]: "claims b (xs @ ys) = claims b xs @ claims b ys"
  by (simp add: claims_def)

lemma claims_empty [simp]: "claims b xs = [] \<longleftrightarrow> xs = []"
  by (simp add: claims_def)

lemma claims_Nil [simp]: "claims b [] = []"
  by (simp add: claims_def)

lemma length_claims [simp]: "length (claims b xs) = length xs"
  by (simp add: claims_def)

subsection \<open>One round\<close>

text \<open>What the orders behind the best level look like before and after the round.\<close>

definition behind :: "OrderPtr \<Rightarrow> book \<Rightarrow> levels" where
  "behind p b = tl (ranked (o_side (heap b p)) (opposite (o_side (heap b p)) b))"

lemma round_map_inv: "round_pre X p k qs b \<Longrightarrow> map_inv (opposite (o_side (heap b p)) b)"
  using opposite_ok[of X b "o_side (heap b p)"] by (simp add: round_pre_def match_pre_def levels_ok_def)

lemma round_ranked:
  assumes "round_pre X p k qs b"
  shows "ranked (o_side (heap b p)) (opposite (o_side (heap b p)) b) = (k, qs) # behind p b"
  using assms ranked_best by (simp add: round_pre_def behind_def)

lemma round_ranked_after:
  assumes pre: "round_pre X p k qs b"
  shows "ranked (o_side (heap b p)) (opposite (o_side (heap b p)) (match_round now p k qs b)) =
    (if fst (match_level now p qs b) = [] then [] else [(k, fst (match_level now p qs b))]) @ behind p b"
  using ranked_store[OF round_map_inv[OF pre]] pre
  by (simp add: match_round_fields round_level_pre[OF pre] behind_def round_pre_def)

lemma round_behind_claims:
  assumes pre: "round_pre X p k qs b" and "set rs \<subseteq> set (concat (map snd (behind p b)))"
  shows "claims (match_round now p k qs b) rs = claims b rs"
proof (rule claims_cong)
  fix r assume "r \<in> set rs"
  with assms(2) obtain e where e: "e \<in> set (behind p b)" "r \<in> set (snd e)" by auto
  let ?m = "opposite (o_side (heap b p)) b"
  have best: "best_level (o_side (heap b p)) ?m = Some (k, qs)" using pre by (simp add: round_pre_def)
  have find: "map_find ?m (fst e) = Some (snd e)"
    using e(1) list.set_sel(2) round_ranked[OF pre] ranked_find[OF round_map_inv[OF pre]]
    by (metis behind_def list.set_intros(2))
  have "fst e \<noteq> k" using ranked_tl_key[OF round_map_inv[OF pre] best] e(1) by (simp add: behind_def)
  then have "r \<notin> set qs" using round_outside_level[OF pre find e(2)] by blast
  moreover have "r \<noteq> p" using round_not_incoming[OF pre find e(2)] by blast
  ultimately show "heap (match_round now p k qs b) r = heap b r"
    using round_untouched[OF round_level_pre[OF pre]] by blast
qed

lemma round_no_match:
  assumes "round_pre X p k qs b"
  shows "no_match (heap (match_round now p k qs b) p) x = no_match (heap b p) x"
    "o_side (heap (match_round now p k qs b) p) = o_side (heap b p)"
  using same_termsD[OF round_terms[OF round_level_pre[OF assms], of p now k]]
  unfolding no_match_def by (simp_all split: OrderSide.splits)

lemma round_claims_nonzero:
  assumes "round_pre X p k qs b"
  shows "\<forall>f \<in> set (claims b qs). snd f \<noteq> 0"
  using round_level_pre[OF assms] by (auto simp: claims_def level_pre_def unat_gt_0)

text \<open>
  The eligible part of the queue and the part behind it: the round serves the best level, and the
  rest of the queue stays as it was.
\<close>

definition admitted :: "OrderPtr \<Rightarrow> book \<Rightarrow> OrderPtr list" where
  "admitted p b = concat (map snd (takeWhile (\<lambda>e. \<not> no_match (heap b p) (fst e)) (behind p b)))"

lemma round_eligible:
  assumes pre: "round_pre X p k qs b" and m: "\<not> no_match (heap b p) k"
  shows "eligible p b = qs @ admitted p b"
    "queue (o_side (heap b p)) b = qs @ concat (map snd (behind p b))"
    "eligible p (match_round now p k qs b) = fst (match_level now p qs b) @ admitted p b"
    "queue (o_side (heap b p)) (match_round now p k qs b) =
       fst (match_level now p qs b) @ concat (map snd (behind p b))"
  using m by (simp_all add: eligible_def queue_def admitted_def round_ranked[OF pre]
      round_ranked_after[OF pre] round_no_match[OF pre])

lemma admitted_behind: "set (admitted p b) \<subseteq> set (concat (map snd (behind p b)))"
  unfolding admitted_def by (auto dest: set_takeWhileD)

subsection \<open>The refinement\<close>

definition allocates :: "(nat \<Rightarrow> time) \<Rightarrow> OrderPtr \<Rightarrow> book \<Rightarrow> book \<Rightarrow> bool" where
  "allocates now p b c \<longleftrightarrow>
     (let n = unat (rem_qty b p); Q = claims b (eligible p b); sd = o_side (heap b p)
      in pending_trades c = pending_trades b @
           trade_records now p b (length (pending_trades b)) (greedy n Q) \<and>
         unat (rem_qty c p) = n - sum_list (map snd Q) \<and>
         claims c (queue sd c) = leftover n Q @ claims b (drop (length Q) (queue sd b)))"

lemma allocates_stop:
  assumes "match_stops p b"
  shows "allocates now p b b"
proof -
  let ?sd = "o_side (heap b p)"
  have pre: "take (length (eligible p b)) (queue ?sd b) = eligible p b"
    unfolding eligible_def queue_def
    by (metis append_eq_conv_conj concat_append map_append takeWhile_dropWhile_id)
  show ?thesis
  proof (cases "rem_qty b p = 0")
    case True
    have "claims b (queue ?sd b) =
        claims b (eligible p b) @ claims b (drop (length (eligible p b)) (queue ?sd b))"
      by (metis append_take_drop_id claims_append pre)
    with True show ?thesis by (simp add: allocates_def)
  next
    case False
    with assms have "eligible p b = []"
      by (auto simp: match_stops_def eligible_def best_ranked split: list.splits)
    then show ?thesis by (simp add: allocates_def claims_def)
  qed
qed

lemma allocates_round:
  assumes pre: "round_pre X p k qs b" and m: "\<not> no_match (heap b p) k"
    and IH: "allocates now p (match_round now p k qs b) c"
  shows "allocates now p b c"
proof -
  let ?b = "match_round now p k qs b" and ?sd = "o_side (heap b p)" and ?n = "unat (rem_qty b p)"
  let ?qs' = "fst (match_level now p qs b)" and ?s = "sum_list (map snd (claims b qs))"
  note lp = round_level_pre[OF pre] and nz = round_claims_nonzero[OF pre]
  note lvl = match_level_greedy[OF lp, of now, folded match_round_fields(1)[of now p k qs b]]
  note parts = round_eligible[OF pre m]
  have cl': "claims ?b ?qs' = leftover ?n (claims b qs)"
    using lvl by (simp add: claims_def match_round_fields)
  have len: "length (leftover ?n (claims b qs)) = length ?qs'"
    using arg_cong[OF cl', of length] by simp
  have rem': "unat (rem_qty ?b p) = ?n - ?s" using lvl by (simp add: match_round_fields)
  have tr': "pending_trades ?b = pending_trades b @
      trade_records now p b (length (pending_trades b)) (greedy ?n (claims b qs))"
    using lvl by (simp add: match_round_fields)
  have adm: "claims ?b (admitted p b) = claims b (admitted p b)"
    using round_behind_claims[OF pre admitted_behind] .
  have recs: "trade_records now p ?b i fs = trade_records now p b i fs" for i fs
    by (rule trade_records_cong[OF round_terms[OF lp]]) (simp add: match_round_fields lp)
  have beh: "claims ?b (drop j (concat (map snd (behind p b)))) =
      claims b (drop j (concat (map snd (behind p b))))" for j
    by (rule round_behind_claims[OF pre set_drop_subset])
  have empty: "?qs' = [] \<longleftrightarrow> ?s \<le> ?n"
    using cl' leftover_empty[OF nz, of ?n] by (metis claims_empty)
  have fewer: "greedy (?n - ?s) (claims ?b ?qs' @ Q) = greedy (?n - ?s) Q" for Q
    using empty leftover_empty[OF nz, of ?n] by (cases "?s \<le> ?n") (simp_all add: claims_def)
  note IH' = IH[unfolded allocates_def Let_def parts(3,4) rem' tr' recs round_no_match(2)[OF pre]
      claims_append adm fewer]
  show ?thesis
    unfolding allocates_def Let_def parts(1,2) claims_append
  proof (intro conjI)
    show "pending_trades c = pending_trades b @ trade_records now p b (length (pending_trades b))
        (greedy ?n (claims b qs @ claims b (admitted p b)))"
      using IH' by (simp add: greedy_append trade_records_append)
    show "unat (rem_qty c p) = ?n - sum_list (map snd (claims b qs @ claims b (admitted p b)))"
      using IH' empty by (cases "?s \<le> ?n") simp_all
    show "claims c (queue ?sd c) = leftover ?n (claims b qs @ claims b (admitted p b)) @
        claims b (drop (length (claims b qs @ claims b (admitted p b))) (qs @ concat (map snd (behind p b))))"
      using IH' empty beh[of "length (admitted p b)"] cl'
      by (cases "?s \<le> ?n") (simp_all add: leftover_append[OF nz] len)
  qed
qed

lemma matchOrder_allocates:
  assumes "match_pre X p b"
  shows "\<exists>b'. matchOrder now p b = Some b' \<and> allocates now p b b'"
  using assms by (induction rule: matchOrder_induct) (auto intro: allocates_stop allocates_round)

end
