(* ===== verification/Stop_Orders.thy ===== *)
theory Stop_Orders
  imports Price_Time
begin

text \<open>
  Which stop orders a call triggers: when \<^verbatim>\<open>processStopOrders\<close> returns, no waiting stop level is
  reached by any price it was called with or by any trade of the cascade it caused, and only
  levels that such a price reaches have left the book.
\<close>

definition trades_since :: "book \<Rightarrow> book \<Rightarrow> trade list" where
  "trades_since b c = drop (length (pending_trades b)) (pending_trades c)"

definition unreached :: "double set \<Rightarrow> book \<Rightarrow> bool" where
  "unreached xs b \<longleftrightarrow>
     (\<forall>sd k ps. map_find (stops sd b) k = Some ps \<longrightarrow> (\<forall>x \<in> xs. \<not> triggers sd k x))"

definition released_by :: "double set \<Rightarrow> book \<Rightarrow> book \<Rightarrow> bool" where
  "released_by xs b c \<longleftrightarrow>
     (\<forall>sd k ps. map_find (stops sd b) k = Some ps \<longrightarrow>
        map_find (stops sd c) k = Some ps \<or> (\<exists>x \<in> xs. triggers sd k x))"

definition keeps_stops :: "book \<Rightarrow> book \<Rightarrow> bool" where
  "keeps_stops b c \<longleftrightarrow>
     (\<forall>sd k ps. map_find (stops sd c) k = Some ps \<longrightarrow> map_find (stops sd b) k = Some ps)"

lemma released_by_trans:
  "released_by xs a b \<Longrightarrow> released_by ys b c \<Longrightarrow> released_by (xs \<union> ys) a c"
  unfolding released_by_def by blast

lemma unreached_shrinks: "unreached xs b \<Longrightarrow> keeps_stops b c \<Longrightarrow> unreached xs c"
  unfolding unreached_def keeps_stops_def by blast

lemma unreached_union: "unreached (xs \<union> ys) b \<longleftrightarrow> unreached xs b \<and> unreached ys b"
  unfolding unreached_def by blast

lemma stops_cong:
  "stop_buy_orders c = stop_buy_orders b \<Longrightarrow> stop_sell_orders c = stop_sell_orders b \<Longrightarrow> stops sd c = stops sd b"
  by (cases sd) (simp_all add: stops_def)

lemma pop_keeps_stops: "pop_pre X sd k ps b \<Longrightarrow> keeps_stops b (pop_level sd k ps b)"
  unfolding keeps_stops_def
proof (intro allI impI)
  fix sd' k' rs
  assume pre: "pop_pre X sd k ps b" and "map_find (stops sd' (pop_level sd k ps b)) k' = Some rs"
  then show "map_find (stops sd' b) k' = Some rs"
    using pop_level_fields(5,6)[OF pre]
    by (cases sd; cases sd') (auto simp: map_find_erase split: if_splits)
qed

lemma round_stops: "round_pre X p k qs b \<Longrightarrow> stops sd (match_round now p k qs b) = stops sd b"
  by (rule stops_cong) (simp_all add: match_round_fields round_level_pre)

lemma settle_stops [simp]: "stops sd (settle p b) = stops sd b"
  by (rule stops_cong) simp_all

interpretation stops: matching_relation keeps_stops
proof unfold_locales
  show "keeps_stops a c" if "keeps_stops a b" "keeps_stops b c" for a b c
    using that unfolding keeps_stops_def by blast
qed (auto simp: keeps_stops_def round_stops pop_keeps_stops[unfolded keeps_stops_def])

lemma pops_released:
  assumes "pops prices s t"
  shows "released_by (set prices) (fst s) (fst t)"
  using assms
proof (induction rule: pops.induct)
  case (pops_refl bt)
  then show ?case by (simp add: released_by_def)
next
  case (pops_step b tr sd k ps price bt')
  then have pre: "pop_pre (set tr) sd k ps b" by (simp add: pop_pre_def flight_inv_def)
  have "map_find (stops sd' (pop_level sd k ps b)) k' = Some rs \<or> sd' = sd \<and> k' = k"
    if "map_find (stops sd' b) k' = Some rs" for sd' k' rs
    using that pop_level_fields(5,6)[OF pre] by (cases sd; cases sd') (auto simp: map_find_erase)
  then have "released_by (set prices) b (pop_level sd k ps b)"
    using pops_step(3,4) unfolding released_by_def by blast
  from released_by_trans[OF this pops_step.IH[unfolded fst_conv]] show ?case by simp
qed

lemma triggered_stops:
  assumes "process_triggered now ps b = Some c" and "flight_inv b ps"
  shows "stops sd c = stops sd b" "pending_trades c = pending_trades b @ trades_since b c"
proof -
  show "stops sd c = stops sd b" using process_triggered_inv[OF assms] by (intro stops_cong) blast+
  show "pending_trades c = pending_trades b @ trades_since b c"
    using recorded.R_triggered[OF assms] by (auto simp: recorded_def trades_since_def)
qed

lemma insort_insert_set [simp]: "set (insort_insert x xs) = insert x (set xs)"
  by (simp add: insort_insert_key_def set_insort_key insert_absorb)

lemma set_price_set [simp]: "set (price_set ts) = t_price ` set ts"
proof -
  have "set (fold (\<lambda>t. insort_insert (t_price t)) ts acc) = t_price ` set ts \<union> set acc" for acc
    by (induction ts arbitrary: acc) auto
  then show ?thesis by (simp add: price_set_def)
qed

definition reaching :: "double list \<Rightarrow> book \<Rightarrow> book \<Rightarrow> double set" where
  "reaching prices b c = set prices \<union> t_price ` set (trades_since b c)"

lemma pops_trades: "pops prices s t \<Longrightarrow> pending_trades (fst t) = pending_trades (fst s)"
  using pops_frame by blast

lemma trades_since_trans:
  assumes "pending_trades b2 = pending_trades b1 @ ts" and "pending_trades b1 = pending_trades b"
    and "pending_trades b' = pending_trades b2 @ us"
  shows "trades_since b b' = ts @ us" "trades_since b2 b' = us" "trades_since b b2 = ts"
    "drop (length (pending_trades b1)) (pending_trades b2) = ts"
  using assms by (simp_all add: trades_since_def)

lemma stops_extend: "processStopOrders now prices b = Some b' \<Longrightarrow> book_inv b \<Longrightarrow>
    \<exists>ts. pending_trades b' = pending_trades b @ ts"
  using recorded.R_stops by (fastforce simp: recorded_def)

lemma processStopOrders_exact:
  assumes "book_inv b"
  shows "\<exists>b'. processStopOrders now prices b = Some b' \<and>
    (\<exists>us. pending_trades b' = pending_trades b @ us) \<and> keeps_stops b b' \<and>
    unreached (reaching prices b b') b' \<and> released_by (reaching prices b b') b b'"
  using assms
proof (induction rule: processStopOrders_induct)
  case (Quiet prices b b1)
  have fl: "flight_inv b []" using Quiet(1) by (simp add: flight_inv_def)
  have "reaching prices b b1 = set prices" "pending_trades b1 = pending_trades b"
    using pops_trades[OF Quiet(2)] by (simp_all add: reaching_def trades_since_def)
  moreover have "unreached (set prices) b1"
    using trigger_stops_pops[OF fl, of prices] Quiet(3) by (auto simp: unreached_def)
  ultimately show ?case using pops_released[OF Quiet(2)] stops.R_pops[OF Quiet(2)] by simp
next
  case (Once prices b b1 ps b2)
  note tr = triggered_stops[OF Once(6,5)]
  have fl: "flight_inv b []" using Once(1) by (simp add: flight_inv_def)
  from tr(2) Once(8) have same: "pending_trades b2 = pending_trades b1"
    by (metis append_Nil2 le_antisym le_add1 length_append length_0_conv add_cancel_right_right)
  have "reaching prices b b2 = set prices" "pending_trades b2 = pending_trades b"
    using pops_trades[OF Once(2)] by (simp_all add: reaching_def trades_since_def same)
  moreover have "unreached (set prices) b1"
    using trigger_stops_pops[OF fl, of prices] Once(3) by (auto simp: unreached_def)
  ultimately show ?case
    using pops_released[OF Once(2)] stops.R_pops[OF Once(2)]
    by (simp add: unreached_def released_by_def keeps_stops_def tr(1))
next
  case (Cascade prices b b1 ps b2 b')
  note tr = triggered_stops[OF Cascade(6,5)]
  have fl: "flight_inv b []" using Cascade(1) by (simp add: flight_inv_def)
  from Cascade(9) obtain us where us: "pending_trades b' = pending_trades b2 @ us" by blast
  have b1: "pending_trades b1 = pending_trades b" using pops_trades[OF Cascade(2)] by simp
  note since = trades_since_trans[OF tr(2) b1 us]
  let ?prices = "price_set (drop (length (pending_trades b1)) (pending_trades b2))"
  have split: "reaching prices b b' = set prices \<union> reaching ?prices b2 b'"
    unfolding reaching_def since set_price_set by auto
  have "unreached (set prices) b2" "released_by (set prices) b b2" "keeps_stops b b2"
    using trigger_stops_pops[OF fl, of prices] Cascade(3) pops_released[OF Cascade(2)]
      stops.R_pops[OF Cascade(2)]
    by (auto simp: unreached_def released_by_def keeps_stops_def tr(1))
  moreover have "keeps_stops b2 b'" "unreached (reaching ?prices b2 b') b'" "released_by (reaching ?prices b2 b') b2 b'"
    using Cascade(9) by blast+
  ultimately have "unreached (reaching prices b b') b'" "released_by (reaching prices b b') b b'" "keeps_stops b b'"
    unfolding split unreached_union by (blast intro: released_by_trans unreached_shrinks stops.R_trans)+
  moreover have "pending_trades b' = pending_trades b @ trades_since b1 b2 @ us"
    using us b1 tr(2) by simp
  ultimately show ?case by blast
qed

text \<open>A whole call with an order that is not itself a stop order.\<close>

lemma enter_stops [simp]: "stops sd (enter p b) = stops sd b"
  by (rule stops_cong) (simp_all add: enter_def)

lemma accepted_stops:
  assumes ent: "entered p (enter p b)" and run: "process_new now p (enter p b) = Some b'"
    and ns: "\<not> isStopOrder (heap b p)"
  shows "unreached (t_price ` set (pending_trades b')) b' \<and>
    released_by (t_price ` set (pending_trades b')) b b' \<and> keeps_stops b b'"
proof (cases rule: process_new_cases[OF ent, of now])
  case 1
  with ns show ?thesis by simp
next
  case (2 b1)
  have "stops sd (settle p b1) = stops sd b" for sd
    using matchOrder_frame[OF 2(2) entered_match_pre[OF ent]] stops_cong[of b1 "enter p b" sd] by simp
  with 2 run show ?thesis by (simp add: unreached_def released_by_def keeps_stops_def)
next
  case (3 b1 b2)
  have same: "stops sd (settle p b1) = stops sd b" for sd
    using matchOrder_frame[OF 3(2) entered_match_pre[OF ent]] stops_cong[of b1 "enter p b" sd] by simp
  from 3 run have "b2 = b'" by simp
  with processStopOrders_exact[OF 3(4), of now "price_set (pending_trades b1)"] 3(5) obtain us where
    us: "pending_trades b' = pending_trades b1 @ us" and keeps: "keeps_stops (settle p b1) b'"
    and ex: "unreached (reaching (price_set (pending_trades b1)) (settle p b1) b') b'"
      "released_by (reaching (price_set (pending_trades b1)) (settle p b1) b') (settle p b1) b'"
    by auto
  have "reaching (price_set (pending_trades b1)) (settle p b1) b' = t_price ` set (pending_trades b')"
    by (simp add: reaching_def trades_since_def us image_Un)
  with ex keeps show ?thesis unfolding released_by_def keeps_stops_def same by auto
qed

end
