(* ===== verification/Order_Life.thy ===== *)
theory Order_Life
  imports Stop_Orders
begin

text \<open>
  What becomes of the orders during a call: an order that leaves the index is closed, which is to
  say filled with nothing left or a market order whose remainder was cancelled, and an
  order that is not in the index is never written.
\<close>

definition order_closed :: "order \<Rightarrow> bool" where
  "order_closed ord \<longleftrightarrow> o_status ord = FILLED \<and> o_remaining ord = 0 \<or> o_status ord = CANCELED \<and> o_type ord = MARKET"

definition life :: "book \<Rightarrow> book \<Rightarrow> bool" where
  "life b c \<longleftrightarrow>
     (\<forall>r. (indexed b r \<and> \<not> indexed c r \<longrightarrow> order_closed (heap c r)) \<and>
          (\<not> indexed b r \<longrightarrow> \<not> indexed c r \<and> heap c r = heap b r))"

lemma life_refl: "life b b"
  by (simp add: life_def)

lemma life_trans: "life a b \<Longrightarrow> life b c \<Longrightarrow> life a c"
  unfolding life_def by metis

lemma life_same_index:
  assumes "orders_by_id c = orders_by_id b" and "\<And>r. o_id (heap c r) = o_id (heap b r)"
    and "\<And>r. \<not> indexed b r \<Longrightarrow> heap c r = heap b r"
  shows "life b c"
  using assms by (simp add: life_def indexed_def)

text \<open>Exactly one registered order is dropped from the index.\<close>

lemma life_drop:
  assumes "indexed b q" and "orders_by_id c = (orders_by_id b)(o_id (heap b q) := None)"
    and "\<And>r. o_id (heap c r) = o_id (heap b r)" and "\<And>r. \<not> indexed b r \<Longrightarrow> heap c r = heap b r"
    and "order_closed (heap c q)"
  shows "life b c"
  unfolding life_def
proof (intro allI conjI impI)
  fix r
  have idx: "indexed c r \<longleftrightarrow> indexed b r \<and> o_id (heap b r) \<noteq> o_id (heap b q)"
    using assms(2,3) by (simp add: indexed_def)
  show "order_closed (heap c r)" if "indexed b r \<and> \<not> indexed c r"
    using that idx index_inj[of b r q] assms(1,5) by (cases "r = q") (auto simp: indexed_def)
  show "\<not> indexed c r" "heap c r = heap b r" if "\<not> indexed b r"
    using that idx assms(4) by simp_all
qed

lemma level_indexed: "level_pre p (q # qs) b \<Longrightarrow> indexed b p \<and> indexed b q"
  by (simp add: level_pre_def indexed_def)

lemma match_level_life:
  assumes "level_pre p qs b"
  shows "life b (snd (match_level now p qs b))"
  using assms
proof (induction rule: match_level_induct[where now = now])
  case (Part q qs b)
  show ?case
    by (rule life_same_index) (use level_indexed[OF Part(1)] in \<open>auto simp: part_fill_eq[OF Part]\<close>)
next
  case (Full q qs b qs' b')
  have "life b (full_fill now p q b)"
    by (rule life_drop[of b q])
      (use level_indexed[OF Full(1)] in \<open>auto simp: full_fill_eq[OF Full(1-3)] order_closed_def\<close>)
  then show ?case using Full(4) by (rule life_trans)
qed (simp_all add: life_refl)

lemma round_life: "round_pre X p k qs b \<Longrightarrow> life b (match_round now p k qs b)"
  using match_level_life[OF round_level_pre, of X p k qs b now]
  unfolding life_def indexed_def match_round_fields by blast

lemma settle_life:
  assumes "match_pre X p b"
  shows "life b (settle p b)"
proof -
  from assms have idx: "indexed b p" and live: "live (heap b p)" by (simp_all add: match_pre_def)
  consider "settle p b = addOrderToBook p b"
    | "rem_qty b p = 0" "settle p b = erase_id p b"
    | "rem_qty b p \<noteq> 0" "o_type (heap b p) = MARKET"
      "settle p b = erase_id p (set_order p (snd (cancel (heap b p))) b)"
    using live unfolding settle_def u32_positive_iff live_def active_iff
    by (cases "rem_qty b p = 0"; cases "o_type (heap b p) = MARKET") simp_all
  then show ?thesis
  proof cases
    case 1
    show ?thesis unfolding 1
      by (rule life_same_index) (simp_all add: addOrderToBook_def split: OrderSide.splits)
  next
    case 2
    show ?thesis unfolding 2(2)
      by (rule life_drop[OF idx]) (use 2(1) live in \<open>simp_all add: erase_id_def order_closed_def live_def\<close>)
  next
    case 3
    then have "o_status (snd (cancel (heap b p))) = CANCELED"
      using live by (simp add: cancel_def live_def active_iff)
    with 3(2) show ?thesis unfolding 3(3)
      by (intro life_drop[OF idx]) (use idx in \<open>auto simp: erase_id_def order_closed_def\<close>)
  qed
qed

lemma pop_life: "pop_pre X sd k ps b \<Longrightarrow> life b (pop_level sd k ps b)"
proof (rule life_same_index)
  fix r assume pre: "pop_pre X sd k ps b" and "\<not> indexed b r"
  then have "r \<notin> set ps" using pop_preD(2)[OF pre] by (auto simp: waits_def open_order_def)
  then show "heap (pop_level sd k ps b) r = heap b r" by (simp add: pop_level_fields[OF pre])
qed (simp_all add: pop_level_fields)

interpretation life: engine_relation life
  by unfold_locales
    (auto intro: life_refl life_trans round_life settle_life pop_life life_same_index
      simp: addStopOrder_stops)

lemma accepted_life:
  assumes ent: "entered p (enter p b)" and run: "process_new now p (enter p b) = Some b'" and inv: "book_inv b'"
  shows "r = p \<or> in_book b r \<Longrightarrow> in_book b' r \<and> open_order b' r \<or> \<not> in_book b' r \<and> order_closed (heap b' r)"
    "r \<noteq> p \<Longrightarrow> \<not> in_book b r \<Longrightarrow> heap b' r = heap b r \<and> \<not> in_book b' r"
proof -
  have life: "life (enter p b) b'" using life.R_new[OF run ent] .
  have idx: "indexed b' r \<longleftrightarrow> in_book b' r"
    using in_book_open[OF inv, of r] known_order(2)[OF inv, of "o_id (heap b' r)" r]
    unfolding open_order_def indexed_def by blast
  show "in_book b' r \<and> open_order b' r \<or> \<not> in_book b' r \<and> order_closed (heap b' r)" if "r = p \<or> in_book b r"
    using life that enter_indexed[OF ent, of r] in_book_open[OF inv, of r] idx unfolding life_def by blast
  show "heap b' r = heap b r \<and> \<not> in_book b' r" if "r \<noteq> p" "\<not> in_book b r"
    using life that enter_indexed[OF ent, of r] idx unfolding life_def by simp
qed

end
