(* ===== verification/Market_Data.thy ===== *)
theory Market_Data
  imports Book_Api
begin

text \<open>
  The market data queries of \<^verbatim>\<open>OrderBook\<close>: \<^verbatim>\<open>getBidLevels\<close>, \<^verbatim>\<open>getAskLevels\<close> and the best prices and
  volumes, against the levels they summarise.
\<close>

lemma level_quantity_acc: "level_quantity acc ps b = acc + (\<Sum>p\<leftarrow>ps. rem_qty b p)"
  by (induction ps arbitrary: acc) (simp_all add: add.assoc)

definition open_quantity :: "book \<Rightarrow> OrderPtr list \<Rightarrow> nat" where
  "open_quantity b ps = (\<Sum>p\<leftarrow>ps. unat (rem_qty b p))"

lemma sum_words: "(\<Sum>p\<leftarrow>ps. f p) = (of_nat (\<Sum>p\<leftarrow>ps. unat (f p)) :: u32)"
  by (induction ps) simp_all

text \<open>The reported quantity is the open quantity of the level modulo \<open>2\<^sup>3\<^sup>2\<close>.\<close>

lemma unat_level_quantity: "unat (level_quantity 0 ps b) = open_quantity b ps mod 2 ^ 32"
  unfolding level_quantity_acc sum_words open_quantity_def
  by (simp add: unsigned_of_nat take_bit_eq_mod)

lemma calculatePriceLevels_eq:
  "calculatePriceLevels m depth count b =
     map (\<lambda>(k, ps). \<lparr>l_price = k, l_quantity = level_quantity 0 ps b,
                    l_order_count = sint (of_nat (length ps) :: u32)\<rparr>) (take (nat (depth - count)) m)"
proof (induction m depth count b rule: calculatePriceLevels.induct)
  case (2 k ps m depth count b)
  show ?case
  proof (cases "count < depth")
    case True
    then have "nat (depth - count) = Suc (nat (depth - (count + 1)))" by simp
    with 2[OF True] True show ?thesis by simp
  qed simp
qed simp

lemma sint_small: "n < 2 ^ 31 \<Longrightarrow> sint (of_nat n :: u32) = int n"
  by (simp add: signed_of_nat signed_take_bit_int_eq_self_iff)

text \<open>What a level reports when its open quantity and its number of orders fit their fields.\<close>

definition summary :: "book \<Rightarrow> double \<times> OrderPtr list \<Rightarrow> double \<times> nat \<times> int" where
  "summary b e = (fst e, open_quantity b (snd e), int (length (snd e)))"

definition report :: "PriceLevel \<Rightarrow> double \<times> nat \<times> int" where
  "report l = (l_price l, unat (l_quantity l), l_order_count l)"

definition fits :: "book \<Rightarrow> levels \<Rightarrow> bool" where
  "fits b m \<longleftrightarrow> (\<forall>e \<in> set m. open_quantity b (snd e) < 2 ^ 32 \<and> length (snd e) < 2 ^ 31)"

lemma report_levels:
  assumes "fits b m"
  shows "map report (calculatePriceLevels m depth 0 b) = map (summary b) (take (nat depth) m)"
  unfolding calculatePriceLevels_eq map_map
proof (rule map_cong)
  fix e assume "e \<in> set (take (nat depth) m)"
  then have "e \<in> set m" by (rule in_set_takeD)
  with assms have "open_quantity b (snd e) < 2 ^ 32" "length (snd e) < 2 ^ 31" by (simp_all add: fits_def)
  then show "(report \<circ> (\<lambda>(k, ps). \<lparr>l_price = k, l_quantity = level_quantity 0 ps b,
      l_order_count = sint (of_nat (length ps) :: u32)\<rparr>)) e = summary b e"
    by (simp add: case_prod_beta report_def summary_def unat_level_quantity sint_small)
qed simp

lemma fits_rev [simp]: "fits b (rev m) = fits b m"
  by (simp add: fits_def)

text \<open>The best bid and ask, and that the spread is positive.\<close>

lemma best_quotes:
  assumes "book_inv b" and "bids b \<noteq> []" and "asks b \<noteq> []"
  shows "getBestBidPrice b < getBestAskPrice b"
proof -
  from assms(2) obtain x qs where x: "map_last (bids b) = Some (x, qs)"
    by (cases "map_last (bids b)") auto
  from assms(3) obtain y rs where y: "map_first (asks b) = Some (y, rs)"
    by (cases "map_first (asks b)") auto
  have "map_inv (bids b)" using book_invD(1)[OF assms(1)] by (simp add: levels_ok_def)
  then have "map_find (bids b) x = Some qs" using x by (rule map_last_find)
  moreover have "map_find (asks b) y = Some rs" using y by (rule map_first_find)
  ultimately have "x < y" using book_invD(6)[OF assms(1)] by (simp add: uncrossed_def)
  with x y show ?thesis by (simp add: getBestBidPrice_def getBestAskPrice_def)
qed

lemma bid_prices_descend:
  assumes "book_inv b"
  shows "sorted_wrt (>) (map l_price (getBidLevels depth b))"
    "sorted_wrt (<) (map l_price (getAskLevels depth b))"
proof -
  have "map l_price (calculatePriceLevels m depth 0 b) = take (nat depth) (map fst m)" for m
    by (simp add: calculatePriceLevels_eq take_map case_prod_beta comp_def)
  moreover have "sorted_wrt (<) (map fst (bids b))" "sorted_wrt (<) (map fst (asks b))"
    using book_invD(1,2)[OF assms] by (simp_all add: levels_ok_def map_inv_def)
  ultimately show "sorted_wrt (>) (map l_price (getBidLevels depth b))"
    "sorted_wrt (<) (map l_price (getAskLevels depth b))"
    by (simp_all add: getBidLevels_def getAskLevels_def sorted_wrt_take rev_map[symmetric] sorted_wrt_rev)
qed

end
