(* ===== verification/Scenario.thy ===== *)
theory Scenario
  imports Order_Life Market_Data
begin

text \<open>
  A concrete session on which the properties of the order book are evaluated: three resting sell
  orders and a waiting buy stop order, and an incoming buy order that consumes a level, trades
  with the next one and sets the stop order off.
\<close>

definition sc_now :: "nat \<Rightarrow> time" where
  "sc_now k = 1000 + int k"

definition sc_order :: "string \<Rightarrow> OrderSide \<Rightarrow> OrderType \<Rightarrow> double \<Rightarrow> double \<Rightarrow> u32 \<Rightarrow> order" where
  "sc_order i sd ty pr sp qty = new_order 0 i sd pr qty ''ACME'' ''client'' ty sp"

definition sc_heap :: "OrderPtr \<Rightarrow> order" where
  "sc_heap p =
     (if p = 1 then sc_order ''a'' SELL LIMIT 10 0 5
      else if p = 2 then sc_order ''b'' SELL LIMIT 10 0 3
      else if p = 3 then sc_order ''c'' SELL LIMIT 11 0 4
      else if p = 4 then sc_order ''d'' BUY STOP 0 11 2
      else if p = 5 then sc_order ''e'' BUY LIMIT 11 0 9
      else sc_order ''f'' BUY LIMIT 9 0 7)"

fun submit_all :: "OrderPtr list \<Rightarrow> book \<Rightarrow> book" where
  "submit_all [] b = b"
| "submit_all (p # ps) b =
     submit_all ps (case addOrder sc_now (Some p) b of Some (ok, evs, b') \<Rightarrow> b' | None \<Rightarrow> b)"

definition sc_empty :: book where
  "sc_empty = setOrderCallback (setTradeCallback (new_book ''ACME'' (1 / 100) sc_heap))"

definition sc_book :: book where
  "sc_book = submit_all [1, 2, 3, 4, 6] sc_empty"

definition sc_after :: book where
  "sc_after = submit_all [5] sc_book"

lemma sc_empty_inv: "book_inv sc_empty"
  by (simp add: sc_empty_def setOrderCallback_def setTradeCallback_def book_inv_fields new_book_inv)

fun all_ready :: "OrderPtr list \<Rightarrow> book \<Rightarrow> bool" where
  "all_ready [] b = True"
| "all_ready (p # ps) b =
     (active (heap b p) \<and> wf_order (heap b p) \<and> all_ready ps (submit_all [p] b))"

lemma submit_all_inv: "book_inv b \<Longrightarrow> all_ready ps b \<Longrightarrow> book_inv (submit_all ps b)"
proof (induction ps arbitrary: b)
  case (Cons p ps)
  then have "active (heap b p)" "wf_order (heap b p)" by simp_all
  then have "book_inv (submit_all [p] b)"
    by (rule addOrder_run[OF Cons.prems(1), of p sc_now]) simp_all
  with Cons show ?case by simp
qed simp

lemma sc_book_inv: "book_inv sc_book"
  unfolding sc_book_def
proof (rule submit_all_inv[OF sc_empty_inv])
  show "all_ready [1, 2, 3, 4, 6] sc_empty" by code_simp
qed

lemma sc_book_facts:
  "heap sc_book 5 = sc_order ''e'' BUY LIMIT 11 0 9" "orders_by_id sc_book ''e'' = None"
  "bids sc_book = [(9, [6])]" "asks sc_book = [(10, [1, 2]), (11, [3])]"
  "stop_buy_orders sc_book = [(11, [4])]" "stop_sell_orders sc_book = []"
  "orders_by_id sc_book ''a'' = Some 1" "orders_by_id sc_book ''f'' = Some 6"
  "order_callback sc_book" "trade_callback sc_book" "symbol sc_book = ''ACME''"
  by code_simp+

lemma sc_ready: "active (heap sc_book 5)" "wf_order (heap sc_book 5)" "rem_qty sc_book 5 \<noteq> 0"
  "acceptable 5 sc_book"
  by code_simp+

lemma sc_run: "addOrder sc_now (Some 5) sc_book = Some (True, callbacks 5 sc_after, sc_after)"
  by (rule addOrder_run[OF sc_book_inv sc_ready(1,2), of sc_now])
    (simp_all add: sc_ready sc_after_def)

lemma sc_trades:
  "map (\<lambda>t. (t_buy_order_id t, t_sell_order_id t, t_price t, t_quantity t)) (pending_trades sc_after) =
     [(''e'', ''a'', 10, 5), (''e'', ''b'', 10, 3), (''e'', ''c'', 11, 1), (''d'', ''c'', 11, 2)]"
  by code_simp

end
