(* ===== verification/Book_Theorems.thy ===== *)
theory Book_Theorems
  imports Scenario
begin

text \<open>
  The properties of the order book, each stated over the operations of \<^verbatim>\<open>OrderBook\<close> and instantiated on
  the session of the theory \<open>Scenario\<close>.
\<close>

subsection \<open>Matching\<close>

text \<open>
  C1. Price-time priority. Matching an order that is registered and in no level always returns, and
  it trades exactly as the greedy allocation does: the orders of the opposite side that its limit
  admits, best price first and oldest first within a price, are served in turn until its quantity
  is used up, at their own prices; nothing else of that side of the book changes.
\<close>

theorem matchOrder_price_time:
  assumes "match_pre X p b"
  shows "\<exists>b'. matchOrder now p b = Some b' \<and>
    (let n = unat (rem_qty b p); Q = claims b (eligible p b); sd = o_side (heap b p)
     in pending_trades b' = pending_trades b @
          trade_records now p b (length (pending_trades b)) (greedy n Q) \<and>
        unat (rem_qty b' p) = n - sum_list (map snd Q) \<and>
        claims b' (queue sd b') = leftover n Q @ claims b (drop (length Q) (queue sd b)))"
  using matchOrder_allocates[OF assms, of now] unfolding allocates_def .

theorem matchOrder_price_time_witness:
  "\<exists>b'. matchOrder sc_now 5 (enter 5 sc_book) = Some b' \<and>
     claims b' (queue BUY b') = [(3, 3)] \<and> unat (rem_qty b' 5) = 0"
proof -
  have "entered 5 (enter 5 sc_book)"
    using enter_entered[OF sc_book_inv sc_ready(4,1,2)] .
  from matchOrder_price_time[OF entered_match_pre[OF this], of sc_now] obtain b' where
    run: "matchOrder sc_now 5 (enter 5 sc_book) = Some b'"
    and cl: "claims b' (queue (o_side (heap (enter 5 sc_book) 5)) b') =
      leftover (unat (rem_qty (enter 5 sc_book) 5)) (claims (enter 5 sc_book) (eligible 5 (enter 5 sc_book))) @
      claims (enter 5 sc_book) (drop (length (claims (enter 5 sc_book) (eligible 5 (enter 5 sc_book))))
        (queue (o_side (heap (enter 5 sc_book) 5)) (enter 5 sc_book)))"
    and rem: "unat (rem_qty b' 5) = unat (rem_qty (enter 5 sc_book) 5) -
      sum_list (map snd (claims (enter 5 sc_book) (eligible 5 (enter 5 sc_book))))"
    unfolding Let_def by blast
  have "o_side (heap (enter 5 sc_book) 5) = BUY" "unat (rem_qty (enter 5 sc_book) 5) = 9"
    "eligible 5 (enter 5 sc_book) = [1, 2, 3]" "claims (enter 5 sc_book) [1, 2, 3] = [(1, 5), (2, 3), (3, 4)]"
    "queue BUY (enter 5 sc_book) = [1, 2, 3]"
    by code_simp+
  with run cl rem show ?thesis by simp
qed

subsection \<open>Whole calls\<close>

text \<open>
  C2. Submitting an active, well-formed order to a consistent book always returns, whatever
  cascade of stop orders it sets off, and leaves the book consistent; it is accepted exactly when it
  has a quantity left and its id is not in use.
\<close>

theorem addOrder_total:
  assumes "book_inv b" and "active (heap b p)" and "wf_order (heap b p)"
  shows "\<exists>ok evs b'. addOrder now (Some p) b = Some (ok, evs, b') \<and> book_inv b' \<and>
    ok = (rem_qty b p \<noteq> 0 \<and> orders_by_id b (o_id (heap b p)) = None)"
  by (rule addOrder_run[OF assms, of now]) (auto simp: acceptable_def)

theorem addOrder_total_witness:
  "\<exists>ok evs b'. addOrder sc_now (Some 5) sc_book = Some (ok, evs, b') \<and> book_inv b' \<and> ok"
  using addOrder_total[OF sc_book_inv sc_ready(1,2), of sc_now] sc_ready(4) unfolding acceptable_def by blast

text \<open>
  C5. Every state a book reaches from its construction through any sequence of submissions of
  new or restored order objects, cancellations and changes of its settings is consistent: level maps,
  id index and order objects agree, and the book is not crossed.
\<close>

theorem reachable_consistent:
  assumes "reachable_book b"
  shows "book_inv b"
  using assms by (rule reachable_inv)

text \<open>The session of the scenario, with its trades and its triggered stop order, as a run of such steps.\<close>

fun all_new :: "OrderPtr list \<Rightarrow> book \<Rightarrow> bool" where
  "all_new [] b = True"
| "all_new (p # ps) b = (orders_by_id b (o_id (heap b p)) = None \<and> all_new ps (submit_all [p] b))"

lemma submit_all_reachable:
  "reachable_book b \<Longrightarrow> all_ready ps b \<Longrightarrow> all_new ps b \<Longrightarrow> reachable_book (submit_all ps b)"
proof (induction ps arbitrary: b)
  case (Cons p ps)
  have inv: "book_inv b" using Cons.prems(1) by (rule reachable_inv)
  have ok: "active (heap b p)" "wf_order (heap b p)" using Cons.prems(2) by simp_all
  have new: "p \<notin> ran (orders_by_id b)" using known_order(1)[OF inv] Cons.prems(3) by (fastforce simp: ran_def)
  have same: "set_order p (heap b p) b = b" by simp
  obtain r evs b' where run: "addOrder sc_now (Some p) b = Some (r, evs, b')" by (rule addOrder_run[OF inv ok, of sc_now])
  then have "book_step b b'" using book_step.submit[OF new, of "heap b p" sc_now] ok same by (simp add: submittable_def)
  then have "reachable_book b'" using Cons.prems(1) reachable_book.step by blast
  then show ?case using Cons run by simp
qed simp

theorem reachable_consistent_witness:
  "book_inv (submit_all [1, 2, 3, 4, 6, 5] sc_empty) \<and>
   asks (submit_all [1, 2, 3, 4, 6, 5] sc_empty) = [(11, [3])] \<and> bids (submit_all [1, 2, 3, 4, 6, 5] sc_empty) = [(9, [6])]"
proof (intro conjI)
  have "reachable_book sc_empty"
    unfolding sc_empty_def
    by (rule reachable_book.step[OF reachable_book.step[OF reachable_book.init book_step.trade_cb] book_step.order_cb])
  moreover have "all_ready [1, 2, 3, 4, 6, 5] sc_empty" "all_new [1, 2, 3, 4, 6, 5] sc_empty" by code_simp+
  ultimately have "reachable_book (submit_all [1, 2, 3, 4, 6, 5] sc_empty)" by (rule submit_all_reachable)
  then show "book_inv (submit_all [1, 2, 3, 4, 6, 5] sc_empty)" by (rule reachable_consistent)
  show "asks (submit_all [1, 2, 3, 4, 6, 5] sc_empty) = [(11, [3])]"
    "bids (submit_all [1, 2, 3, 4, 6, 5] sc_empty) = [(9, [6])]" by code_simp+
qed

text \<open>
  C3. Quantities are conserved: when an order is accepted, what the incoming order and every order
  of the book had left before the call is what they have left after it plus what they traded in
  the call; an order outside the book loses nothing.
\<close>

theorem addOrder_conservation:
  assumes "book_inv b" and "active (heap b p)" and "wf_order (heap b p)"
    and "addOrder now (Some p) b = Some (True, evs, b')"
  shows "unat (rem_qty b r) = unat (rem_qty b' r) +
    (if r = p \<or> in_book b r then traded (o_id (heap b r)) (pending_trades b') else 0)"
  using addOrder_accepted(2,3)[OF assms] by (rule accepted_ledger)

theorem addOrder_conservation_witness:
  "unat (rem_qty sc_book 5) = unat (rem_qty sc_after 5) + traded ''e'' (pending_trades sc_after) \<and>
   traded ''e'' (pending_trades sc_after) = 9"
proof -
  have "o_id (heap sc_book 5) = ''e''" "traded ''e'' (pending_trades sc_after) = 9" by code_simp+
  then show ?thesis
    using addOrder_conservation[OF sc_book_inv sc_ready(1,2) sc_run, of 5] by simp
qed

text \<open>
  C6. Every trade of a call, those of triggered stop orders included, is for a positive quantity of
  the book's symbol between a buy and a sell order, at the price of one of the two and within the
  limit of both; and no order's terms are altered by the call.
\<close>

theorem addOrder_fair:
  assumes "book_inv b" and "active (heap b p)" and "wf_order (heap b p)"
    and "addOrder now (Some p) b = Some (True, evs, b')"
  shows "(\<forall>t \<in> set (pending_trades b'). fair_trade b t) \<and> same_contract (heap b r) (heap b' r)"
  using accepted_recorded[OF addOrder_accepted(2,3)[OF assms]] by blast

theorem addOrder_fair_witness:
  "list_all (fair_trade sc_book) (pending_trades sc_after) \<and> length (pending_trades sc_after) = 4"
proof -
  have "length (pending_trades sc_after) = 4" by code_simp
  then show ?thesis using addOrder_fair[OF sc_book_inv sc_ready(1,2) sc_run] by (simp add: list_all_iff)
qed

text \<open>
  C7. What becomes of the orders of a call: the incoming order and every order of the book end
  either open in the book, or out of it and filled with nothing left or, for a market order,
  cancelled with its remainder; an order the book did not know is not written.
\<close>

theorem addOrder_outcome:
  assumes "book_inv b" and "active (heap b p)" and "wf_order (heap b p)"
    and "addOrder now (Some p) b = Some (True, evs, b')"
  shows "if r = p \<or> in_book b r
    then in_book b' r \<and> open_order b' r \<or> \<not> in_book b' r \<and> order_closed (heap b' r)
    else heap b' r = heap b r \<and> \<not> in_book b' r"
  using accepted_life[OF addOrder_accepted(2,3,5)[OF assms], of r] by (cases "r = p \<or> in_book b r") simp_all

theorem addOrder_outcome_witness:
  "(in_book sc_after 5 \<and> open_order sc_after 5 \<or> \<not> in_book sc_after 5 \<and> order_closed (heap sc_after 5)) \<and>
   rem_qty sc_after 5 = 0"
proof -
  have "rem_qty sc_after 5 = 0" by code_simp
  then show ?thesis using addOrder_outcome[OF sc_book_inv sc_ready(1,2) sc_run, of 5] by simp
qed

text \<open>
  C8. Stop orders are triggered exactly when a trade reaches their stop price: after an accepted
  order (not itself a stop order), no stop level still waits whose price any trade of the call
  has reached, cascaded trades included; a level that left was reached by one of these trades;
  and no stop level is new or altered.
\<close>

theorem addOrder_stops_exact:
  assumes "book_inv b" and "active (heap b p)" and "wf_order (heap b p)"
    and "addOrder now (Some p) b = Some (True, evs, b')" and "\<not> isStopOrder (heap b p)"
  shows "unreached (t_price ` set (pending_trades b')) b' \<and>
    released_by (t_price ` set (pending_trades b')) b b' \<and> keeps_stops b b'"
  using addOrder_accepted(2,3)[OF assms(1-4)] assms(5) by (rule accepted_stops)

theorem addOrder_stops_exact_witness:
  "unreached (t_price ` set (pending_trades sc_after)) sc_after \<and>
   map_find (stops BUY sc_book) 11 = Some [4] \<and> map_find (stops BUY sc_after) 11 = None"
proof -
  have "map_find (stops BUY sc_book) 11 = Some [4]" "map_find (stops BUY sc_after) 11 = None"
    "\<not> isStopOrder (heap sc_book 5)" by code_simp+
  then show ?thesis using addOrder_stops_exact[OF sc_book_inv sc_ready(1,2) sc_run] by blast
qed

text \<open>
  C20. The notifications of a call: first every trade in order of execution, then for each trade its
  buyer and its seller except the incoming order, and at the very end the incoming order, once.
\<close>

theorem addOrder_notifications:
  assumes "book_inv b" and "active (heap b p)" and "wf_order (heap b p)"
    and "addOrder now (Some p) b = Some (True, evs, b')" and "order_callback b" and "trade_callback b"
  shows "\<exists>us. evs = map TradeEvent (pending_trades b') @ map OrderEvent us @ [OrderEvent p] \<and> p \<notin> set us \<and>
    map (\<lambda>q. o_id (heap b q)) us =
      filter (\<lambda>i. i \<noteq> o_id (heap b p))
        (concat (map (\<lambda>t. [t_buy_order_id t, t_sell_order_id t]) (pending_trades b')))"
proof -
  note acc = addOrder_accepted[OF assms(1-4)]
  note rec = accepted_recorded[OF acc(2,3)] and upd = accepted_updates[OF acc(2,3)]
  let ?us = "filter (\<lambda>q. q \<noteq> p) (pending_order_updates b')"
  have "evs = map TradeEvent (pending_trades b') @ map OrderEvent ?us @ [OrderEvent p]"
    using acc(4) rec(4) assms(5,6) by (simp add: callbacks_def same_settings_def)
  moreover have "?us = filter (\<lambda>q. o_id (heap b q) \<noteq> o_id (heap b p)) (pending_order_updates b')"
    by (rule filter_cong) (use upd in auto)
  then have "map (\<lambda>q. o_id (heap b q)) ?us =
      filter (\<lambda>i. i \<noteq> o_id (heap b p)) (map (\<lambda>q. o_id (heap b q)) (pending_order_updates b'))"
    by (simp add: filter_map comp_def)
  ultimately show ?thesis using rec(2) by (intro exI[of _ ?us]) (simp add: notified_def)
qed

theorem addOrder_notifications_witness:
  "\<exists>us. callbacks 5 sc_after = map TradeEvent (pending_trades sc_after) @ map OrderEvent us @ [OrderEvent 5] \<and>
     5 \<notin> set us \<and> map (\<lambda>q. o_id (heap sc_book q)) us = [''a'', ''b'', ''c'', ''d'', ''c'']"
proof -
  have "filter (\<lambda>i. i \<noteq> o_id (heap sc_book 5))
      (concat (map (\<lambda>t. [t_buy_order_id t, t_sell_order_id t]) (pending_trades sc_after))) =
      [''a'', ''b'', ''c'', ''d'', ''c'']" by code_simp
  then show ?thesis
    using addOrder_notifications[OF sc_book_inv sc_ready(1,2) sc_run sc_book_facts(9,10)] by simp
qed

text \<open>
  C22. Cancelling: an unknown id is refused and changes nothing; a known one is always cancelled. Its
  order is marked, keeps what it had left, leaves the index and its level; every other order
  keeps its state and its place, the book stays consistent, and only the owner is notified.
\<close>

theorem cancelOrder_correct:
  assumes "book_inv b"
  shows "case orders_by_id b i of
      None \<Rightarrow> cancelOrder i b = (False, [], b)
    | Some p \<Rightarrow> \<exists>b'. cancelOrder i b = (True, if order_callback b then [OrderEvent p] else [], b') \<and>
        book_inv b' \<and> getOrder i b' = None \<and>
        heap b' = (heap b)(p := (heap b p)\<lparr>o_status := CANCELED\<rparr>) \<and>
        (\<forall>q. in_book b' q \<longleftrightarrow> in_book b q \<and> q \<noteq> p) \<and>
        (\<forall>j. j \<noteq> i \<longrightarrow> getOrder j b' = getOrder j b)"
proof (cases "orders_by_id b i")
  case None
  then show ?thesis by (simp add: cancelOrder_def)
next
  case (Some p)
  note known = known_order[OF assms Some]
  have "snd (cancel (heap b p)) = (heap b p)\<lparr>o_status := CANCELED\<rparr>"
    using known(3) by (simp add: open_order_def cancel_def active_iff)
  then have "heap (withdraw p b) = (heap b)(p := (heap b p)\<lparr>o_status := CANCELED\<rparr>)"
    "orders_by_id (withdraw p b) = (orders_by_id b)(i := None)"
    using known(1) by (simp_all add: withdraw_def)
  then show ?thesis
    using cancelOrder_known[OF assms Some] withdraw_inv[OF assms known(4)] withdraw_in_book[OF assms] Some
    by (simp add: getOrder_def)
qed

theorem cancelOrder_correct_witness:
  "\<exists>b'. cancelOrder ''a'' sc_book = (True, [OrderEvent 1], b') \<and> book_inv b' \<and> getOrder ''a'' b' = None \<and>
     (\<forall>q. in_book b' q \<longleftrightarrow> in_book sc_book q \<and> q \<noteq> 1)"
  using cancelOrder_correct[OF sc_book_inv, of "''a''"] sc_book_facts(7,9) by auto

subsection \<open>Market data\<close>

text \<open>
  C33. Market data queries on a consistent book: the bid levels are the best levels of the buy side
  in strictly descending order of price and the ask levels the best of the sell side in strictly
  ascending order, at most \<open>depth\<close> of each; the best bid is below the best ask; and each level reports its
  price, its total open quantity and its number of orders, provided they fit the \<open>uint32_t\<close> and
  \<open>int\<close> fields.
\<close>

theorem price_levels_correct:
  assumes "book_inv b" and "fits b (bids b)" and "fits b (asks b)"
  shows "map report (getBidLevels depth b) = map (summary b) (take (nat depth) (rev (bids b))) \<and>
    map report (getAskLevels depth b) = map (summary b) (take (nat depth) (asks b)) \<and>
    sorted_wrt (>) (map l_price (getBidLevels depth b)) \<and>
    sorted_wrt (<) (map l_price (getAskLevels depth b)) \<and>
    (bids b \<noteq> [] \<longrightarrow> asks b \<noteq> [] \<longrightarrow> getBestBidPrice b < getBestAskPrice b)"
  using assms report_levels[of b "rev (bids b)" depth] report_levels[of b "asks b" depth]
    bid_prices_descend[OF assms(1), of depth] best_quotes[OF assms(1)]
  by (simp add: getBidLevels_def getAskLevels_def)

theorem price_levels_correct_witness:
  "map report (getAskLevels 1 sc_book) = [(10, 8, 2)] \<and> getBestBidPrice sc_book < getBestAskPrice sc_book"
proof -
  have "unat (rem_qty sc_book 1) = 5" "unat (rem_qty sc_book 2) = 3" "unat (rem_qty sc_book 3) = 4"
    "unat (rem_qty sc_book 6) = 7"
    by code_simp+
  then have "fits sc_book (bids sc_book)" "fits sc_book (asks sc_book)"
    "map (summary sc_book) (take (nat 1) (asks sc_book)) = [(10, 8, 2)]"
    by (simp_all add: fits_def summary_def open_quantity_def sc_book_facts)
  then show ?thesis using price_levels_correct[OF sc_book_inv, of 1] by (simp add: sc_book_facts)
qed

text \<open>
  The quantity a level reports is the exact total of what its orders have left, reduced modulo
  \<open>2\<^sup>3\<^sup>2\<close>: the sum is taken in \<open>uint32_t\<close> and wraps. The best volumes report the same sum of the best
  level, and zero for an empty side.
\<close>

theorem level_quantity_wraps:
  "unat (level_quantity 0 ps b) = (\<Sum>p\<leftarrow>ps. unat (rem_qty b p)) mod 2 ^ 32 \<and>
   getBestBidVolume b = of_nat ((case map_last (bids b) of
      None \<Rightarrow> 0 | Some (k, qs) \<Rightarrow> \<Sum>p\<leftarrow>qs. unat (rem_qty b p)) mod 2 ^ 32) \<and>
   getBestAskVolume b = of_nat ((case map_first (asks b) of
      None \<Rightarrow> 0 | Some (k, qs) \<Rightarrow> \<Sum>p\<leftarrow>qs. unat (rem_qty b p)) mod 2 ^ 32)"
  unfolding getBestBidVolume_def getBestAskVolume_def
  using unat_level_quantity[of _ b] by (cases "map_last (bids b)"; cases "map_first (asks b)")
    (auto simp: open_quantity_def simp del: map_last_None map_first_None)

end
