(* ===== verification/Tick.thy ===== *)
theory Tick
  imports OrderBook
begin

text \<open>
  \<^verbatim>\<open>roundToTickSize\<close> and \<^verbatim>\<open>isValidPrice\<close> in double arithmetic: rounding a price to a tick is idempotent
  and moves it by little more than half a tick, and a rounded price passes the validity test, as
  long as the number of ticks stays well below \<open>2\<^sup>5\<^sup>3\<close>.
\<close>

text \<open>The ticks of a price, and the price of that many ticks.\<close>

lemma ticks_bound:
  assumes t: "0 < t" and p: "\<bar>p\<bar> \<le> 2 ^ k * t" "k \<le> 49" and n: "llround (fl (p / t)) = Some n"
  shows "\<bar>of_int n - p / t\<bar> \<le> 1 / 2 + 2 ^ k / 2 ^ 53 + 1 / 2 ^ 20" "\<bar>of_int n\<bar> \<le> (2 ^ k + 1 :: rat)" "\<bar>n\<bar> \<le> 2 ^ 50"
proof -
  have y: "\<bar>p / t\<bar> \<le> 2 ^ k" using p(1) t by (simp add: abs_div pos_divide_le_eq)
  have kk: "(2 ^ k :: rat) \<le> 2 ^ 49" using p(2) by (intro power_increasing) simp_all
  have n': "n = round_away (fl (p / t))" using n by (auto simp: llround_def Let_def split: if_splits)
  have "two_pow (- 1075) \<le> two_pow (- 20)" by (rule two_pow_mono) simp
  then have small: "two_pow (- 1075) \<le> 1 / 2 ^ 20" by (simp add: two_pow_def)
  have "\<bar>fl (p / t) - p / t\<bar> \<le> 2 ^ k / 2 ^ 53 + 1 / 2 ^ 20"
    using fl_absolute[of "p / t"] mult_right_mono[OF y, of unit_roundoff] small by (simp add: unit_roundoff_def)
  with round_away_error[of "fl (p / t)"]
  show e: "\<bar>of_int n - p / t\<bar> \<le> 1 / 2 + 2 ^ k / 2 ^ 53 + 1 / 2 ^ 20" unfolding n' by linarith
  have "1 / 2 + 2 ^ k / 2 ^ 53 + 1 / 2 ^ 20 \<le> (1 :: rat)" using kk by simp
  with e y show b: "\<bar>of_int n\<bar> \<le> (2 ^ k + 1 :: rat)" by linarith
  with kk have "\<bar>of_int n\<bar> \<le> (of_int (2 ^ 50) :: rat)" by simp
  then have "of_int \<bar>n\<bar> \<le> (of_int (2 ^ 50) :: rat)" by simp
  then show "\<bar>n\<bar> \<le> 2 ^ 50" by (simp only: of_int_le_iff)
qed

lemma roundToTickSize_eq:
  assumes "0 < tick_size b" and "\<bar>n\<bar> \<le> 2 ^ 50" and "llround (fl (price / tick_size b)) = Some n"
  shows "roundToTickSize price b = Some (fl (of_int n * tick_size b))"
proof -
  have "fl (of_int n) = of_int n" using assms(2) by (intro fl_int) simp
  with assms show ?thesis by (simp add: roundToTickSize_def)
qed

lemma rounds_in_range:
  assumes "0 < t" and "\<bar>p\<bar> \<le> 2 ^ k * t" and "k \<le> 49"
  shows "\<exists>n. llround (fl (p / t)) = Some n"
proof -
  have y: "\<bar>p / t\<bar> \<le> 2 ^ k" using assms by (simp add: abs_div pos_divide_le_eq)
  have kk: "(2 ^ k :: rat) \<le> 2 ^ 49" using assms(3) by (intro power_increasing) simp_all
  have "two_pow (- 1075) \<le> two_pow (- 20)" by (rule two_pow_mono) simp
  then have tiny: "two_pow (- 1075) \<le> 1" by (simp add: two_pow_def)
  have "\<bar>p / t\<bar> * unit_roundoff \<le> 2 ^ 49 * unit_roundoff"
    using y kk by (intro mult_right_mono) (simp_all add: unit_roundoff_def)
  also have "\<dots> \<le> 1" by (simp add: unit_roundoff_def)
  finally have "\<bar>fl (p / t)\<bar> \<le> 2 ^ 49 + 2"
    using fl_absolute[of "p / t"] tiny y kk by linarith
  then have "\<bar>fl (p / t)\<bar> \<le> 2 ^ 50" by simp
  then have "\<bar>of_int (round_away (fl (p / t)))\<bar> \<le> (2 ^ 50 + 1 :: rat)"
    using round_away_error[of "fl (p / t)"] by linarith
  then have "of_int \<bar>round_away (fl (p / t))\<bar> \<le> (of_int (2 ^ 50 + 1) :: rat)" by simp
  then have "\<bar>round_away (fl (p / t))\<bar> \<le> 2 ^ 50 + 1" by (simp only: of_int_le_iff)
  then show ?thesis by (auto simp: llround_def Let_def)
qed

subsection \<open>Properties\<close>

text \<open>
  C35. Rounding a price to the tick: for a price of up to \<open>2\<^sup>4\<^sup>0\<close> ticks, with the next tick still a finite double, the result is defined,
  finite, lies within \<open>1/2 + 2\<^sup>-\<^sup>1\<^sup>0\<close> ticks of the price, and rounding it again does not change it, although the
  quotient and the product are both rounded to doubles.
\<close>

theorem roundToTickSize_correct:
  assumes "two_pow (- 1022) \<le> tick_size b" and "\<bar>price\<bar> \<le> 2 ^ 40 * tick_size b"
    and "\<bar>price\<bar> + tick_size b \<le> dbl_max"
  shows "\<exists>r. roundToTickSize price b = Some r \<and> roundToTickSize r b = Some r \<and> \<bar>r\<bar> \<le> dbl_max \<and>
    \<bar>r - price\<bar> \<le> (1 / 2 + 1 / 2 ^ 10) * tick_size b"
proof -
  let ?t = "tick_size b"
  have t: "0 < ?t" using assms(1) two_pow_pos(1)[of "- 1022"] by linarith
  obtain n where n: "llround (fl (price / ?t)) = Some n"
    using rounds_in_range[OF t assms(2)] by auto
  note bound = ticks_bound[OF t assms(2) _ n]
  let ?r = "fl (of_int n * ?t)"
  have "roundToTickSize price b = Some ?r" using roundToTickSize_eq[OF t _ n] bound by simp
  moreover have "roundToTickSize ?r b = Some ?r"
    using roundToTickSize_eq[OF t _ tick_count[OF assms(1)]] bound by simp
  moreover have err: "\<bar>?r - price\<bar> \<le> (1 / 2 + 1 / 2 ^ 10) * ?t"
  proof -
    have "\<bar>of_int n\<bar> * ?t \<le> (2 ^ 40 + 1) * ?t" using bound(2) t by (intro mult_right_mono) simp_all
    then have "\<bar>of_int n\<bar> * ?t * unit_roundoff \<le> (2 ^ 40 + 1) * ?t * unit_roundoff"
      by (rule mult_right_mono) (simp add: unit_roundoff_def)
    with roundoff_product[OF assms(1), of n]
    have "\<bar>?r - of_int n * ?t\<bar> \<le> (2 ^ 40 + 1) * ?t * unit_roundoff" by (rule order_trans)
    also have "\<dots> \<le> (1 / 2 ^ 12) * ?t" using t by (simp add: unit_roundoff_def)
    finally have "\<bar>?r - of_int n * ?t\<bar> \<le> (1 / 2 ^ 12) * ?t" .
    moreover have "of_int n * ?t - price = (of_int n - price / ?t) * ?t" using t by (simp add: field_simps)
    then have "\<bar>of_int n * ?t - price\<bar> = \<bar>of_int n - price / ?t\<bar> * ?t" using t by (simp add: abs_mult)
    moreover have "\<bar>of_int n - price / ?t\<bar> * ?t \<le> (1 / 2 + 2 ^ 40 / 2 ^ 53 + 1 / 2 ^ 20) * ?t"
      using bound(1) t by (intro mult_right_mono) simp_all
    ultimately have "\<bar>?r - of_int n * ?t\<bar> \<le> (1 / 2 ^ 12) * ?t"
      "\<bar>of_int n * ?t - price\<bar> \<le> (1 / 2 + 2 ^ 40 / 2 ^ 53 + 1 / 2 ^ 20) * ?t" by simp_all
    then show ?thesis by (rule abs_chain) (use t in \<open>simp add: distrib_right[symmetric]\<close>)
  qed
  moreover have "(1 / 2 + 1 / 2 ^ 10) * ?t \<le> ?t" using t by simp
  then have "\<bar>?r\<bar> \<le> dbl_max" using err assms(3) by linarith
  ultimately show ?thesis by blast
qed

definition cent_book :: book where
  "cent_book = new_book ''ACME'' 0 (\<lambda>_. new_order 0 ''a'' BUY 1 1 ''ACME'' ''c'' LIMIT 0)"

lemma cent_tick: "tick_size cent_book = 5764607523034235 / 2 ^ 59"
  unfolding cent_book_def by code_simp

lemma cent_normal: "two_pow (- 1022) \<le> tick_size cent_book"
  using two_pow_mono[of "- 1022" "- 20"] by (simp add: cent_tick two_pow_def)

theorem roundToTickSize_correct_witness:
  "\<exists>r. roundToTickSize (101 / 8) cent_book = Some r \<and> roundToTickSize r cent_book = Some r \<and> \<bar>r\<bar> \<le> dbl_max \<and>
     \<bar>r - 101 / 8\<bar> \<le> (1 / 2 + 1 / 2 ^ 10) * tick_size cent_book"
  by (rule roundToTickSize_correct[OF cent_normal]) (simp_all add: cent_tick dbl_max_def)

lemma epsilon_bound: "1 / 2 ^ 34 + 1 / 2 ^ 80 < fl (1 / 10 ^ 10)"
  by code_simp

lemma trunc_int_nonneg: "0 \<le> y \<Longrightarrow> trunc_int y = \<lfloor>y\<rfloor>"
  by (simp add: trunc_int_def)

lemma multiple_valid:
  assumes t: "0 < tick_size b" and r: "r = of_int n * tick_size b + d" "0 \<le> r"
    and d: "\<bar>d\<bar> \<le> 1 / 2 ^ 34" "\<bar>d\<bar> < tick_size b"
  shows "isValidPrice r b"
proof -
  let ?t = "tick_size b"
  note eps = epsilon_bound
  have quot: "r / ?t = of_int n + d / ?t" using t by (simp add: r(1) field_simps)
  have trunc: "trunc_int (r / ?t) = \<lfloor>r / ?t\<rfloor>" using r(2) t by (intro trunc_int_nonneg) simp
  show ?thesis
  proof (cases "0 \<le> d")
    case True
    have "\<lfloor>r / ?t\<rfloor> = n"
      unfolding quot using True t d(2) by (intro floor_eq_iff[THEN iffD2]) simp
    then have "fmod r ?t = r - of_int n * ?t" unfolding fmod_def trunc by simp
    then have "fmod r ?t = d" by (simp add: r(1))
    moreover have "\<bar>d\<bar> < 1 / 2 ^ 34 + 1 / 2 ^ 80" using d(1) by (rule le_less_trans) simp
    ultimately have "\<bar>fmod r ?t\<bar> < fl (1 / 10 ^ 10)" using eps less_trans by blast
    with t show ?thesis by (simp add: isValidPrice_def Let_def)
  next
    case False
    have "\<lfloor>r / ?t\<rfloor> = n - 1"
      unfolding quot using False t d(2) by (intro floor_eq_iff[THEN iffD2]) (simp add: field_simps)
    then have "fmod r ?t = r - of_int (n - 1) * ?t" unfolding fmod_def trunc by simp
    then have "fmod r ?t - ?t = d" by (simp add: r(1) algebra_simps)
    moreover have "\<bar>fl d\<bar> < fl (1 / 10 ^ 10)"
    proof -
      have "two_pow (- 1075) \<le> two_pow (- 81)" by (rule two_pow_mono) simp
      then have "two_pow (- 1075) \<le> 1 / 2 ^ 81" by (simp add: two_pow_def)
      moreover have "\<bar>d\<bar> * unit_roundoff \<le> 1 / 2 ^ 34 * unit_roundoff"
        using d(1) by (rule mult_right_mono) (simp add: unit_roundoff_def)
      moreover have "1 / 2 ^ 34 * unit_roundoff \<le> 1 / 2 ^ 81" by (simp add: unit_roundoff_def)
      ultimately have "\<bar>fl d - d\<bar> \<le> 1 / 2 ^ 81 + 1 / 2 ^ 81" using fl_absolute[of d] by linarith
      then have "\<bar>fl d - 0\<bar> \<le> 1 / 2 ^ 34 + 1 / 2 ^ 80"
        by (rule abs_chain[where y = "1 / 2 ^ 34"]) (use d(1) in simp_all)
      then show ?thesis using eps by simp
    qed
    ultimately show ?thesis using t by (simp add: isValidPrice_def Let_def)
  qed
qed

text \<open>
  C36. A price of at most \<open>2\<^sup>1\<^sup>9\<close> that was rounded to the tick passes \<^verbatim>\<open>isValidPrice\<close>: the rounding error of
  the product stays below the epsilon of the test, from whichever side it comes.
\<close>

theorem rounded_price_valid:
  assumes "two_pow (- 1022) \<le> tick_size b" and "0 \<le> price" and "price \<le> 2 ^ 40 * tick_size b"
    and "roundToTickSize price b = Some r" and "0 \<le> r" and "price + tick_size b \<le> 2 ^ 19"
  shows "isValidPrice r b"
proof -
  let ?t = "tick_size b"
  have t: "0 < ?t" using assms(1) two_pow_pos(1)[of "- 1022"] by linarith
  have p: "\<bar>price\<bar> \<le> 2 ^ 40 * ?t" using assms(2,3) by simp
  obtain n where n: "llround (fl (price / ?t)) = Some n" using rounds_in_range[OF t p] by auto
  note bound = ticks_bound[OF t p _ n]
  have r: "r = fl (of_int n * ?t)" using roundToTickSize_eq[OF t _ n] bound assms(4) by simp
  have err: "\<bar>r - of_int n * ?t\<bar> \<le> \<bar>of_int n\<bar> * ?t * unit_roundoff"
    unfolding r using roundoff_product[OF assms(1)] .
  have "\<bar>of_int n\<bar> * ?t * unit_roundoff \<le> (2 ^ 40 + 1) * ?t * unit_roundoff"
    using bound(2) t by (intro mult_right_mono) (simp_all add: unit_roundoff_def)
  also have "\<dots> < ?t" using t by (simp add: unit_roundoff_def)
  finally have small: "\<bar>r - of_int n * ?t\<bar> < ?t" using err by linarith
  have "\<bar>of_int n - price / ?t\<bar> \<le> 1" using bound(1) by simp
  then have "\<bar>of_int n\<bar> \<le> price / ?t + 1" using assms(2) t divide_nonneg_pos[of price ?t] by linarith
  then have "\<bar>of_int n\<bar> * ?t \<le> (price / ?t + 1) * ?t" using t by (intro mult_right_mono) simp_all
  also have "(price / ?t + 1) * ?t = price + ?t" using t by (simp add: distrib_right)
  also note assms(6)
  finally have "\<bar>of_int n\<bar> * ?t * unit_roundoff \<le> 2 ^ 19 * unit_roundoff"
    by (rule mult_right_mono) (simp add: unit_roundoff_def)
  with err have "\<bar>r - of_int n * ?t\<bar> \<le> 2 ^ 19 * unit_roundoff" by (rule order_trans)
  then have "\<bar>r - of_int n * ?t\<bar> \<le> 1 / 2 ^ 34" by (simp add: unit_roundoff_def)
  then show ?thesis using multiple_valid[OF t, of r n "r - of_int n * ?t"] small assms(5) by simp
qed

theorem rounded_price_valid_witness:
  "isValidPrice (the (roundToTickSize (101 / 8) cent_book)) cent_book \<and> \<not> isValidPrice (101 / 8) cent_book"
proof -
  have r: "roundToTickSize (101 / 8) cent_book = Some (the (roundToTickSize (101 / 8) cent_book))"
    "0 \<le> the (roundToTickSize (101 / 8) cent_book)" "\<not> isValidPrice (101 / 8) cent_book"
    unfolding cent_book_def by code_simp+
  then show ?thesis
    using rounded_price_valid[OF cent_normal _ _ r(1,2)] by (simp add: cent_tick)
qed

end
