(* ===== verification/Password_Hash.thy ===== *)
theory Password_Hash
  imports Prelude
begin

text \<open>
  \<^verbatim>\<open>common/include/password_hash.h\<close>: the embedded SHA-256 and the salted password format built on it.
  Strings are byte strings, a character being its code. The random draws of \<^verbatim>\<open>generateSalt\<close> are a
  parameter: \<open>draw i\<close> is the \<open>i\<close>-th value of the \<^verbatim>\<open>uniform_int_distribution(0, 15)\<close>.
\<close>

unbundle bit_operations_syntax

subsection \<open>SHA-256\<close>

definition rotr :: "u32 \<Rightarrow> nat \<Rightarrow> u32" where
  "rotr x n = drop_bit n x OR push_bit (32 - n) x"

text \<open>The constants, a row of the source at a time.\<close>

definition K :: "u32 list" where
  "K = concat
    [[0x428a2f98, 0x71374491, 0xb5c0fbcf, 0xe9b5dba5, 0x3956c25b, 0x59f111f1, 0x923f82a4, 0xab1c5ed5],
     [0xd807aa98, 0x12835b01, 0x243185be, 0x550c7dc3, 0x72be5d74, 0x80deb1fe, 0x9bdc06a7, 0xc19bf174],
     [0xe49b69c1, 0xefbe4786, 0x0fc19dc6, 0x240ca1cc, 0x2de92c6f, 0x4a7484aa, 0x5cb0a9dc, 0x76f988da],
     [0x983e5152, 0xa831c66d, 0xb00327c8, 0xbf597fc7, 0xc6e00bf3, 0xd5a79147, 0x06ca6351, 0x14292967],
     [0x27b70a85, 0x2e1b2138, 0x4d2c6dfc, 0x53380d13, 0x650a7354, 0x766a0abb, 0x81c2c92e, 0x92722c85],
     [0xa2bfe8a1, 0xa81a664b, 0xc24b8b70, 0xc76c51a3, 0xd192e819, 0xd6990624, 0xf40e3585, 0x106aa070],
     [0x19a4c116, 0x1e376c08, 0x2748774c, 0x34b0bcb5, 0x391c0cb3, 0x4ed8aa4a, 0x5b9cca4f, 0x682e6ff3],
     [0x748f82ee, 0x78a5636f, 0x84c87814, 0x8cc70208, 0x90befffa, 0xa4506ceb, 0xbef9a3f7, 0xc67178f2]]"

definition H0 :: "u32 list" where
  "H0 = [0x6a09e667, 0xbb67ae85, 0x3c6ef372, 0xa54ff53a,
         0x510e527f, 0x9b05688c, 0x1f83d9ab, 0x5be0cd19]"

definition char_byte :: "char \<Rightarrow> u8" where
  "char_byte c = of_nat (of_char c)"

text \<open>The padding loop.\<close>

function pad_zeros :: "u8 list \<Rightarrow> u8 list" where
  "pad_zeros msg = (if length msg mod 64 \<noteq> 56 then pad_zeros (msg @ [0]) else msg)"
  by pat_completeness auto
termination
proof (relation "measure (\<lambda>msg. if length msg mod 64 \<le> 56 then 56 - length msg mod 64
                                    else 120 - length msg mod 64)")
  fix msg :: "u8 list"
  define m where "m = length msg mod 64"
  assume "length msg mod 64 \<noteq> 56"
  then have n: "m \<noteq> 56" by (simp add: m_def)
  have l: "m < 64" by (simp add: m_def)
  have s: "length (msg @ [0]) mod 64 = (if m = 63 then 0 else Suc m)"
    using l by (simp add: m_def mod_Suc)
  show "(msg @ [0], msg) \<in> measure (\<lambda>msg. if length msg mod 64 \<le> 56 then 56 - length msg mod 64
                                    else 120 - length msg mod 64)"
    unfolding in_measure s m_def [symmetric] using n l by (auto split: if_splits)
qed simp

declare pad_zeros.simps [simp del]

definition length_bytes :: "64 word \<Rightarrow> u8 list" where
  "length_bytes bitLen = map (\<lambda>i. ucast (drop_bit (i * 8) bitLen AND 0xFF)) [7, 6, 5, 4, 3, 2, 1, 0]"

definition sha_pad :: "u8 list \<Rightarrow> u8 list" where
  "sha_pad input =
     (let bitLen = of_nat (length input) * 8
      in pad_zeros (input @ [0x80]) @ length_bytes bitLen)"

definition block_word :: "u8 list \<Rightarrow> nat \<Rightarrow> u32" where
  "block_word block i =
     push_bit 24 (ucast (block ! (i * 4))) OR push_bit 16 (ucast (block ! (i * 4 + 1))) OR
     push_bit 8 (ucast (block ! (i * 4 + 2))) OR ucast (block ! (i * 4 + 3))"

definition next_word :: "u32 list \<Rightarrow> u32" where
  "next_word w =
     (let i = length w;
          s0 = rotr (w ! (i - 15)) 7 XOR rotr (w ! (i - 15)) 18 XOR drop_bit 3 (w ! (i - 15));
          s1 = rotr (w ! (i - 2)) 17 XOR rotr (w ! (i - 2)) 19 XOR drop_bit 10 (w ! (i - 2))
      in w ! (i - 16) + s0 + w ! (i - 7) + s1)"

fun expand :: "nat \<Rightarrow> u32 list \<Rightarrow> u32 list" where
  "expand 0 w = w"
| "expand (Suc n) w = expand n (w @ [next_word w])"

definition schedule :: "u8 list \<Rightarrow> u32 list" where
  "schedule block = expand 48 (map (block_word block) [0..<16])"

type_synonym sha_state = "u32 \<times> u32 \<times> u32 \<times> u32 \<times> u32 \<times> u32 \<times> u32 \<times> u32"

fun sha_round :: "u32 \<times> u32 \<Rightarrow> sha_state \<Rightarrow> sha_state" where
  "sha_round (k, w) (a, b, c, d, e, f, g, hh) =
     (let S1 = rotr e 6 XOR rotr e 11 XOR rotr e 25;
          ch = (e AND f) XOR (NOT e AND g);
          temp1 = hh + S1 + ch + k + w;
          S0 = rotr a 2 XOR rotr a 13 XOR rotr a 22;
          maj = (a AND b) XOR (a AND c) XOR (b AND c);
          temp2 = S0 + maj
      in (temp1 + temp2, a, b, c, d + temp1, e, f, g))"

definition to_state :: "u32 list \<Rightarrow> sha_state" where
  "to_state h = (h ! 0, h ! 1, h ! 2, h ! 3, h ! 4, h ! 5, h ! 6, h ! 7)"

fun of_state :: "sha_state \<Rightarrow> u32 list" where
  "of_state (a, b, c, d, e, f, g, hh) = [a, b, c, d, e, f, g, hh]"

definition sha_block :: "u8 list \<Rightarrow> u32 list \<Rightarrow> u32 list" where
  "sha_block block h = map2 (+) h (of_state (fold sha_round (zip K (schedule block)) (to_state h)))"

function sha_blocks :: "u8 list \<Rightarrow> u32 list \<Rightarrow> u32 list" where
  "sha_blocks msg h = (if msg = [] then h else sha_blocks (drop 64 msg) (sha_block (take 64 msg) h))"
  by pat_completeness auto
termination
  by (relation "measure (\<lambda>(msg, h). length msg)") auto

declare sha_blocks.simps [simp del]

definition hex_digit :: "nat \<Rightarrow> char" where
  "hex_digit d = ''0123456789abcdef'' ! d"

text \<open>\<^verbatim>\<open>std::hex\<close> with fill \<open>0\<close> and width 8.\<close>

definition hex8 :: "u32 \<Rightarrow> string" where
  "hex8 x = map (\<lambda>i. hex_digit (unat (drop_bit (i * 4) x AND 0xF))) [7, 6, 5, 4, 3, 2, 1, 0]"

definition sha256 :: "string \<Rightarrow> string" where
  "sha256 input = concat (map hex8 (sha_blocks (sha_pad (map char_byte input)) H0))"

subsection \<open>Salted passwords\<close>

definition generateSalt :: "(nat \<Rightarrow> nat) \<Rightarrow> nat \<Rightarrow> string" where
  "generateSalt draw len = concat (map (\<lambda>i. [hex_digit (draw (2 * i)), hex_digit (draw (2 * i + 1))]) [0..<len])"

definition hashPassword :: "(nat \<Rightarrow> nat) \<Rightarrow> string \<Rightarrow> string" where
  "hashPassword draw password =
     (let salt = generateSalt draw 16;
          hash = sha256 (salt @ password)
      in ''sha256:'' @ salt @ '':'' @ hash)"

text \<open>\<^verbatim>\<open>stored.find(':', 7)\<close> and the two substrings it delimits.\<close>

definition verifyPassword :: "string \<Rightarrow> string \<Rightarrow> bool" where
  "verifyPassword password stored =
     (case dropWhile (\<lambda>c. c \<noteq> CHR '':'') (drop 7 stored) of
        [] \<Rightarrow> False
      | _ # expectedHash \<Rightarrow>
          let salt = takeWhile (\<lambda>c. c \<noteq> CHR '':'') (drop 7 stored);
              computed = sha256 (salt @ password)
          in computed = expectedHash)"

subsection \<open>Shape of the digest\<close>

lemma pad_zeros_length: "length (pad_zeros msg) mod 64 = 56"
  by (induction msg rule: pad_zeros.induct) (subst pad_zeros.simps, simp)

lemma sha_pad_blocks: "length (sha_pad input) mod 64 = 0"
  using pad_zeros_length [of "input @ [0x80]"]
  by (simp add: sha_pad_def Let_def length_bytes_def) presburger

lemma pad_zeros_append: "\<exists>k. pad_zeros msg = msg @ replicate k 0"
proof (induction msg rule: pad_zeros.induct)
  case (1 msg)
  show ?case
  proof (cases "length msg mod 64 \<noteq> 56")
    case True
    then obtain k where "pad_zeros (msg @ [0]) = (msg @ [0]) @ replicate k 0" using 1 by blast
    then have "pad_zeros msg = msg @ replicate (Suc k) 0" using True by (subst pad_zeros.simps) simp
    then show ?thesis by blast
  next
    case False
    then have "pad_zeros msg = msg @ replicate 0 0" by (subst pad_zeros.simps) simp
    then show ?thesis by blast
  qed
qed

lemma of_state_length [simp]: "length (of_state s) = 8"
  by (cases s rule: of_state.cases) simp

lemma sha_block_length [simp]: "length (sha_block block h) = min (length h) 8"
  by (simp add: sha_block_def)

lemma sha_blocks_length: "length h = 8 \<Longrightarrow> length (sha_blocks msg h) = 8"
  by (induction msg h rule: sha_blocks.induct) (subst sha_blocks.simps, simp)

lemma hex_digit_hex:
  assumes "d < 16" shows "hex_digit d \<in> set ''0123456789abcdef''"
  unfolding hex_digit_def by (rule nth_mem) (use assms in simp)

lemma nibble_less: "unat (x AND 0xF :: u32) < 16"
proof -
  have "x AND 0xF \<le> (0xF :: u32)" by (rule word_and_le1)
  then have "unat (x AND 0xF) \<le> unat (0xF :: u32)" by (rule iffD1 [OF word_le_nat_alt])
  then show ?thesis by simp
qed

lemma hex8_shape: "length (hex8 x) = 8 \<and> set (hex8 x) \<subseteq> set ''0123456789abcdef''"
proof
  show "length (hex8 x) = 8" by (simp add: hex8_def)
  have "hex_digit (unat (drop_bit (i * 4) x AND 0xF)) \<in> set ''0123456789abcdef''" for i
    by (rule hex_digit_hex) (rule nibble_less)
  then show "set (hex8 x) \<subseteq> set ''0123456789abcdef''" unfolding hex8_def set_map by blast
qed

lemma hex8s_shape:
  "length (concat (map hex8 hs)) = 8 * length hs \<and>
   set (concat (map hex8 hs)) \<subseteq> set ''0123456789abcdef''"
proof (induction hs)
  case (Cons h hs)
  then show ?case using hex8_shape [of h] by (simp only: list.map concat.simps set_append length_append) simp
qed simp

lemma sha256_shape: "length (sha256 input) = 64 \<and> set (sha256 input) \<subseteq> set ''0123456789abcdef''"
proof -
  have "length (sha_blocks (sha_pad (map char_byte input)) H0) = 8"
    by (rule sha_blocks_length) (simp add: H0_def)
  then show ?thesis
    unfolding sha256_def using hex8s_shape [of "sha_blocks (sha_pad (map char_byte input)) H0"] by presburger
qed

subsection \<open>Stored passwords\<close>

lemma generateSalt_shape:
  assumes "\<And>i. draw i < 16"
  shows "length (generateSalt draw n) = 2 * n \<and> set (generateSalt draw n) \<subseteq> set ''0123456789abcdef''"
proof (induction n)
  case (Suc n)
  have e: "generateSalt draw (Suc n) =
      generateSalt draw n @ [hex_digit (draw (2 * n)), hex_digit (draw (2 * n + 1))]"
    by (simp add: generateSalt_def)
  have "\<And>i. hex_digit (draw i) \<in> set ''0123456789abcdef''" by (rule hex_digit_hex) (rule assms)
  then show ?case using Suc unfolding e set_append length_append by auto
qed (simp add: generateSalt_def)

lemma no_colon_hex: "set s \<subseteq> set ''0123456789abcdef'' \<Longrightarrow> CHR '':'' \<notin> set s"
  by auto

lemma verifyPassword_stored:
  assumes "length tag = 7" and "CHR '':'' \<notin> set salt"
  shows "verifyPassword password (tag @ salt @ '':'' @ digest) \<longleftrightarrow> sha256 (salt @ password) = digest"
proof -
  have "\<And>c. c \<in> set salt \<Longrightarrow> c \<noteq> CHR '':''" using assms(2) by auto
  then have "takeWhile (\<lambda>c. c \<noteq> CHR '':'') (salt @ '':'' @ digest) = salt"
    and "dropWhile (\<lambda>c. c \<noteq> CHR '':'') (salt @ '':'' @ digest) = CHR '':'' # digest"
    by (simp_all add: takeWhile_append2 dropWhile_append2)
  moreover have "drop 7 (tag @ salt @ '':'' @ digest) = salt @ '':'' @ digest"
    using assms(1) by simp
  ultimately show ?thesis unfolding verifyPassword_def by (simp add: Let_def)
qed

text \<open>
  C32. A stored password accepts exactly the candidates whose salted digest equals the one of the
  password it was made from; in particular it accepts that password. The hypothesis is the range of
  \<^verbatim>\<open>uniform_int_distribution(0, 15)\<close>.
\<close>

theorem verify_hashed:
  assumes "\<And>i. draw i < 16"
  shows "(verifyPassword candidate (hashPassword draw password) \<longleftrightarrow>
            sha256 (generateSalt draw 16 @ candidate) = sha256 (generateSalt draw 16 @ password)) \<and>
         verifyPassword password (hashPassword draw password)"
proof -
  have c: "CHR '':'' \<notin> set (generateSalt draw 16)"
    using generateSalt_shape [where draw = draw, OF assms] no_colon_hex by blast
  have "verifyPassword candidate (hashPassword draw password) \<longleftrightarrow>
          sha256 (generateSalt draw 16 @ candidate) = sha256 (generateSalt draw 16 @ password)" for candidate
    unfolding hashPassword_def Let_def by (rule verifyPassword_stored [OF _ c]) simp
  then show ?thesis by simp
qed

theorem verify_hashed_witness:
  "(\<forall>i. (\<lambda>i::nat. i mod 16) i < 16) \<and> verifyPassword ''admin'' (hashPassword (\<lambda>i. i mod 16) ''admin'')"
  using verify_hashed [of "\<lambda>i. i mod 16" "''admin''" "''admin''"] by simp

text \<open>
  The stored form is the tag, 32 hexadecimal characters of salt, a colon and 64 hexadecimal
  characters of digest, whatever the password holds, and the padded message the digest is computed
  from is a whole number of 64-byte blocks with the password at its front.
\<close>

theorem hashPassword_format:
  assumes "\<And>i. draw i < 16"
  shows "\<exists>salt digest. hashPassword draw password = ''sha256:'' @ salt @ '':'' @ digest \<and>
           length salt = 32 \<and> length digest = 64 \<and>
           set (salt @ digest) \<subseteq> set ''0123456789abcdef'' \<and>
           length (sha_pad (map char_byte (salt @ password))) mod 64 = 0 \<and>
           take (length (salt @ password)) (sha_pad (map char_byte (salt @ password))) =
             map char_byte (salt @ password)"
proof (intro exI conjI)
  let ?salt = "generateSalt draw 16" and ?b = "map char_byte (generateSalt draw 16 @ password)"
  show "hashPassword draw password = ''sha256:'' @ ?salt @ '':'' @ sha256 (?salt @ password)"
    by (simp add: hashPassword_def Let_def)
  show "length ?salt = 32" using generateSalt_shape [where draw = draw and n = 16, OF assms] by simp
  show "length (sha256 (?salt @ password)) = 64" using sha256_shape by blast
  show "set (?salt @ sha256 (?salt @ password)) \<subseteq> set ''0123456789abcdef''"
    unfolding set_append using generateSalt_shape [where draw = draw, OF assms] sha256_shape by (intro Un_least) blast+
  show "length (sha_pad ?b) mod 64 = 0" by (rule sha_pad_blocks)
  obtain k where "pad_zeros (?b @ [0x80]) = (?b @ [0x80]) @ replicate k 0" using pad_zeros_append by blast
  then show "take (length (?salt @ password)) (sha_pad ?b) = ?b"
    by (simp add: sha_pad_def Let_def)
qed

theorem hashPassword_format_witness:
  "(\<forall>i. (\<lambda>i::nat. 7::nat) i < 16) \<and>
   (\<exists>salt digest. hashPassword (\<lambda>i. 7) ''pw'' = ''sha256:'' @ salt @ '':'' @ digest \<and> length digest = 64)"
  using hashPassword_format [of "\<lambda>i. 7" "''pw''"] by auto

text \<open>
  The tag is not compared: a stored string with any seven characters in front of the salt is
  accepted like one that starts with \<open>sha256:\<close>.
\<close>

theorem verify_ignores_tag:
  assumes "length tag = 7"
  shows "verifyPassword password (tag @ rest) = verifyPassword password (''sha256:'' @ rest)"
proof -
  have "drop 7 (tag @ rest) = rest" and "drop 7 (''sha256:'' @ rest) = rest" using assms by simp_all
  then show ?thesis unfolding verifyPassword_def by presburger
qed

theorem verify_ignores_tag_witness:
  "length ''bcrypt:'' = 7 \<and>
   verifyPassword ''x'' (''bcrypt:'' @ ''00:11'') = verifyPassword ''x'' (''sha256:'' @ ''00:11'')"
  using verify_ignores_tag [of "''bcrypt:''" "''x''" "''00:11''"] by simp

end
