(* ===== verification/Sha_Vectors.thy ===== *)
theory Sha_Vectors
  imports Password_Hash
begin

text \<open>
  The one-block test vector of FIPS 180-4, evaluated on the model of the embedded implementation.
\<close>

lemma sha256_abc:
  "sha256 ''abc'' = ''ba7816bf8f01cfea414140de5dae2223b00361a396177a9cb410ff61f20015ad''"
  by code_simp

end
