(* ===== verification/Sha_Spec.thy ===== *)
theory Sha_Spec
  imports Sha_Vectors
begin

text \<open>
  A reference definition of SHA-256 and its equivalence with the embedded implementation of
  \<^verbatim>\<open>common/include/password_hash.h\<close>. The reference follows the standard where the program uses tables and loops:
  the constants are bits of roots of primes, the padding is the shortest that fits, the message
  schedule and the working variables are recurrences, and the boolean functions are written with choice
  and majority.
\<close>

unbundle bit_operations_syntax

subsection \<open>The reference\<close>

definition is_prime :: "int \<Rightarrow> bool" where
  "is_prime n \<longleftrightarrow> 1 < n \<and> list_all (\<lambda>d. n mod d \<noteq> 0) [2..n - 1]"

definition prime_table :: "int list" where
  "prime_table = filter is_prime [2..311]"

text \<open>The first thirty-two bits of the fractional part of a root.\<close>

definition root_bits :: "nat \<Rightarrow> int \<Rightarrow> u32" where
  "root_bits k p = word_of_int \<lfloor>2 ^ 32 * root k (real_of_int p)\<rfloor>"

definition round_constant :: "nat \<Rightarrow> u32" where
  "round_constant t = root_bits 3 (prime_table ! t)"

definition initial_hash :: "u32 list" where
  "initial_hash = map (\<lambda>i. root_bits 2 (prime_table ! i)) [0..<8]"

definition chosen :: "u32 \<Rightarrow> u32 \<Rightarrow> u32 \<Rightarrow> u32" where
  "chosen x y z = (x AND y) OR (NOT x AND z)"

definition majority :: "u32 \<Rightarrow> u32 \<Rightarrow> u32 \<Rightarrow> u32" where
  "majority x y z = (x AND y) OR (y AND z) OR (x AND z)"

definition mix :: "nat \<Rightarrow> nat \<Rightarrow> nat \<Rightarrow> u32 \<Rightarrow> u32" where
  "mix i j k x = word_rotr i x XOR word_rotr j x XOR word_rotr k x"

definition mix_shift :: "nat \<Rightarrow> nat \<Rightarrow> nat \<Rightarrow> u32 \<Rightarrow> u32" where
  "mix_shift i j k x = word_rotr i x XOR word_rotr j x XOR drop_bit k x"

definition big_endian :: "u8 list \<Rightarrow> nat" where
  "big_endian bs = foldl (\<lambda>n b. 256 * n + unat b) 0 bs"

fun schedule_word :: "u8 list \<Rightarrow> nat \<Rightarrow> u32" where
  "schedule_word M t =
     (if t < 16 then of_nat (big_endian (take 4 (drop (4 * t) M)))
      else mix_shift 17 19 10 (schedule_word M (t - 2)) + schedule_word M (t - 7) +
           mix_shift 7 18 3 (schedule_word M (t - 15)) + schedule_word M (t - 16))"

declare schedule_word.simps [simp del]

text \<open>
  The working variables: after \<open>t\<close> rounds \<open>a, b, c, d\<close> are the first components at \<open>t + 3, \<dots>, t\<close> and \<open>e, f, g, h\<close> the
  second ones.
\<close>

fun working :: "u32 list \<Rightarrow> u8 list \<Rightarrow> nat \<Rightarrow> u32 \<times> u32" where
  "working H M n =
     (if n < 4 then (H ! (3 - n), H ! (7 - n))
      else let t = n - 4;
               x = snd (working H M t) + mix 6 11 25 (snd (working H M (t + 3))) +
                   chosen (snd (working H M (t + 3))) (snd (working H M (t + 2))) (snd (working H M (t + 1))) +
                   round_constant t + schedule_word M t;
               y = mix 2 13 22 (fst (working H M (t + 3))) +
                   majority (fst (working H M (t + 3))) (fst (working H M (t + 2))) (fst (working H M (t + 1)))
           in (x + y, fst (working H M t) + x))"

declare working.simps [simp del]

definition compress :: "u32 list \<Rightarrow> u8 list \<Rightarrow> u32 list" where
  "compress H M =
     map (\<lambda>i. H ! i + fst (working H M (67 - i))) [0..<4] @
     map (\<lambda>i. H ! (4 + i) + snd (working H M (67 - i))) [0..<4]"

definition padded :: "u8 list \<Rightarrow> u8 list" where
  "padded m = m @ [0x80] @ replicate (LEAST k. (length m + 1 + k) mod 64 = 56) 0 @
     map (\<lambda>i. of_nat (8 * length m div 256 ^ (7 - i))) [0..<8]"

definition sha256_spec :: "u8 list \<Rightarrow> u32 list" where
  "sha256_spec m =
     foldl compress initial_hash
       (map (\<lambda>i. take 64 (drop (64 * i) (padded m))) [0..<length (padded m) div 64])"

subsection \<open>Constants\<close>

text \<open>Trial division up to 17 is enough below \<open>18\<^sup>2\<close>.\<close>

lemma is_prime_trial:
  assumes "n < 324"
  shows "is_prime n \<longleftrightarrow> 1 < n \<and> list_all (\<lambda>d. d < n \<longrightarrow> n mod d \<noteq> 0) [2, 3, 4, 5, 6, 7, 8, 9, 10, 11, 12, 13, 14, 15, 16, 17]"
proof -
  have small: "\<exists>c \<in> {2..17}. c < n \<and> n mod c = 0" if d: "2 \<le> d" "d < n" "n mod d = 0" for d
  proof (cases "d \<le> 17")
    case False
    define e where "e = n div d"
    have n: "n = d * e" using d(3) mult_div_mod_eq[of d n] by (simp add: e_def)
    have e1: "1 < e"
    proof (rule ccontr)
      assume "\<not> 1 < e"
      then have "d * e \<le> d * 1" using d(1) by (intro mult_left_mono) simp_all
      with n d(2) show False by simp
    qed
    have "e \<le> 17"
    proof (rule ccontr)
      assume "\<not> e \<le> 17"
      then have "18 * 18 \<le> d * e" using False by (intro mult_mono) simp_all
      with n assms show False by simp
    qed
    moreover have "e < n" using n d(1) e1 by simp
    moreover have "n mod e = 0" using n by simp
    ultimately show ?thesis using e1 by (intro bexI[of _ e]) simp_all
  qed (use d in auto)
  have "list_all (\<lambda>d. n mod d \<noteq> 0) [2..n - 1] \<longleftrightarrow> (\<forall>d \<in> {2..17}. d < n \<longrightarrow> n mod d \<noteq> 0)"
    unfolding list_all_iff set_upto
  proof (intro iffI ballI impI)
    fix d assume all: "\<forall>d \<in> {2..n - 1}. n mod d \<noteq> 0" and d: "d \<in> {2..17}" "d < n"
    from d have "d \<in> {2..n - 1}" by simp
    with all show "n mod d \<noteq> 0" by (rule bspec)
  next
    fix d assume "\<forall>d \<in> {2..17}. d < n \<longrightarrow> n mod d \<noteq> 0" "d \<in> {2..n - 1}"
    then show "n mod d \<noteq> 0" using small[of d] by fastforce
  qed
  moreover have "{2..17} = set [2, 3, 4, 5, 6, 7, 8, 9, 10, 11, 12, 13, 14, 15, 16, 17 :: int]"
    unfolding set_upto[symmetric] by code_simp
  ultimately show ?thesis by (simp only: is_prime_def list_all_iff)
qed

lemma prime_table_eq:
  "prime_table = [2, 3, 5, 7, 11, 13, 17, 19, 23, 29, 31, 37, 41, 43, 47, 53, 59, 61, 67, 71, 73, 79, 83, 89, 97,
     101, 103, 107, 109, 113, 127, 131, 137, 139, 149, 151, 157, 163, 167, 173, 179, 181, 191, 193, 197, 199,
     211, 223, 227, 229, 233, 239, 241, 251, 257, 263, 269, 271, 277, 281, 283, 293, 307, 311]" (is "_ = ?ps")
proof -
  have "prime_table = filter (\<lambda>n. 1 < n \<and> list_all (\<lambda>d. d < n \<longrightarrow> n mod d \<noteq> 0)
      [2, 3, 4, 5, 6, 7, 8, 9, 10, 11, 12, 13, 14, 15, 16, 17]) [2..311]"
    unfolding prime_table_def
  proof (rule filter_cong[OF refl])
    fix n :: int assume "n \<in> set [2..311]"
    then have "n < 324" unfolding set_upto by simp
    then show "is_prime n = (1 < n \<and> list_all (\<lambda>d. d < n \<longrightarrow> n mod d \<noteq> 0)
        [2, 3, 4, 5, 6, 7, 8, 9, 10, 11, 12, 13, 14, 15, 16, 17])" by (rule is_prime_trial)
  qed
  also have "\<dots> = ?ps" by code_simp
  finally show ?thesis .
qed

lemma root_bits_eq:
  assumes "0 < k" and "0 \<le> n" and "n ^ k \<le> 2 ^ (32 * k) * p" and "2 ^ (32 * k) * p < (n + 1) ^ k"
  shows "root_bits k p = word_of_int n"
proof -
  let ?y = "2 ^ 32 * root k (real_of_int p)"
  have "0 \<le> 2 ^ (32 * k) * p" using assms(2,3) zero_le_power[OF assms(2), of k] by linarith
  then have p: "0 \<le> p" by (simp add: zero_le_mult_iff)
  have y: "?y ^ k = 2 ^ (32 * k) * real_of_int p" "0 \<le> ?y"
    using assms(1) p by (simp_all add: power_mult_distrib power_mult)
  have "real_of_int (n ^ k) \<le> real_of_int (2 ^ (32 * k) * p)" using assms(3) by (simp only: of_int_le_iff)
  then have "real_of_int n ^ k \<le> ?y ^ k" unfolding y(1) by simp
  moreover obtain j where "k = Suc j" using assms(1) by (cases k) simp_all
  ultimately have "real_of_int n \<le> ?y" using y(2) power_le_imp_le_base[of "real_of_int n" j ?y] by simp
  moreover have "real_of_int (2 ^ (32 * k) * p) < real_of_int ((n + 1) ^ k)" using assms(4) by (simp only: of_int_less_iff)
  then have "?y ^ k < real_of_int (n + 1) ^ k" unfolding y(1) by simp
  then have "?y < real_of_int (n + 1)" by (rule power_less_imp_less_base) (use assms(2) in simp)
  ultimately have "\<lfloor>?y\<rfloor> = n" by linarith
  then show ?thesis by (simp add: root_bits_def)
qed

definition root_check :: "nat \<Rightarrow> int \<Rightarrow> u32 \<Rightarrow> bool" where
  "root_check k p c \<longleftrightarrow>
     list_ex (\<lambda>r. let n = uint c + 2 ^ 32 * r in n ^ k \<le> 2 ^ (32 * k) * p \<and> 2 ^ (32 * k) * p < (n + 1) ^ k)
       [0, 1, 2, 3, 4, 5, 6]"

lemma root_checked:
  assumes "root_check k p c" and "0 < k"
  shows "root_bits k p = c"
proof -
  obtain r :: int where r: "r \<in> set [0, 1, 2, 3, 4, 5, 6]"
    and b: "(uint c + 2 ^ 32 * r) ^ k \<le> 2 ^ (32 * k) * p" "2 ^ (32 * k) * p < (uint c + 2 ^ 32 * r + 1) ^ k"
    using assms(1) unfolding root_check_def list_ex_iff Let_def by blast
  have "0 \<le> r" using r by auto
  then have "0 \<le> uint c + 2 ^ 32 * r" by simp
  from root_bits_eq[OF assms(2) this b] have "root_bits k p = word_of_int (uint c + 2 ^ 32 * r)" .
  also have "\<dots> = word_of_int (uint c) + word_of_int (2 ^ 32) * word_of_int r" by simp
  also have "(word_of_int (2 ^ 32) :: u32) = 0" by simp
  finally show ?thesis by simp
qed

lemma K_checked: "list_all2 (root_check 3) prime_table K"
  unfolding prime_table_eq by code_simp

lemma H0_checked: "list_all2 (root_check 2) (take 8 prime_table) H0"
  unfolding prime_table_eq by code_simp

lemma list_all2_constants: "list_all2 (root_check k) ps cs \<Longrightarrow> 0 < k \<Longrightarrow> cs = map (root_bits k) ps"
  by (induction ps cs rule: list_all2_induct) (simp_all add: root_checked)

lemma prime_table_length: "length prime_table = 64"
  by (simp add: prime_table_eq)

lemma K_eq: "K = map round_constant [0..<64]"
proof -
  have "K = map (root_bits 3) prime_table" using K_checked by (rule list_all2_constants) simp
  also have "prime_table = map (\<lambda>t. prime_table ! t) [0..<64]"
    using map_nth[of prime_table] by (simp add: prime_table_length)
  finally show ?thesis by (simp add: round_constant_def[abs_def] comp_def)
qed

lemma H0_eq: "H0 = initial_hash"
proof -
  have "H0 = map (root_bits 2) (take 8 prime_table)" using H0_checked by (rule list_all2_constants) simp
  also have "take 8 prime_table = map (\<lambda>t. prime_table ! t) [0..<8]"
    using map_nth[of prime_table] take_map[of 8 "\<lambda>t. prime_table ! t" "[0..<64]"] by (simp add: prime_table_length)
  finally show ?thesis by (simp add: initial_hash_def comp_def)
qed

subsection \<open>Functions on words\<close>

lemma rotr_word_rotr: "0 < n \<Longrightarrow> n < 32 \<Longrightarrow> rotr x n = word_rotr n x"
proof (rule bit_word_eqI)
  fix i assume "0 < n" "n < 32" "i < LENGTH(32)"
  then show "bit (rotr x n) i = bit (word_rotr n x) i"
  proof (cases "i + n < 32")
    case True
    then show ?thesis using \<open>n < 32\<close> by (auto simp: rotr_def bit_simps bit_word_rotr_iff add.commute)
  next
    case False
    then have "\<not> bit x (i + n)" using bit_imp_le_length[of x "i + n"] by auto
    moreover from False have "(i + n) mod 32 = i - (32 - n)" using \<open>i < LENGTH(32)\<close> \<open>n < 32\<close> by (simp add: mod_if)
    ultimately show ?thesis using False \<open>0 < n\<close> \<open>n < 32\<close> \<open>i < LENGTH(32)\<close>
      by (auto simp: rotr_def bit_simps bit_word_rotr_iff add.commute)
  qed
qed

lemma mix_rotr:
  "0 < i \<Longrightarrow> i < 32 \<Longrightarrow> 0 < j \<Longrightarrow> j < 32 \<Longrightarrow> 0 < k \<Longrightarrow> k < 32 \<Longrightarrow>
   rotr x i XOR rotr x j XOR rotr x k = mix i j k x"
  by (simp add: mix_def rotr_word_rotr)

lemma mix_shift_rotr:
  "0 < i \<Longrightarrow> i < 32 \<Longrightarrow> 0 < j \<Longrightarrow> j < 32 \<Longrightarrow> rotr x i XOR rotr x j XOR drop_bit k x = mix_shift i j k x"
  by (simp add: mix_shift_def rotr_word_rotr)

lemma chosen_xor: "(x AND y) XOR (NOT x AND z) = chosen x y z"
  by (rule bit_word_eqI) (auto simp: chosen_def bit_simps)

lemma majority_xor: "(x AND y) XOR (x AND z) XOR (y AND z) = majority x y z"
  by (rule bit_word_eqI) (auto simp: majority_def bit_simps)

subsection \<open>Message schedule\<close>

lemma push_byte: "push_bit 8 a OR ucast (b :: u8) = 256 * a + (ucast b :: u32)"
proof -
  have "push_bit 8 a AND ucast b = 0" by (rule bit_word_eqI) (auto simp: bit_simps dest: bit_imp_le_length)
  then have "push_bit 8 a OR ucast b = push_bit 8 a + ucast b" by (rule disjunctive_add_eq_or[symmetric])
  then show ?thesis by (simp add: push_bit_eq_mult mult.commute)
qed

lemma block_word_big_endian:
  assumes "length M = 64" and "i < 16"
  shows "block_word M i = of_nat (big_endian (take 4 (drop (4 * i) M)))"
proof -
  have four: "take 4 (drop (4 * i) M) = [M ! (i * 4), M ! (i * 4 + 1), M ! (i * 4 + 2), M ! (i * 4 + 3)]"
    using assms by (intro nth_equalityI) (auto simp: nth_Cons' mult.commute less_Suc_eq numeral_eq_Suc)
  have "block_word M i = push_bit 8 (push_bit 8 (push_bit 8 (ucast (M ! (i * 4))) OR ucast (M ! (i * 4 + 1))) OR
      ucast (M ! (i * 4 + 2))) OR ucast (M ! (i * 4 + 3))"
    by (simp add: block_word_def or.assoc)
  also have "\<dots> = of_nat (big_endian (take 4 (drop (4 * i) M)))"
    unfolding four push_byte by (simp add: big_endian_def of_nat_unat)
  finally show ?thesis .
qed

lemma expand_length: "length (expand n w) = length w + n"
  by (induction n w rule: expand.induct) simp_all

lemma expand_nth:
  assumes "\<And>t. t < length w \<Longrightarrow> w ! t = schedule_word M t" and "16 \<le> length w" and "t < length w + n"
  shows "expand n w ! t = schedule_word M t"
  using assms
proof (induction n w arbitrary: t rule: expand.induct)
  case (2 n w)
  let ?i = "length w"
  have "next_word w = schedule_word M ?i"
    using 2(2,3) schedule_word.simps[of M ?i]
    by (simp add: next_word_def Let_def mix_shift_rotr add.assoc add.commute add.left_commute)
  then have "\<And>t. t < length (w @ [next_word w]) \<Longrightarrow> (w @ [next_word w]) ! t = schedule_word M t"
    using 2(2) by (auto simp: nth_append less_Suc_eq)
  then show ?case using 2 by simp
qed simp

lemma schedule_eq:
  assumes "length M = 64"
  shows "schedule M = map (schedule_word M) [0..<64]"
proof (rule nth_equalityI)
  show "length (schedule M) = length (map (schedule_word M) [0..<64])"
    by (simp add: schedule_def expand_length)
next
  fix t assume "t < length (schedule M)"
  then have t: "t < 64" by (simp add: schedule_def expand_length)
  have "schedule M ! t = schedule_word M t"
    unfolding schedule_def
    by (rule expand_nth) (use t assms in \<open>simp_all add: block_word_big_endian schedule_word.simps del: upt_rec_numeral\<close>)
  then show "schedule M ! t = map (schedule_word M) [0..<64] ! t" using t by simp
qed

subsection \<open>Compression\<close>

definition work_state :: "u32 list \<Rightarrow> u8 list \<Rightarrow> nat \<Rightarrow> sha_state" where
  "work_state H M t =
     (fst (working H M (t + 3)), fst (working H M (t + 2)), fst (working H M (t + 1)), fst (working H M t),
      snd (working H M (t + 3)), snd (working H M (t + 2)), snd (working H M (t + 1)), snd (working H M t))"

lemma work_round: "sha_round (round_constant t, schedule_word M t) (work_state H M t) = work_state H M (Suc t)"
proof -
  have idx: "Suc t + 3 = t + 4" "Suc t + 2 = t + 3" "Suc t + 1 = t + 2" "Suc t = t + 1" by simp_all
  have w: "working H M (t + 4) =
      (let x = snd (working H M t) + mix 6 11 25 (snd (working H M (t + 3))) +
               chosen (snd (working H M (t + 3))) (snd (working H M (t + 2))) (snd (working H M (t + 1))) +
               round_constant t + schedule_word M t;
           y = mix 2 13 22 (fst (working H M (t + 3))) +
               majority (fst (working H M (t + 3))) (fst (working H M (t + 2))) (fst (working H M (t + 1)))
       in (x + y, fst (working H M t) + x))"
    by (subst working.simps) (simp only: diff_add_inverse2 Let_def if_False not_add_less2)
  show ?thesis
    unfolding work_state_def idx(1-3) w
    by (simp add: Let_def mix_rotr chosen_xor majority_xor)
qed

lemma work_rounds:
  "fold sha_round (map (\<lambda>t. (round_constant t, schedule_word M t)) [0..<n]) (work_state H M 0) = work_state H M n"
  by (induction n) (simp_all add: work_round)

lemma sha_block_eq:
  assumes "length M = 64" and "length H = 8"
  shows "sha_block M H = compress H M"
proof -
  have "zip K (schedule M) = map (\<lambda>t. (round_constant t, schedule_word M t)) [0..<64]"
    unfolding K_eq schedule_eq[OF assms(1)] zip_map_map by (simp add: zip_same_conv_map comp_def del: upt_rec_numeral)
  moreover have "to_state H = work_state H M 0"
    by (simp add: to_state_def work_state_def working.simps)
  ultimately have "fold sha_round (zip K (schedule M)) (to_state H) = work_state H M 64"
    using work_rounds[of M 64 H] by simp
  moreover obtain h0 h1 h2 h3 h4 h5 h6 h7 where H: "H = [h0, h1, h2, h3, h4, h5, h6, h7]"
    using assms(2) by (auto simp: numeral_eq_Suc length_Suc_conv)
  ultimately have "sha_block M H = map2 (+) H (of_state (work_state H M 64))" by (simp only: sha_block_def)
  also have "\<dots> = compress H M"
  proof -
    have "[0..<4] = [0, 1, 2, 3 :: nat]" by code_simp
    then show ?thesis unfolding compress_def work_state_def of_state.simps by (simp add: H)
  qed
  finally show ?thesis .
qed

lemma compress_length [simp]: "length (compress H M) = 8"
  by (simp add: compress_def)

lemma sha_blocks_eq:
  assumes "length msg = 64 * n" and "length H = 8"
  shows "sha_blocks msg H = foldl compress H (map (\<lambda>i. take 64 (drop (64 * i) msg)) [0..<n])"
  using assms
proof (induction n arbitrary: msg H)
  case 0
  then show ?case by (simp add: sha_blocks.simps)
next
  case (Suc n)
  then have "msg \<noteq> []" by auto
  then have "sha_blocks msg H = sha_blocks (drop 64 msg) (compress H (take 64 msg))"
    using Suc.prems by (subst sha_blocks.simps) (simp add: sha_block_eq)
  also have "\<dots> = foldl compress (compress H (take 64 msg)) (map (\<lambda>i. take 64 (drop (64 * i) (drop 64 msg))) [0..<n])"
    by (rule Suc.IH) (use Suc.prems in simp_all)
  also have "map (\<lambda>i. take 64 (drop (64 * i) (drop 64 msg))) [0..<n] = map (\<lambda>i. take 64 (drop (64 * i) msg)) (map Suc [0..<n])"
    by (simp add: comp_def add.commute)
  finally show ?case by (simp only: map_Suc_upt upt_conv_Cons zero_less_Suc list.map foldl.simps mult_0_right drop_0)
qed

subsection \<open>Padding\<close>

lemma pad_zeros_least: "pad_zeros msg = msg @ replicate (LEAST k. (length msg + k) mod 64 = 56) 0"
proof (induction msg rule: pad_zeros.induct)
  case (1 msg)
  show ?case
  proof (cases "length msg mod 64 = 56")
    case True
    then have "(LEAST k. (length msg + k) mod 64 = 56) = 0" by (intro Least_equality) simp_all
    with True show ?thesis by (subst pad_zeros.simps) simp
  next
    case False
    define P where "P = (\<lambda>k. (length msg + k) mod 64 = 56)"
    obtain k where "(length msg + k) mod 64 = 56"
    proof
      have "length msg mod 64 < 64" by simp
      moreover have "l + (120 - m) = 56 + 64 * (q + 1)" if "m < 64" "64 * q + m = l" for l m q :: nat
        using that by auto
      ultimately have "length msg + (120 - length msg mod 64) = 56 + 64 * (length msg div 64 + 1)"
        using mult_div_mod_eq[of 64 "length msg"] by blast
      then show "(length msg + (120 - length msg mod 64)) mod 64 = 56" by (simp only: mod_mult_self2) simp
    qed
    then have "P k" by (simp add: P_def)
    moreover have "\<not> P 0" using False by (simp add: P_def)
    ultimately have "(LEAST k. P k) = Suc (LEAST k. P (Suc k))" by (rule Least_Suc)
    then have "replicate (LEAST k. P k) (0 :: u8) = [0] @ replicate (LEAST k. P (Suc k)) 0" by simp
    with 1[OF False] False show ?thesis by (subst pad_zeros.simps) (simp add: P_def)
  qed
qed

lemma length_bytes_eq:
  assumes "8 * n < 2 ^ 64"
  shows "length_bytes (of_nat n * 8) = map (\<lambda>i. of_nat (8 * n div 256 ^ (7 - i))) [0..<8]"
proof -
  let ?l = "of_nat n * 8 :: 64 word"
  have l: "unat ?l = 8 * n"
  proof -
    have "?l = of_nat (8 * n)" by simp
    then show ?thesis using assms by (simp only: unsigned_of_nat) (simp add: take_bit_nat_eq_self)
  qed
  have byte: "ucast (drop_bit (i * 8) ?l AND 0xFF) = (of_nat (8 * n div 256 ^ i) :: u8)" for i
  proof -
    have "(0xFF :: 64 word) = mask 8" by (simp add: mask_eq_exp_minus_1)
    then have "ucast (drop_bit (i * 8) ?l AND 0xFF) = (ucast (take_bit 8 (drop_bit (i * 8) ?l)) :: u8)"
      by (simp add: take_bit_eq_mask)
    also have "\<dots> = ucast (drop_bit (i * 8) ?l)" by (rule bit_word_eqI) (simp add: bit_simps)
    also have "\<dots> = of_nat (unat (drop_bit (i * 8) ?l))" by simp
    also have "unat (drop_bit (i * 8) ?l) = 8 * n div 256 ^ i"
      unfolding unat_drop_bit_eq l using power_mult[of "2 :: nat" 8 i] by (simp add: drop_bit_eq_div mult.commute)
    finally show ?thesis .
  qed
  have "map (\<lambda>i. of_nat (8 * n div 256 ^ (7 - i))) [0..<8] = map (\<lambda>i. (of_nat (8 * n div 256 ^ i) :: u8)) [7, 6, 5, 4, 3, 2, 1, 0]"
  proof -
    have "[0..<8] = [0, 1, 2, 3, 4, 5, 6, 7 :: nat]" by code_simp
    then show ?thesis by simp
  qed
  then show ?thesis by (simp only: length_bytes_def byte)
qed

lemma sha_pad_eq: "8 * length m < 2 ^ 64 \<Longrightarrow> sha_pad m = padded m"
  using pad_zeros_least[of "m @ [0x80]"] by (simp add: sha_pad_def padded_def length_bytes_eq Let_def)

subsection \<open>Equivalence\<close>

text \<open>
  C31. The embedded hash function is SHA-256: for every message that the 64-bit length field can
  describe, it prints the eight words of the reference definition, whose constants are the roots of the
  primes, whose padding is the shortest one that leaves room for the length, and whose schedule and
  working variables are the recurrences of the standard.
\<close>

theorem sha256_eq_spec:
  assumes "8 * length input < 2 ^ 64"
  shows "sha256 input = concat (map hex8 (sha256_spec (map char_byte input)))"
proof -
  let ?m = "map char_byte input"
  have pad: "sha_pad ?m = padded ?m" using assms by (intro sha_pad_eq) simp
  then have "length (padded ?m) = 64 * (length (padded ?m) div 64)"
    using sha_pad_blocks[of ?m] mult_div_mod_eq[of 64 "length (padded ?m)"] by simp
  then show ?thesis
    unfolding sha256_def sha256_spec_def pad H0_eq
    by (subst sha_blocks_eq[where n = "length (padded ?m) div 64"]) (simp_all add: initial_hash_def)
qed

theorem sha256_eq_spec_witness:
  "8 * length ''abc'' < (2 :: nat) ^ 64 \<and>
   concat (map hex8 (sha256_spec (map char_byte ''abc''))) =
     ''ba7816bf8f01cfea414140de5dae2223b00361a396177a9cb410ff61f20015ad''"
  using sha256_eq_spec[of "''abc''"] sha256_abc by simp

end
