(* ===== verification/Quiet_Changes.thy ===== *)
theory Quiet_Changes
  imports Scenario
begin

text \<open>
  What a call of \<^verbatim>\<open>addOrder\<close> does to the orders it does not notify. Such an order keeps its terms and what
  it has left; the only changes that pass without a notification are those of a stop order that was
  triggered: its type, and its cancellation when it became a market order and found nothing to trade with.
\<close>

definition quiet_change :: "order \<Rightarrow> order \<Rightarrow> bool" where
  "quiet_change x y \<longleftrightarrow> same_contract x y \<and> o_remaining y = o_remaining x \<and>
     (o_status y = o_status x \<or> o_status y = CANCELED \<and> o_type y = MARKET) \<and>
     (o_type y = o_type x \<or> o_type x = STOP \<and> o_type y = MARKET \<or> o_type x = STOP_LIMIT \<and> o_type y = LIMIT)"

definition quiet :: "book \<Rightarrow> book \<Rightarrow> bool" where
  "quiet b c \<longleftrightarrow> (\<exists>us. pending_order_updates c = pending_order_updates b @ us \<and>
     (\<forall>r. r \<notin> set us \<longrightarrow> quiet_change (heap b r) (heap c r)))"

lemma quiet_change_refl [simp]: "quiet_change x x"
  by (simp add: quiet_change_def)

lemma quiet_change_trans: "quiet_change x y \<Longrightarrow> quiet_change y z \<Longrightarrow> quiet_change x z"
  by (auto simp: quiet_change_def same_contract_def)

lemma quiet_trans:
  assumes "quiet a b" and "quiet b c"
  shows "quiet a c"
proof -
  from assms obtain us vs where
    "pending_order_updates b = pending_order_updates a @ us" "\<forall>r. r \<notin> set us \<longrightarrow> quiet_change (heap a r) (heap b r)"
    "pending_order_updates c = pending_order_updates b @ vs" "\<forall>r. r \<notin> set vs \<longrightarrow> quiet_change (heap b r) (heap c r)"
    unfolding quiet_def by blast
  then show ?thesis
    unfolding quiet_def by (intro exI[of _ "us @ vs"]) (auto intro: quiet_change_trans)
qed

lemma quiet_same:
  assumes "pending_order_updates c = pending_order_updates b" and "\<And>r. quiet_change (heap b r) (heap c r)"
  shows "quiet b c"
  using assms by (auto simp: quiet_def intro!: exI[of _ "[]"])

lemma quiet_refl: "quiet b b"
  by (rule quiet_same) simp_all

lemma quiet_trade:
  assumes "pending_order_updates c = pending_order_updates b @ us" and "\<And>r. r \<notin> set us \<Longrightarrow> heap c r = heap b r"
  shows "quiet b c"
  using assms unfolding quiet_def by (intro exI[of _ us]) simp

lemma match_level_quiet:
  assumes "level_pre p qs b"
  shows "quiet b (snd (match_level now p qs b))"
  using assms
proof (induction rule: match_level_induct[where now = now])
  case (Part q qs b)
  show ?case by (rule quiet_trade) (auto simp: part_fill_eq[OF Part] split: if_splits)
next
  case (Full q qs b qs' b')
  have "quiet b (full_fill now p q b)"
    by (rule quiet_trade) (auto simp: full_fill_eq[OF Full(1-3)] split: if_splits)
  then show ?case using Full(4) by (rule quiet_trans)
qed (simp_all add: quiet_refl)

lemma round_quiet: "round_pre X p k qs b \<Longrightarrow> quiet b (match_round now p k qs b)"
  using match_level_quiet[OF round_level_pre, of X p k qs b now] by (simp add: quiet_def match_round_fields)

lemma quiet_cancel: "active x \<Longrightarrow> o_type x = MARKET \<Longrightarrow> quiet_change x (snd (cancel x))"
  by (simp add: quiet_change_def cancel_def same_contract_def has_limit_def active_iff)

lemma settle_quiet:
  assumes "match_pre X p b"
  shows "quiet b (settle p b)"
proof (rule quiet_same)
  show "pending_order_updates (settle p b) = pending_order_updates b"
    by (simp add: settle_def erase_id_def addOrderToBook_def split: OrderSide.splits)
  fix r
  have "active (heap b p)" if "rem_qty b p \<noteq> 0"
    using assms that by (auto simp: match_pre_def live_def)
  then show "quiet_change (heap b r) (heap (settle p b) r)"
    by (auto simp: settle_def erase_id_def addOrderToBook_def quiet_cancel u32_positive_iff split: OrderSide.splits)
qed

lemma quiet_trigger: "quiet_change x (snd (trigger x))"
  by (auto simp: quiet_change_def trigger_def same_contract_def has_limit_def)

interpretation quiet: engine_relation quiet
proof unfold_locales
  fix X sd k ps b assume pre: "pop_pre X sd k ps b"
  show "quiet b (pop_level sd k ps b)"
    by (rule quiet_same) (simp_all add: pop_level_fields[OF pre] quiet_trigger)
next
  fix b p assume "open_order b p"
  show "quiet b (addStopOrder p b)" by (rule quiet_same) (simp_all add: addStopOrder_stops)
qed (auto intro: quiet_refl quiet_trans round_quiet settle_quiet)

lemma accepted_quiet:
  assumes "entered p (enter p b)" and "process_new now p (enter p b) = Some b'"
    and "r \<notin> set (pending_order_updates b')"
  shows "quiet_change (heap b r) (heap b' r)"
  using quiet.R_new[OF assms(2,1)] assms(3) by (auto simp: quiet_def)

text \<open>Notified orders are the incoming one or were in the book.\<close>

lemma accepted_known:
  assumes "entered p (enter p b)" and "process_new now p (enter p b) = Some b'"
    and "u \<in> set (pending_order_updates b')"
  shows "u = p \<or> in_book b u"
  using known_updates.R_new[OF assms(2,1)] assms(3) enter_indexed[OF assms(1), of u]
  by (auto simp: known_updates_def)

lemma in_book_type: "book_inv b \<Longrightarrow> in_book b q \<Longrightarrow> active (heap b q) \<and> o_type (heap b q) \<noteq> MARKET"
  using book_invD(1-4)[of "{}" b]
  by (auto simp: in_book_def rests_def waits_def open_order_def isStopOrder_def dest!: levels_ok_in)

subsection \<open>What passes without a notification\<close>

text \<open>
  C21. No order changes without a notification, triggered stop orders apart. When a call of \<^verbatim>\<open>addOrder\<close> has
  been accepted on a consistent book with a callback, an order of the book that no event names still has its terms
  and its remainder. Its type is unchanged, unless it is a stop order that was triggered; its status is unchanged,
  unless it became a market order, found nothing to trade with and was cancelled. The owner of such a
  stop order is told nothing.
\<close>

theorem unnotified_orders:
  assumes "book_inv b" and "active (heap b p)" and "wf_order (heap b p)" and "order_callback b"
    and "addOrder now (Some p) b = Some (True, evs, b')" and "in_book b r" and "OrderEvent r \<notin> set evs"
  shows "same_contract (heap b r) (heap b' r) \<and> rem_qty b' r = rem_qty b r \<and>
    (o_status (heap b' r) = o_status (heap b r) \<or>
       o_type (heap b r) = STOP \<and> o_type (heap b' r) = MARKET \<and> o_status (heap b' r) = CANCELED) \<and>
    (o_type (heap b' r) = o_type (heap b r) \<or> o_type (heap b r) = STOP \<and> o_type (heap b' r) = MARKET \<or>
       o_type (heap b r) = STOP_LIMIT \<and> o_type (heap b' r) = LIMIT)"
proof -
  note acc = addOrder_accepted[OF assms(1-3,5)]
  have "order_callback b'" using accepted_recorded(4)[OF acc(2,3)] assms(4) by (simp add: same_settings_def)
  then have "r \<notin> set (pending_order_updates b')" using acc(4) assms(7) by (auto simp: callbacks_def)
  then have "quiet_change (heap b r) (heap b' r)" using accepted_quiet[OF acc(2,3)] by blast
  then show ?thesis using in_book_type[OF assms(1,6)] by (auto simp: quiet_change_def)
qed

text \<open>
  A buy stop order that is set off by the trade that empties the other side: it is cancelled, and only the
  incoming order and its counterpart are notified.
\<close>

definition sc_thin :: book where
  "sc_thin = submit_all [3, 4] sc_empty"

definition sc_thin_after :: book where
  "sc_thin_after = submit_all [5] sc_thin"

lemma sc_thin_inv: "book_inv sc_thin"
  unfolding sc_thin_def
proof (rule submit_all_inv[OF sc_empty_inv])
  show "all_ready [3, 4] sc_empty" by code_simp
qed

lemma sc_thin_ready: "active (heap sc_thin 5)" "wf_order (heap sc_thin 5)" "acceptable 5 sc_thin" "order_callback sc_thin"
  by code_simp+

lemma sc_thin_run: "addOrder sc_now (Some 5) sc_thin = Some (True, callbacks 5 sc_thin_after, sc_thin_after)"
  by (rule addOrder_run[OF sc_thin_inv sc_thin_ready(1,2), of sc_now]) (simp_all add: sc_thin_ready sc_thin_after_def)

theorem unnotified_orders_witness:
  "o_status (heap sc_thin 4) = PENDING \<and> o_type (heap sc_thin 4) = STOP \<and> OrderEvent 4 \<notin> set (callbacks 5 sc_thin_after) \<and>
   o_status (heap sc_thin_after 4) = CANCELED \<and> o_type (heap sc_thin_after 4) = MARKET \<and>
   rem_qty sc_thin_after 4 = rem_qty sc_thin 4"
proof -
  have "stop_buy_orders sc_thin = [(11, [4])]" by code_simp
  then have "in_book sc_thin 4" by (simp add: in_book_def in_levels_def map_find_Cons)
  moreover have quiet: "OrderEvent 4 \<notin> set (callbacks 5 sc_thin_after)" by code_simp
  ultimately have "rem_qty sc_thin_after 4 = rem_qty sc_thin 4"
    using unnotified_orders[OF sc_thin_inv sc_thin_ready(1,2,4) sc_thin_run] by blast
  moreover have "o_status (heap sc_thin 4) = PENDING" "o_type (heap sc_thin 4) = STOP"
    "o_status (heap sc_thin_after 4) = CANCELED" "o_type (heap sc_thin_after 4) = MARKET" by code_simp+
  ultimately show ?thesis using quiet by blast
qed

end
