(* ===== verification/Text_Io.thy ===== *)
theory Text_Io
  imports Float64
begin

text \<open>
  The parts of the C++ text library that \<^verbatim>\<open>message.cpp\<close> uses: \<^verbatim>\<open>std::getline\<close>, \<^verbatim>\<open>std::string::find\<close>, and
  the stream operators for \<^verbatim>\<open>uint32_t\<close>, \<^verbatim>\<open>int\<close> and \<^verbatim>\<open>double\<close> (in the classic locale, decimal, fixed with
  two digits for output). Extraction follows \<^verbatim>\<open>num_get\<close>: white space is skipped, the longest acceptable
  prefix is converted, a number that cannot be converted reads as zero, and one that is out of
  range as the nearest limit. When nothing but white space is left nothing is stored, and the
  variable keeps what it held; the first argument of the scanners is that value.
\<close>

definition newline :: char where
  "newline = CHR 0x0A"

definition is_digit :: "char \<Rightarrow> bool" where
  "is_digit c \<longleftrightarrow> 48 \<le> (of_char c :: nat) \<and> (of_char c :: nat) \<le> 57"

definition is_space :: "char \<Rightarrow> bool" where
  "is_space c \<longleftrightarrow> (of_char c :: nat) = 32 \<or> 9 \<le> (of_char c :: nat) \<and> (of_char c :: nat) \<le> 13"

definition digit_val :: "char \<Rightarrow> nat" where
  "digit_val c = of_char c - 48"

definition digit_char :: "nat \<Rightarrow> char" where
  "digit_char d = char_of (48 + d)"

subsection \<open>Lines\<close>

text \<open>The lines that successive calls of \<^verbatim>\<open>std::getline\<close> deliver.\<close>

function getlines :: "string \<Rightarrow> string list" where
  "getlines s =
     (if s = [] then []
      else takeWhile (\<lambda>c. c \<noteq> newline) s # getlines (drop 1 (dropWhile (\<lambda>c. c \<noteq> newline) s)))"
  by pat_completeness auto
termination
proof (relation "measure length")
  fix s :: string
  assume "s \<noteq> []"
  moreover have "length (dropWhile (\<lambda>c. c \<noteq> newline) s) \<le> length s" by (rule length_dropWhile_le)
  moreover have "0 < length s" using \<open>s \<noteq> []\<close> by simp
  ultimately show "(drop 1 (dropWhile (\<lambda>c. c \<noteq> newline) s), s) \<in> measure length"
    by (simp only: in_measure length_drop)
qed simp

declare getlines.simps [simp del]

definition begins :: "string \<Rightarrow> string \<Rightarrow> bool" where
  "begins line key \<longleftrightarrow> take (length key) line = key"

text \<open>What follows the first \<open>=\<close>; \<open>None\<close> when there is none.\<close>

definition after_equals :: "string \<Rightarrow> string option" where
  "after_equals line =
     (case dropWhile (\<lambda>c. c \<noteq> CHR ''='') line of [] \<Rightarrow> None | _ # value \<Rightarrow> Some value)"

subsection \<open>Numbers\<close>

fun show_nat :: "nat \<Rightarrow> string" where
  "show_nat n = (if n < 10 then [digit_char n] else show_nat (n div 10) @ [digit_char (n mod 10)])"

declare show_nat.simps [simp del]

definition show_int :: "int \<Rightarrow> string" where
  "show_int i = (if i < 0 then ''-'' else []) @ show_nat (nat \<bar>i\<bar>)"

definition show_fixed2 :: "double \<Rightarrow> string" where
  "show_fixed2 x =
     (let n = nat (round_even (\<bar>x\<bar> * 100))
      in (if x < 0 then ''-'' else []) @ show_nat (n div 100) @ ''.'' @
         [digit_char (n div 10 mod 10), digit_char (n mod 10)])"

definition digits_val :: "string \<Rightarrow> nat" where
  "digits_val ds = foldl (\<lambda>v c. v * 10 + digit_val c) 0 ds"

definition split_sign :: "string \<Rightarrow> bool \<times> string" where
  "split_sign s =
     (case s of [] \<Rightarrow> (False, [])
      | c # t \<Rightarrow> if c = CHR ''-'' then (True, t) else if c = CHR ''+'' then (False, t) else (False, s))"

definition scan_uint32 :: "u32 \<Rightarrow> string \<Rightarrow> u32" where
  "scan_uint32 old str =
     (let s = dropWhile is_space str
      in if s = [] then old
         else case split_sign s of
           (neg, t) \<Rightarrow>
             let ds = takeWhile is_digit t; v = digits_val ds
             in if ds = [] then 0
                else if v \<ge> 2 ^ 32 then - 1
                else if neg then - of_nat v else of_nat v)"

definition scan_int :: "int \<Rightarrow> string \<Rightarrow> int" where
  "scan_int old str =
     (let s = dropWhile is_space str
      in if s = [] then old
         else case split_sign s of
           (neg, t) \<Rightarrow>
             let ds = takeWhile is_digit t; v = int (digits_val ds)
             in if ds = [] then 0
                else if neg then max (- (2 ^ 31)) (- v) else min (2 ^ 31 - 1) v)"

definition clamp_double :: "double \<Rightarrow> double" where
  "clamp_double x = max (- dbl_max) (min dbl_max x)"

definition ten_pow :: "int \<Rightarrow> rat" where
  "ten_pow e = (if 0 \<le> e then 10 ^ nat e else 1 / 10 ^ nat (- e))"

text \<open>The characters of a decimal number after its sign: digits, a fraction, an exponent.\<close>

definition split_fraction :: "string \<Rightarrow> string \<times> string" where
  "split_fraction t =
     (case t of [] \<Rightarrow> ([], [])
      | c # r \<Rightarrow> if c = CHR ''.'' then (takeWhile is_digit r, dropWhile is_digit r) else ([], t))"

definition scan_exponent :: "string \<Rightarrow> int option" where
  "scan_exponent t =
     (case t of [] \<Rightarrow> Some 0
      | c # r \<Rightarrow>
          if c = CHR ''e'' \<or> c = CHR ''E''
          then (case split_sign r of
                  (neg, u) \<Rightarrow>
                    let ds = takeWhile is_digit u
                    in if ds = [] then None
                       else Some (if neg then - int (digits_val ds) else int (digits_val ds)))
          else Some 0)"

definition scan_decimal :: "bool \<Rightarrow> string \<Rightarrow> double" where
  "scan_decimal neg t =
     (case split_fraction (dropWhile is_digit t) of
        (fp, r) \<Rightarrow>
          let ds = takeWhile is_digit t @ fp
          in if ds = [] then 0
             else case scan_exponent r of
               None \<Rightarrow> 0
             | Some ex \<Rightarrow>
                 let v = of_nat (digits_val ds) * ten_pow (ex - int (length fp))
                 in clamp_double (fl (if neg then - v else v)))"

definition scan_double :: "double \<Rightarrow> string \<Rightarrow> double" where
  "scan_double old str =
     (let s = dropWhile is_space str
      in if s = [] then old else case split_sign s of (neg, t) \<Rightarrow> scan_decimal neg t)"

subsection \<open>Reading lines back\<close>

lemma getlines_Nil [simp]: "getlines [] = []"
  by (simp add: getlines.simps)

lemma getlines_line:
  assumes "newline \<notin> set l"
  shows "getlines (l @ newline # r) = l # getlines r"
proof -
  have "takeWhile (\<lambda>c. c \<noteq> newline) (l @ newline # r) = l"
    "dropWhile (\<lambda>c. c \<noteq> newline) (l @ newline # r) = newline # r"
    using assms by (simp_all add: takeWhile_append dropWhile_append)
  then show ?thesis by (subst getlines.simps) simp
qed

lemma getlines_last:
  assumes "newline \<notin> set l" and "l \<noteq> []"
  shows "getlines l = [l]"
proof -
  have "takeWhile (\<lambda>c. c \<noteq> newline) l = l" "dropWhile (\<lambda>c. c \<noteq> newline) l = []"
    using assms(1) by (auto simp: takeWhile_eq_all_conv dropWhile_eq_Nil_conv)
  then show ?thesis using assms(2) getlines.simps[of l] by (simp only: drop_Nil getlines_Nil if_False)
qed

text \<open>No delivered line contains a line break.\<close>

lemma getlines_no_newline: "l \<in> set (getlines s) \<Longrightarrow> newline \<notin> set l"
proof (induction s rule: getlines.induct)
  case (1 s)
  show ?case
  proof (cases "s = []")
    case False
    have "newline \<notin> set (takeWhile (\<lambda>c. c \<noteq> newline) s)" by (auto dest: set_takeWhileD)
    with 1 False show ?thesis by (subst (asm) (2) getlines.simps) auto
  qed (use 1 in simp)
qed

lemma after_equals_field:
  assumes "CHR ''='' \<notin> set k"
  shows "after_equals (k @ ''='' @ v) = Some v"
proof -
  have "dropWhile (\<lambda>c. c \<noteq> CHR ''='') (k @ ''='' @ v) = ''='' @ v"
    using assms by (subst dropWhile_append2) auto
  then show ?thesis by (simp add: after_equals_def)
qed

lemma begins_append [simp]: "begins (k @ v) k"
  by (simp add: begins_def)

subsection \<open>Reading numbers back\<close>

lemma of_digit_char: "d < 10 \<Longrightarrow> (of_char (digit_char d) :: nat) = 48 + d"
  by (simp add: digit_char_def of_char_of take_bit_nat_eq_self)

lemma digit_char_simps [simp]:
  "d < 10 \<Longrightarrow> is_digit (digit_char d)" "d < 10 \<Longrightarrow> digit_val (digit_char d) = d"
  by (simp_all add: is_digit_def digit_val_def of_digit_char)

lemma is_digit_facts:
  assumes "is_digit c"
  shows "\<not> is_space c" "c \<noteq> CHR ''-''" "c \<noteq> CHR ''+''" "c \<noteq> newline" "c \<noteq> CHR ''.''"
    "c \<noteq> CHR ''e''" "c \<noteq> CHR ''E''"
  using assms by (auto simp: is_digit_def is_space_def newline_def)

lemma show_nat_digits: "c \<in> set (show_nat n) \<Longrightarrow> is_digit c"
  by (induction n rule: show_nat.induct) (subst (asm) (2) show_nat.simps, auto split: if_splits)

lemma show_nat_nonempty [simp]: "show_nat n \<noteq> []"
  by (subst show_nat.simps) simp

lemma digits_val_snoc [simp]: "digits_val (ds @ [c]) = digits_val ds * 10 + digit_val c"
  by (simp add: digits_val_def)

lemma digits_val_Nil [simp]: "digits_val [] = 0"
  by (simp add: digits_val_def)

lemma digits_val_show_nat [simp]: "digits_val (show_nat n) = n"
proof (induction n rule: show_nat.induct)
  case (1 n)
  show ?case
  proof (cases "n < 10")
    case True
    then show ?thesis using digits_val_snoc[of "[]" "digit_char n"] by (subst show_nat.simps) simp
  next
    case False
    with 1 show ?thesis by (subst show_nat.simps) simp
  qed
qed

text \<open>What follows a run of digits is left alone.\<close>

definition ends_digits :: "string \<Rightarrow> bool" where
  "ends_digits r \<longleftrightarrow> r = [] \<or> \<not> is_digit (hd r)"

lemma span_digits:
  assumes "\<And>c. c \<in> set ds \<Longrightarrow> is_digit c" and "ends_digits r"
  shows "takeWhile is_digit (ds @ r) = ds" "dropWhile is_digit (ds @ r) = r"
  using assms by (cases r; simp add: ends_digits_def takeWhile_append dropWhile_append takeWhile_eq_all_conv)+

lemma head_show_nat:
  obtains c ds where "show_nat n = c # ds" "is_digit c"
  using show_nat_digits[of _ n] show_nat_nonempty[of n] by (cases "show_nat n") auto

lemma unsigned_head:
  "dropWhile is_space (show_nat n @ r) = show_nat n @ r" "split_sign (show_nat n @ r) = (False, show_nat n @ r)"
  by (rule head_show_nat[of n]; simp add: is_digit_facts split_sign_def)+

lemma minus_head: "dropWhile is_space (''-'' @ s) = ''-'' @ s" "split_sign (''-'' @ s) = (True, s)"
  by (simp_all add: is_space_def split_sign_def)

lemma take_show_nat: "takeWhile is_digit (show_nat n) = show_nat n"
  using show_nat_digits by (simp add: takeWhile_eq_all_conv)

lemma scan_uint32_show: "n < 2 ^ 32 \<Longrightarrow> scan_uint32 old (show_nat n) = of_nat n"
  using unsigned_head[of n "[]"] by (simp add: scan_uint32_def take_show_nat Let_def)

lemma scan_int_show:
  assumes "- (2 ^ 31) \<le> i" and "i < 2 ^ 31"
  shows "scan_int old (show_int i) = i"
proof (cases "i < 0")
  case True
  then show ?thesis
    using assms minus_head[of "show_nat (nat (- i))"]
    by (simp add: scan_int_def show_int_def Let_def take_show_nat)
next
  case False
  then show ?thesis
    using assms unsigned_head[of "nat i" "[]"] by (simp add: scan_int_def show_int_def Let_def take_show_nat)
qed

subsection \<open>Prices on the wire\<close>

text \<open>The value of what \<open>show_fixed2\<close> prints: the number rounded to hundredths.\<close>

definition printed :: "double \<Rightarrow> rat" where
  "printed x = (if x < 0 then - 1 else 1) * of_nat (nat (round_even (\<bar>x\<bar> * 100))) / 100"

lemma fixed2_digits:
  fixes n :: nat
  defines "fp \<equiv> [digit_char (n div 10 mod 10), digit_char (n mod 10)]"
  shows "takeWhile is_digit (show_nat (n div 100) @ ''.'' @ fp) = show_nat (n div 100)"
    "dropWhile is_digit (show_nat (n div 100) @ ''.'' @ fp) = ''.'' @ fp"
    "takeWhile is_digit fp = fp" "dropWhile is_digit fp = []"
    "digits_val (show_nat (n div 100) @ fp) = n"
proof -
  have e: "ends_digits (''.'' @ fp)" by (simp add: ends_digits_def is_digit_def)
  show "takeWhile is_digit (show_nat (n div 100) @ ''.'' @ fp) = show_nat (n div 100)"
    "dropWhile is_digit (show_nat (n div 100) @ ''.'' @ fp) = ''.'' @ fp"
    using span_digits[OF show_nat_digits e] by simp_all
  show "takeWhile is_digit fp = fp" "dropWhile is_digit fp = []" by (simp_all add: fp_def)
  have "digits_val (show_nat (n div 100) @ fp) = n div 100 * 100 + n div 10 mod 10 * 10 + n mod 10"
    using digits_val_snoc[of "show_nat (n div 100) @ [digit_char (n div 10 mod 10)]" "digit_char (n mod 10)"]
    by (simp add: fp_def)
  also have "\<dots> = n"
  proof -
    have "n div 100 = n div 10 div 10" using div_mult2_eq[of n 10 10] by simp
    then show ?thesis using div_mult_mod_eq[of n 10] div_mult_mod_eq[of "n div 10" 10] by linarith
  qed
  finally show "digits_val (show_nat (n div 100) @ fp) = n" .
qed

lemma scan_decimal_fixed2:
  "scan_decimal neg (show_nat (n div 100) @ ''.'' @ [digit_char (n div 10 mod 10), digit_char (n mod 10)]) =
     clamp_double (fl ((if neg then - 1 else 1) * of_nat n / 100))"
proof -
  let ?fp = "[digit_char (n div 10 mod 10), digit_char (n mod 10)]"
  note d = fixed2_digits[of n]
  have "split_fraction (''.'' @ ?fp) = (?fp, [])" using d(3,4) by (simp add: split_fraction_def)
  moreover have "show_nat (n div 100) @ ?fp \<noteq> []" by simp
  moreover have "ten_pow (0 - int (length ?fp)) = 1 / 100" by (simp add: ten_pow_def)
  moreover have "scan_exponent [] = Some 0" by (simp add: scan_exponent_def)
  ultimately show ?thesis
    unfolding scan_decimal_def d(1,2) by (simp only: prod.case Let_def if_False option.case d(5)) simp
qed

lemma scan_fixed2: "scan_double old (show_fixed2 x) = clamp_double (fl (printed x))"
proof -
  define n where "n = nat (round_even (\<bar>x\<bar> * 100))"
  define t where "t = show_nat (n div 100) @ ''.'' @ [digit_char (n div 10 mod 10), digit_char (n mod 10)]"
  have sign: "show_fixed2 x = (if x < 0 then ''-'' else []) @ t"
    by (simp add: show_fixed2_def Let_def n_def t_def)
  have t: "dropWhile is_space t = t" "split_sign t = (False, t)" "t \<noteq> []"
    unfolding t_def using unsigned_head by simp_all
  have "scan_double old (show_fixed2 x) = scan_decimal (x < 0) t"
    using t minus_head[of t] by (cases "x < 0") (simp_all add: sign scan_double_def)
  then show ?thesis unfolding t_def scan_decimal_fixed2 printed_def n_def .
qed

lemma round_even_near: "\<bar>y - of_int n\<bar> < 1 / 2 \<Longrightarrow> round_even y = n"
proof -
  assume "\<bar>y - of_int n\<bar> < 1 / 2"
  with round_even_error[of y] have "\<bar>of_int (round_even y) - of_int n :: rat\<bar> < 1" by linarith
  then show ?thesis by linarith
qed

text \<open>A price of whole cents: the double nearest to a multiple of \<open>1/100\<close>.\<close>

definition cents_price :: "double \<Rightarrow> bool" where
  "cents_price x \<longleftrightarrow> (let n = round_even (x * 100) in x = fl (of_int n / 100) \<and> \<bar>n\<bar> \<le> 2 ^ 50)"

lemma hundredth_error:
  assumes "\<bar>n\<bar> \<le> 2 ^ 50"
  shows "\<bar>fl (of_int n / 100) * 100 - of_int n\<bar> \<le> 1 / 4" "\<bar>fl (of_int n / 100)\<bar> \<le> 2 ^ 50"
proof -
  have n: "\<bar>of_int n\<bar> \<le> (2 ^ 50 :: rat)"
    using assms of_int_le_iff[of "\<bar>n\<bar>" "2 ^ 50", where ?'a = rat] by simp
  then have "\<bar>of_int n / 100 :: rat\<bar> \<le> 2 ^ 50 / 100" by (simp add: abs_div)
  then have "\<bar>of_int n / 100 :: rat\<bar> * unit_roundoff \<le> 2 ^ 50 / 100 * unit_roundoff"
    by (rule mult_right_mono) (simp add: unit_roundoff_def)
  moreover have "2 ^ 50 / 100 * unit_roundoff = 1 / 800" by (simp add: unit_roundoff_def)
  moreover have "two_pow (- 1075) \<le> two_pow (- 20)" by (rule two_pow_mono) simp
  then have "two_pow (- 1075) \<le> 1 / 2 ^ 20" by (simp add: two_pow_def)
  ultimately have e: "\<bar>fl (of_int n / 100) - of_int n / 100\<bar> \<le> 1 / 800 + 1 / 2 ^ 20"
    using fl_absolute[of "of_int n / 100"] by linarith
  have "\<bar>fl (of_int n / 100) * 100 - of_int n\<bar> = \<bar>fl (of_int n / 100) - of_int n / 100\<bar> * 100"
    by (simp add: abs_if left_diff_distrib)
  also have "\<dots> \<le> (1 / 800 + 1 / 2 ^ 20) * 100" using e by (rule mult_right_mono) simp
  also have "\<dots> \<le> 1 / 4" by simp
  finally show "\<bar>fl (of_int n / 100) * 100 - of_int n\<bar> \<le> 1 / 4" .
  have "\<bar>fl (of_int n / 100) - 0\<bar> \<le> 2 ^ 50"
    using e by (rule abs_chain[where y = "2 ^ 50 / 100"]) (use n in \<open>simp_all add: abs_div\<close>)
  then show "\<bar>fl (of_int n / 100)\<bar> \<le> 2 ^ 50" by simp
qed

lemma price_roundtrip:
  assumes "cents_price x"
  shows "scan_double old (show_fixed2 x) = x"
proof -
  obtain n where n: "\<bar>n\<bar> \<le> 2 ^ 50" "x = fl (of_int n / 100)"
    using assms by (auto simp: cents_price_def Let_def)
  note e = hundredth_error[OF n(1), folded n(2)]
  have "printed x = of_int n / 100"
  proof (cases "n = 0")
    case True
    then show ?thesis by (simp add: printed_def n(2) round_even_def)
  next
    case False
    then have "1 \<le> \<bar>of_int n :: rat\<bar>" by (simp flip: of_int_abs)
    with e(1) have neg: "x < 0 \<longleftrightarrow> n < 0" and "\<bar>\<bar>x\<bar> * 100 - of_int \<bar>n\<bar>\<bar> < 1 / 2"
      by (auto simp: abs_if split: if_splits)
    then have "round_even (\<bar>x\<bar> * 100) = \<bar>n\<bar>" by (intro round_even_near)
    then show ?thesis using neg by (simp add: printed_def)
  qed
  then have "scan_double old (show_fixed2 x) = clamp_double x"
    using scan_fixed2[of old x] by (simp only: n(2)[symmetric])
  moreover have "(2 ^ 50 :: rat) \<le> dbl_max" by (simp add: dbl_max_def)
  ultimately show ?thesis using e(2) by (simp add: clamp_double_def max_def min_def abs_le_iff)
qed

text \<open>Printed numbers hold neither line breaks nor white space.\<close>

lemma show_nat_no_newline [simp]: "newline \<notin> set (show_nat n)"
  using show_nat_digits is_digit_facts(4) by blast

lemma show_int_no_newline [simp]: "newline \<notin> set (show_int i)"
  by (simp add: show_int_def newline_def[symmetric]) (simp add: newline_def)

lemma show_fixed2_no_newline [simp]: "newline \<notin> set (show_fixed2 x)"
proof -
  have "newline \<noteq> digit_char d" if "d < 10" for d
    using is_digit_facts(4)[OF digit_char_simps(1)[OF that]] by simp
  then show ?thesis by (simp add: show_fixed2_def Let_def) (simp add: newline_def)
qed

end
