(* ===== verification/Calendar.thy ===== *)
theory Calendar
  imports Text_Io
begin

text \<open>
  What the program uses of the time functions of the C and C++ libraries: clock ticks and seconds, \<^verbatim>\<open>gmtime_r\<close> and
  \<^verbatim>\<open>timegm\<close> for the proleptic Gregorian calendar, which repeats every 400 years of 146097 days, and the
  conversions of \<^verbatim>\<open>put_time\<close> and \<^verbatim>\<open>get_time\<close>. The time zone is not here: it is a parameter of the
  functions that use it (\<open>env\<close> in \<open>Message\<close>).
\<close>

subsection \<open>Ticks and seconds\<close>

text \<open>
  Clock ticks are nanoseconds. \<^verbatim>\<open>duration_cast\<close> and \<^verbatim>\<open>%\<close> truncate towards zero.
\<close>

definition quot :: "int \<Rightarrow> int \<Rightarrow> int" where
  "quot a k = (if 0 \<le> a then a div k else - ((- a) div k))"

definition to_time_t :: "time \<Rightarrow> int" where
  "to_time_t tp = quot tp (10 ^ 9)"

definition millis :: "time \<Rightarrow> int" where
  "millis tp = (let ms = quot tp (10 ^ 6) in ms - quot ms 1000 * 1000)"

definition pad3 :: "string \<Rightarrow> string" where
  "pad3 s = replicate (3 - length s) (CHR ''0'') @ s"

subsection \<open>The calendar\<close>

record tm =
  tm_year :: int
  tm_mon :: nat
  tm_mday :: int
  tm_hour :: int
  tm_min :: int
  tm_sec :: int

definition leap :: "nat \<Rightarrow> bool" where
  "leap y \<longleftrightarrow> y mod 4 = 0 \<and> (y mod 100 \<noteq> 0 \<or> y mod 400 = 0)"

definition month_lengths :: "nat \<Rightarrow> nat list" where
  "month_lengths y = [31, if leap y then 29 else 28, 31, 30, 31, 30, 31, 31, 30, 31, 30, 31]"

definition year_length :: "nat \<Rightarrow> nat" where
  "year_length y = (if leap y then 366 else 365)"

definition days_before_year :: "nat \<Rightarrow> nat" where
  "days_before_year y = sum_list (map year_length [1970..<y])"

text \<open>The year a day falls into, counted from the first of January of a given year, and the day in it.\<close>

function year_of :: "nat \<Rightarrow> nat \<Rightarrow> nat \<times> nat" where
  "year_of y d = (if d < year_length y then (y, d) else year_of (Suc y) (d - year_length y))"
  by pat_completeness auto
termination
  by (relation "measure snd") (auto simp: year_length_def split: if_splits)

declare year_of.simps [simp del]

fun month_of :: "nat list \<Rightarrow> nat \<Rightarrow> nat \<times> nat" where
  "month_of [] d = (0, d)"
| "month_of (l # ls) d =
     (if d < l then (0, d) else case month_of ls (d - l) of (m, r) \<Rightarrow> (Suc m, r))"

definition gmtime :: "int \<Rightarrow> tm" where
  "gmtime t =
     (let days = t div 86400;
          secs = t mod 86400;
          (y, yday) = year_of 1970 (nat (days mod 146097));
          (m, d) = month_of (month_lengths y) yday
      in \<lparr>tm_year = int y + 400 * (days div 146097) - 1900, tm_mon = m, tm_mday = int d + 1,
          tm_hour = secs div 3600, tm_min = secs div 60 mod 60, tm_sec = secs mod 60\<rparr>)"

definition timegm :: "tm \<Rightarrow> int" where
  "timegm tm =
     (let era = (tm_year tm + 1900 - 1970) div 400;
          y = 1970 + nat ((tm_year tm + 1900 - 1970) mod 400);
          days = era * 146097 + int (days_before_year y) +
                 int (sum_list (take (tm_mon tm) (month_lengths y))) + (tm_mday tm - 1)
      in days * 86400 + tm_hour tm * 3600 + tm_min tm * 60 + tm_sec tm)"

lemma year_of_spec:
  assumes "year_of y d = (y', r)"
  shows "y \<le> y' \<and> sum_list (map year_length [y..<y']) + r = d \<and> r < year_length y'"
  using assms
proof (induction y d rule: year_of.induct)
  case (1 y d)
  show ?case
  proof (cases "d < year_length y")
    case True
    with 1 show ?thesis by (simp add: year_of.simps[of y d])
  next
    case False
    with 1 have IH: "Suc y \<le> y' \<and> sum_list (map year_length [Suc y..<y']) + r = d - year_length y \<and> r < year_length y'"
      by (simp add: year_of.simps[of y d])
    then have "[y..<y'] = y # [Suc y..<y']" by (simp add: upt_conv_Cons)
    with IH False show ?thesis by auto
  qed
qed

lemma month_of_spec:
  assumes "month_of ls d = (m, r)" and "d < sum_list ls"
  shows "m < length ls \<and> sum_list (take m ls) + r = d \<and> r < ls ! m"
  using assms
proof (induction ls d arbitrary: m r rule: month_of.induct)
  case (2 l ls d)
  show ?case
  proof (cases "d < l")
    case True
    with 2 show ?thesis by simp
  next
    case False
    obtain m' where m': "month_of ls (d - l) = (m', r)" "m = Suc m'"
      using False 2(2) by (cases "month_of ls (d - l)") simp
    have "d - l < sum_list ls" using 2(3) False by simp
    then have "m' < length ls \<and> sum_list (take m' ls) + r = d - l \<and> r < ls ! m'"
      using 2(1)[OF False m'(1)] by simp
    with m' False show ?thesis by auto
  qed
qed simp

lemma sum_month_lengths: "sum_list (month_lengths y) = year_length y"
  by (simp add: month_lengths_def year_length_def)

lemma days_before_mono: "1970 \<le> y \<Longrightarrow> y \<le> z \<Longrightarrow> days_before_year y \<le> days_before_year z"
proof -
  assume "1970 \<le> y" "y \<le> z"
  then have "[1970..<z] = [1970..<y] @ [y..<z]" by (metis le_Suc_ex upt_add_eq_append)
  then show ?thesis by (simp add: days_before_year_def)
qed

lemma days_in_era: "days_before_year 2370 = 146097"
  by (simp add: days_before_year_def year_length_def leap_def)

lemma days_before_2000: "days_before_year 2000 = 10957"
  by (simp add: days_before_year_def year_length_def leap_def)

text \<open>The fields \<open>gmtime\<close> computes, and that they lie in their ranges.\<close>

lemma gmtime_fields:
  fixes t :: int
  obtains y yday m d where
    "gmtime t = \<lparr>tm_year = int y + 400 * (t div 86400 div 146097) - 1900, tm_mon = m, tm_mday = int d + 1,
       tm_hour = t mod 86400 div 3600, tm_min = t mod 86400 div 60 mod 60, tm_sec = t mod 86400 mod 60\<rparr>"
    "1970 \<le> y" "y < 2370" "days_before_year y + yday = nat (t div 86400 mod 146097)"
    "m < 12" "sum_list (take m (month_lengths y)) + d = yday" "d < 31"
proof -
  obtain y yday where y: "year_of 1970 (nat (t div 86400 mod 146097)) = (y, yday)" by fastforce
  obtain m d where m: "month_of (month_lengths y) yday = (m, d)" by fastforce
  note ys = year_of_spec[OF y]
  have "yday < sum_list (month_lengths y)" using ys by (simp add: sum_month_lengths)
  note ms = month_of_spec[OF m this]
  have "set (month_lengths y) \<subseteq> {..31}" by (simp add: month_lengths_def)
  moreover have "month_lengths y ! m \<in> set (month_lengths y)" using ms by simp
  ultimately have "d < 31" using ms by fastforce
  moreover have "nat (t div 86400 mod 146097) < 146097" by simp
  then have "y < 2370"
    using ys days_before_mono[of 2370 y] unfolding days_in_era days_before_year_def[symmetric] by linarith
  moreover have "m < 12" using ms by (simp add: month_lengths_def)
  moreover have "gmtime t = \<lparr>tm_year = int y + 400 * (t div 86400 div 146097) - 1900, tm_mon = m,
      tm_mday = int d + 1, tm_hour = t mod 86400 div 3600, tm_min = t mod 86400 div 60 mod 60,
      tm_sec = t mod 86400 mod 60\<rparr>" by (simp add: gmtime_def Let_def y m)
  moreover have "days_before_year y + yday = nat (t div 86400 mod 146097)"
    using ys by (simp add: days_before_year_def)
  ultimately show thesis using ys ms that by blast
qed

lemma timegm_fields:
  assumes "1970 \<le> y" and "y < 2370"
  shows "timegm \<lparr>tm_year = int y + 400 * era - 1900, tm_mon = m, tm_mday = d, tm_hour = hh, tm_min = mi, tm_sec = s\<rparr> =
    (era * 146097 + int (days_before_year y) + int (sum_list (take m (month_lengths y))) + (d - 1)) * 86400 +
    hh * 3600 + mi * 60 + s"
proof -
  have e: "int y + 400 * era - 1900 + 1900 - 1970 = int (y - 1970) + 400 * era" using assms by simp
  have "(int (y - 1970) + 400 * era) div 400 = era" and "nat ((int (y - 1970) + 400 * era) mod 400) = y - 1970"
    using assms by simp_all
  moreover have "1970 + (y - 1970) = y" using assms by simp
  ultimately show ?thesis unfolding timegm_def Let_def tm.simps e by presburger
qed

lemma time_of_day:
  fixes s :: int
  shows "s div 3600 * 3600 + s div 60 mod 60 * 60 + s mod 60 = s"
proof -
  have "s div 3600 = s div 60 div 60" using zdiv_zmult2_eq[of 60 s 60] by simp
  then show ?thesis
    using div_mult_mod_eq[of "s div 60" 60] div_mult_mod_eq[of s 60] by linarith
qed

lemma timegm_gmtime: "timegm (gmtime t) = t"
proof -
  obtain y yday m d where f:
    "gmtime t = \<lparr>tm_year = int y + 400 * (t div 86400 div 146097) - 1900, tm_mon = m, tm_mday = int d + 1,
       tm_hour = t mod 86400 div 3600, tm_min = t mod 86400 div 60 mod 60, tm_sec = t mod 86400 mod 60\<rparr>"
    "1970 \<le> y" "y < 2370" "days_before_year y + yday = nat (t div 86400 mod 146097)"
    "sum_list (take m (month_lengths y)) + d = yday"
    by (rule gmtime_fields[of t])
  have "t div 86400 = t div 86400 div 146097 * 146097 + t div 86400 mod 146097"
    by (rule div_mult_mod_eq[symmetric])
  moreover have "int (days_before_year y + yday) = t div 86400 mod 146097" unfolding f(4) by simp
  ultimately have "t div 86400 div 146097 * 146097 + int (days_before_year y) +
      int (sum_list (take m (month_lengths y))) + (int d + 1 - 1) = t div 86400" using f(5) by linarith
  then have "timegm (gmtime t) = t div 86400 * 86400 + t mod 86400 div 3600 * 3600 +
      t mod 86400 div 60 mod 60 * 60 + t mod 86400 mod 60"
    unfolding f(1) timegm_fields[OF f(2,3)] by presburger
  also have "\<dots> = t div 86400 * 86400 + t mod 86400"
    using time_of_day[of "t mod 86400"] by linarith
  also have "\<dots> = t" by (rule div_mult_mod_eq)
  finally show ?thesis .
qed

subsection \<open>Printing and reading\<close>

definition two_digits :: "int \<Rightarrow> string" where
  "two_digits i = [digit_char (nat i div 10), digit_char (nat i mod 10)]"

text \<open>
  \<^verbatim>\<open>put_time\<close> with \<^verbatim>\<open>"%Y-%m-%d"\<close>, a separator, and \<^verbatim>\<open>"%H:%M:%S"\<close>; \<^verbatim>\<open>"%FT%T"\<close> is the same with the separator \<^verbatim>\<open>T\<close>.
\<close>

definition put_stamp :: "char \<Rightarrow> tm \<Rightarrow> string" where
  "put_stamp sep tm = show_int (tm_year tm + 1900) @ ''-'' @ two_digits (int (tm_mon tm) + 1) @ ''-'' @
     two_digits (tm_mday tm) @ [sep] @ two_digits (tm_hour tm) @ '':'' @ two_digits (tm_min tm) @ '':'' @
     two_digits (tm_sec tm)"

text \<open>
  \<^verbatim>\<open>get_time\<close> skips blanks and then reads the items of its format in turn: a number of so many digits within
  its range, a literal, or any blanks where the format has one. It stops at the first item that does
  not match; the fields read before it stay set. The result is the fields and what is left of the
  text, \<open>None\<close> when an item has not matched and the stream has failed.
\<close>

datatype time_item = Literal char | Space | Year | Month | Day | Hour | Minute | Second

definition get_number :: "nat \<Rightarrow> nat \<Rightarrow> nat \<Rightarrow> string \<Rightarrow> (int \<times> string) option" where
  "get_number len lo hi s =
     (let ds = takeWhile is_digit (take len s); v = digits_val ds
      in if length ds = len \<and> lo \<le> v \<and> v \<le> hi then Some (int v, drop len s) else None)"

fun get_items :: "time_item list \<Rightarrow> string \<Rightarrow> tm \<Rightarrow> tm \<times> string option" where
  "get_items [] s tm = (tm, Some s)"
| "get_items (Literal c # is) s tm =
     (case s of [] \<Rightarrow> (tm, None) | d # r \<Rightarrow> if d = c then get_items is r tm else (tm, None))"
| "get_items (Space # is) s tm = get_items is (dropWhile is_space s) tm"
| "get_items (Year # is) s tm =
     (case get_number 4 0 9999 s of None \<Rightarrow> (tm, None)
      | Some (v, r) \<Rightarrow> get_items is r (tm\<lparr>tm_year := v - 1900\<rparr>))"
| "get_items (Month # is) s tm =
     (case get_number 2 1 12 s of None \<Rightarrow> (tm, None)
      | Some (v, r) \<Rightarrow> get_items is r (tm\<lparr>tm_mon := nat v - 1\<rparr>))"
| "get_items (Day # is) s tm =
     (case get_number 2 1 31 s of None \<Rightarrow> (tm, None)
      | Some (v, r) \<Rightarrow> get_items is r (tm\<lparr>tm_mday := v\<rparr>))"
| "get_items (Hour # is) s tm =
     (case get_number 2 0 23 s of None \<Rightarrow> (tm, None)
      | Some (v, r) \<Rightarrow> get_items is r (tm\<lparr>tm_hour := v\<rparr>))"
| "get_items (Minute # is) s tm =
     (case get_number 2 0 59 s of None \<Rightarrow> (tm, None)
      | Some (v, r) \<Rightarrow> get_items is r (tm\<lparr>tm_min := v\<rparr>))"
| "get_items (Second # is) s tm =
     (case get_number 2 0 60 s of None \<Rightarrow> (tm, None)
      | Some (v, r) \<Rightarrow> get_items is r (tm\<lparr>tm_sec := v\<rparr>))"

definition stamp_items :: "time_item \<Rightarrow> time_item list" where
  "stamp_items sep = [Year, Literal CHR ''-'', Month, Literal CHR ''-'', Day, sep,
     Hour, Literal CHR '':'', Minute, Literal CHR '':'', Second]"

text \<open>\<^verbatim>\<open>std::tm tm = {}\<close>\<close>

definition zero_tm :: tm where
  "zero_tm = \<lparr>tm_year = 0, tm_mon = 0, tm_mday = 0, tm_hour = 0, tm_min = 0, tm_sec = 0\<rparr>"

definition get_time :: "time_item list \<Rightarrow> string \<Rightarrow> tm \<times> string option" where
  "get_time is str = get_items is (dropWhile is_space str) zero_tm"

lemma digits_val_two: "a < 10 \<Longrightarrow> b < 10 \<Longrightarrow> digits_val [digit_char a, digit_char b] = 10 * a + b"
  by (simp add: digits_val_def)

lemma get_two_digits:
  assumes "int lo \<le> i" and "i \<le> int hi" and "hi < 100"
  shows "get_number 2 lo hi (two_digits i @ s) = Some (i, s)"
proof -
  define n where "n = nat i"
  have n: "lo \<le> n" "n \<le> hi" "n < 100" "int n = i" using assms by (auto simp: n_def)
  have "n div 10 < 10" "n mod 10 < 10" using n by auto
  then have "takeWhile is_digit (take 2 (two_digits i @ s)) = two_digits i" "digits_val (two_digits i) = n"
    by (simp_all add: two_digits_def digits_val_two n_def[symmetric])
  then show ?thesis using n by (simp add: get_number_def two_digits_def Let_def)
qed

lemma show_nat_length4:
  assumes "1000 \<le> n" and "n < 10000"
  shows "length (show_nat n) = 4"
proof -
  have "n div 10 div 10 div 10 < 10" "\<not> n div 10 div 10 < 10" "\<not> n div 10 < 10" "\<not> n < 10"
    using assms by linarith+
  then show ?thesis
    by (subst show_nat.simps, simp only: if_False length_append,
        subst show_nat.simps, simp only: if_False length_append,
        subst show_nat.simps, simp only: if_False length_append,
        subst show_nat.simps, simp)
qed

lemma get_year:
  assumes "1000 \<le> y" and "y \<le> 9999"
  shows "get_number 4 0 9999 (show_int y @ s) = Some (y, s)"
proof -
  have y: "show_int y = show_nat (nat y)" using assms by (simp add: show_int_def)
  have l: "length (show_nat (nat y)) = 4" using assms by (intro show_nat_length4) simp_all
  have "takeWhile is_digit (show_nat (nat y)) = show_nat (nat y)" by (rule take_show_nat)
  moreover have "take 4 (show_nat (nat y) @ s) = show_nat (nat y)" "drop 4 (show_nat (nat y) @ s) = s"
    using l by simp_all
  ultimately show ?thesis using assms l by (simp add: get_number_def y take_show_nat Let_def del: takeWhile_eq_all_conv)
qed

lemma gmtime_ranges:
  assumes "0 \<le> t" and "t < 253402300800"
  shows "1970 \<le> tm_year (gmtime t) + 1900" "tm_year (gmtime t) + 1900 \<le> 9999" "tm_mon (gmtime t) < 12"
    "1 \<le> tm_mday (gmtime t)" "tm_mday (gmtime t) \<le> 31" "0 \<le> tm_hour (gmtime t)" "tm_hour (gmtime t) \<le> 23"
    "0 \<le> tm_min (gmtime t)" "tm_min (gmtime t) \<le> 59" "0 \<le> tm_sec (gmtime t)" "tm_sec (gmtime t) \<le> 60"
proof -
  obtain y yday m d where f:
    "gmtime t = \<lparr>tm_year = int y + 400 * (t div 86400 div 146097) - 1900, tm_mon = m, tm_mday = int d + 1,
       tm_hour = t mod 86400 div 3600, tm_min = t mod 86400 div 60 mod 60, tm_sec = t mod 86400 mod 60\<rparr>"
    "1970 \<le> y" "y < 2370" "days_before_year y + yday = nat (t div 86400 mod 146097)" "m < 12" "d < 31"
    by (rule gmtime_fields[of t])
  define days where "days = t div 86400"
  define era where "era = days div 146097"
  have days: "0 \<le> days" "days < 2932897" using assms by (auto simp: days_def)
  have sum: "days = era * 146097 + days mod 146097" unfolding era_def by (rule div_mult_mod_eq[symmetric])
  have r: "0 \<le> days mod 146097" "int (days_before_year y) \<le> days mod 146097" using f(4) by (auto simp: days_def)
  have era: "0 \<le> era" "era \<le> 20" using days sum r unfolding era_def by auto
  have "int y + 400 * era \<le> 9999"
  proof (cases "era = 20 \<and> 2000 \<le> y")
    case True
    then have "10957 \<le> days_before_year y" using days_before_mono[of 2000 y] days_before_2000 by simp
    then show ?thesis using True sum r days by linarith
  next
    case False
    then show ?thesis using era f(3) by auto
  qed
  then show "1970 \<le> tm_year (gmtime t) + 1900" "tm_year (gmtime t) + 1900 \<le> 9999"
    using f(2) era by (simp_all add: f(1) days_def[symmetric] era_def[symmetric])
  show "tm_mon (gmtime t) < 12" "1 \<le> tm_mday (gmtime t)" "tm_mday (gmtime t) \<le> 31" using f(5,6) by (simp_all add: f(1))
  define s where "s = t mod 86400"
  have s: "0 \<le> s" "s < 86400" by (simp_all add: s_def)
  show "0 \<le> tm_hour (gmtime t)" "tm_hour (gmtime t) \<le> 23" "0 \<le> tm_min (gmtime t)" "tm_min (gmtime t) \<le> 59"
    "0 \<le> tm_sec (gmtime t)" "tm_sec (gmtime t) \<le> 60"
    unfolding f(1) s_def[symmetric] tm.simps using s by linarith+
qed

definition tm_ok :: "tm \<Rightarrow> bool" where
  "tm_ok tm \<longleftrightarrow> 1970 \<le> tm_year tm + 1900 \<and> tm_year tm + 1900 \<le> 9999 \<and> tm_mon tm < 12 \<and>
     1 \<le> tm_mday tm \<and> tm_mday tm \<le> 31 \<and> 0 \<le> tm_hour tm \<and> tm_hour tm \<le> 23 \<and>
     0 \<le> tm_min tm \<and> tm_min tm \<le> 59 \<and> 0 \<le> tm_sec tm \<and> tm_sec tm \<le> 60"

lemma two_digits_chars: "i \<le> 99 \<Longrightarrow> c \<in> set (two_digits i) \<Longrightarrow> is_digit c"
  by (auto simp: two_digits_def)

lemma two_digits_blank:
  assumes "0 \<le> i" and "i \<le> 99"
  shows "dropWhile is_space (two_digits i @ s) = two_digits i @ s"
proof -
  have "is_digit (digit_char (nat i div 10))" using assms by simp
  then show ?thesis using is_digit_facts(1) by (simp add: two_digits_def)
qed

lemma put_stamp_chars:
  assumes "tm_ok tm" and "c \<in> set (put_stamp sep tm)"
  shows "is_digit c \<or> c = CHR ''-'' \<or> c = sep \<or> c = CHR '':''"
  using assms two_digits_chars[of "int (tm_mon tm) + 1" c] two_digits_chars[of "tm_mday tm" c]
    two_digits_chars[of "tm_hour tm" c] two_digits_chars[of "tm_min tm" c] two_digits_chars[of "tm_sec tm" c]
    show_nat_digits[of c]
  by (auto simp: tm_ok_def put_stamp_def show_int_def)

lemma put_stamp_head:
  assumes "tm_ok tm"
  shows "dropWhile is_space (put_stamp sep tm @ s) = put_stamp sep tm @ s"
proof -
  obtain c t where "show_nat (nat (tm_year tm + 1900)) = c # t" by (cases "show_nat (nat (tm_year tm + 1900))") auto
  moreover from this have "is_digit c" using show_nat_digits[of c "nat (tm_year tm + 1900)"] by simp
  ultimately show ?thesis using assms is_digit_facts(1)[of c] by (simp add: put_stamp_def show_int_def tm_ok_def)
qed

lemma put_stamp_length: "tm_ok tm \<Longrightarrow> length (put_stamp sep tm) = 19"
  using show_nat_length4[of "nat (tm_year tm + 1900)"]
  by (auto simp: put_stamp_def tm_ok_def show_int_def two_digits_def)

text \<open>What \<^verbatim>\<open>put_time\<close> prints is read back by \<^verbatim>\<open>get_time\<close>, whatever follows it.\<close>

lemma get_put_stamp:
  assumes "tm_ok tm" and "sep = CHR '' '' \<and> item = Space \<or> item = Literal sep"
  shows "get_time (stamp_items item) (put_stamp sep tm @ s) = (tm, Some s)"
  unfolding get_time_def put_stamp_head[OF assms(1)]
  using assms(2) assms(1)[unfolded tm_ok_def] unfolding stamp_items_def put_stamp_def append_assoc
  by (auto simp: get_year get_two_digits[of "Suc 0" _ 12] get_two_digits[of "Suc 0" _ 31] get_two_digits[of 0 _ 23]
      get_two_digits[of 0 _ 59] get_two_digits[of 0 _ 60] zero_tm_def two_digits_blank is_space_def)

lemma gmtime_ok: "0 \<le> t \<Longrightarrow> t < 253402300800 \<Longrightarrow> tm_ok (gmtime t)"
  using gmtime_ranges[of t] by (simp add: tm_ok_def)

end
