(* ===== verification/Message.thy ===== *)
theory Message
  imports OrderBook Calendar
begin

text \<open>
  The wire format (\<^verbatim>\<open>common/include/message.h\<close>, \<^verbatim>\<open>common/src/message.cpp\<close>): one record per message
  class, \<^verbatim>\<open>serialize\<close> for each of them and \<^verbatim>\<open>parseMessage\<close>.

  What the functions take from their environment is the record \<open>env\<close>. \<open>utc_offset\<close> and \<open>mktime_std\<close> are the time
  zone of the process, which the C library reads from the system: at the time \<open>t\<close> (in seconds) \<^verbatim>\<open>localtime_r\<close>
  gives the fields of \<open>t + utc_offset t\<close>, daylight saving time included; \<open>mktime_std\<close> is \<^verbatim>\<open>mktime\<close> applied to fields
  whose \<^verbatim>\<open>tm_isdst\<close> is zero, as the parser leaves it, so that they are taken for standard time. Its argument is
  the count of seconds the fields denote by themselves (\<open>timegm\<close>), since \<^verbatim>\<open>mktime\<close> brings fields into their ranges
  first. Nothing is assumed of the two, and the two ends of a connection may have different ones. The
  \<open>junk\<close> fields are the contents of the variables the parser leaves uninitialised. A freshly made message
  has its fields zeroed, since its default constructor is not user-provided.
\<close>

record env =
  utc_offset :: "int \<Rightarrow> int"
  mktime_std :: "int \<Rightarrow> int"
  junk_double :: double
  junk_uint32 :: u32
  junk_int :: int
  junk_level :: PriceLevel

subsection \<open>Message classes\<close>

datatype MessageType = ORDER_SUBMIT | ORDER_CANCEL | ORDER_STATUS | ORDERBOOK_SNAPSHOT
  | TRADE_NOTIFICATION | ERROR_MSG | SNAPSHOT_REQUEST | LOGIN | LOGIN_RESPONSE | REGISTER
  | REGISTER_RESPONSE

fun messageTypeToString :: "MessageType \<Rightarrow> string" where
  "messageTypeToString ORDER_SUBMIT = ''ORDER_SUBMIT''"
| "messageTypeToString ORDER_CANCEL = ''ORDER_CANCEL''"
| "messageTypeToString ORDER_STATUS = ''ORDER_STATUS''"
| "messageTypeToString ORDERBOOK_SNAPSHOT = ''ORDERBOOK_SNAPSHOT''"
| "messageTypeToString TRADE_NOTIFICATION = ''TRADE_NOTIFICATION''"
| "messageTypeToString ERROR_MSG = ''ERROR''"
| "messageTypeToString SNAPSHOT_REQUEST = ''SNAPSHOT_REQUEST''"
| "messageTypeToString LOGIN = ''LOGIN''"
| "messageTypeToString LOGIN_RESPONSE = ''LOGIN_RESPONSE''"
| "messageTypeToString REGISTER = ''REGISTER''"
| "messageTypeToString REGISTER_RESPONSE = ''REGISTER_RESPONSE''"

text \<open>\<open>None\<close> is the thrown \<^verbatim>\<open>std::runtime_error\<close>.\<close>

definition messageTypeFromString :: "string \<Rightarrow> MessageType option" where
  "messageTypeFromString s =
     (if s = ''ORDER_SUBMIT'' then Some ORDER_SUBMIT
      else if s = ''ORDER_CANCEL'' then Some ORDER_CANCEL
      else if s = ''ORDER_STATUS'' then Some ORDER_STATUS
      else if s = ''ORDERBOOK_SNAPSHOT'' then Some ORDERBOOK_SNAPSHOT
      else if s = ''TRADE_NOTIFICATION'' then Some TRADE_NOTIFICATION
      else if s = ''ERROR'' then Some ERROR_MSG
      else if s = ''SNAPSHOT_REQUEST'' then Some SNAPSHOT_REQUEST
      else if s = ''LOGIN'' then Some LOGIN
      else if s = ''LOGIN_RESPONSE'' then Some LOGIN_RESPONSE
      else if s = ''REGISTER'' then Some REGISTER
      else if s = ''REGISTER_RESPONSE'' then Some REGISTER_RESPONSE
      else None)"

record OrderSubmitMessage =
  sub_client_id :: string
  sub_symbol :: string
  sub_side :: OrderSide
  sub_order_type :: OrderType
  sub_price :: double
  sub_stop_price :: double
  sub_quantity :: u32

record OrderCancelMessage =
  can_order_id :: string
  can_client_id :: string

record OrderStatusMessage =
  st_order_id :: string
  st_client_id :: string
  st_symbol :: string
  st_side :: OrderSide
  st_order_type :: OrderType
  st_price :: double
  st_stop_price :: double
  st_quantity :: u32
  st_filled_quantity :: u32
  st_status :: OrderStatus
  st_order_timestamp :: time

record OrderbookSnapshotMessage =
  snap_symbol :: string
  snap_bids :: "PriceLevel list"
  snap_asks :: "PriceLevel list"

record TradeNotificationMessage =
  tn_buy_order_id :: string
  tn_sell_order_id :: string
  tn_symbol :: string
  tn_price :: double
  tn_quantity :: u32
  tn_trade_timestamp :: time

record ErrorMessage =
  err_error_code :: string
  err_description :: string

record SnapshotRequestMessage =
  req_symbol :: string

record LoginMessage =
  login_username :: string
  login_password :: string

record LoginResponseMessage =
  lr_success :: bool
  lr_session_token :: string
  lr_username :: string
  lr_error_message :: string

record RegisterMessage =
  reg_username :: string
  reg_password :: string

record RegisterResponseMessage =
  rr_success :: bool
  rr_username :: string
  rr_error_message :: string

datatype Message =
    OrderSubmit OrderSubmitMessage
  | OrderCancel OrderCancelMessage
  | OrderStatusMsg OrderStatusMessage
  | OrderbookSnapshot OrderbookSnapshotMessage
  | TradeNotification TradeNotificationMessage
  | Error ErrorMessage
  | SnapshotRequest SnapshotRequestMessage
  | Login LoginMessage
  | LoginResponse LoginResponseMessage
  | Register RegisterMessage
  | RegisterResponse RegisterResponseMessage

fun getType :: "Message \<Rightarrow> MessageType" where
  "getType (OrderSubmit m) = ORDER_SUBMIT"
| "getType (OrderCancel m) = ORDER_CANCEL"
| "getType (OrderStatusMsg m) = ORDER_STATUS"
| "getType (OrderbookSnapshot m) = ORDERBOOK_SNAPSHOT"
| "getType (TradeNotification m) = TRADE_NOTIFICATION"
| "getType (Error m) = ERROR_MSG"
| "getType (SnapshotRequest m) = SNAPSHOT_REQUEST"
| "getType (Login m) = LOGIN"
| "getType (LoginResponse m) = LOGIN_RESPONSE"
| "getType (Register m) = REGISTER"
| "getType (RegisterResponse m) = REGISTER_RESPONSE"

subsection \<open>Times\<close>

text \<open>\<^verbatim>\<open>localtime_r\<close>, and the items of the format \<^verbatim>\<open>"%Y-%m-%d %H:%M:%S"\<close>.\<close>

definition localtime :: "env \<Rightarrow> int \<Rightarrow> tm" where
  "localtime e t = gmtime (t + utc_offset e t)"

definition local_items :: "time_item list" where
  "local_items = stamp_items Space"

definition timePointToString :: "env \<Rightarrow> time \<Rightarrow> string" where
  "timePointToString e tp =
     put_stamp CHR '' '' (localtime e (to_time_t tp)) @ ''.'' @ pad3 (show_int (millis tp))"

definition stringToTimePoint :: "env \<Rightarrow> string \<Rightarrow> time" where
  "stringToTimePoint e str =
     (case get_time local_items str of
        (tm, rest) \<Rightarrow>
          let ms = (case rest of None \<Rightarrow> 0 | Some r \<Rightarrow> scan_int 0 r)
          in mktime_std e (timegm tm) * 10 ^ 9 + ms * 10 ^ 6)"

subsection \<open>Fields\<close>

definition extractString :: "string \<Rightarrow> string" where
  "extractString line = (case after_equals line of None \<Rightarrow> [] | Some value \<Rightarrow> value)"

definition extractDouble :: "env \<Rightarrow> string \<Rightarrow> double" where
  "extractDouble e line =
     (case after_equals line of None \<Rightarrow> 0 | Some value \<Rightarrow> scan_double (junk_double e) value)"

definition extractUint32 :: "env \<Rightarrow> string \<Rightarrow> u32" where
  "extractUint32 e line =
     (case after_equals line of None \<Rightarrow> 0 | Some value \<Rightarrow> scan_uint32 (junk_uint32 e) value)"

definition extractInt :: "env \<Rightarrow> string \<Rightarrow> int" where
  "extractInt e line =
     (case after_equals line of None \<Rightarrow> 0 | Some value \<Rightarrow> scan_int (junk_int e) value)"

definition extractSide :: "string \<Rightarrow> OrderSide" where
  "extractSide line =
     (let value = extractString line
      in if value = ''BUY'' then BUY else if value = ''SELL'' then SELL else BUY)"

definition extractStatus :: "string \<Rightarrow> OrderStatus" where
  "extractStatus line =
     (let value = extractString line
      in if value = ''PENDING'' then PENDING
         else if value = ''PARTIAL'' then PARTIAL
         else if value = ''FILLED'' then FILLED
         else if value = ''CANCELED'' then CANCELED
         else if value = ''REJECTED'' then REJECTED
         else PENDING)"

definition extractType :: "string \<Rightarrow> OrderType" where
  "extractType line =
     (let value = extractString line
      in if value = ''MARKET'' then MARKET
         else if value = ''STOP'' then STOP
         else if value = ''STOP_LIMIT'' then STOP_LIMIT
         else LIMIT)"

subsection \<open>Parsing\<close>

text \<open>One iteration of the loop over the lines, for each message type.\<close>

definition submit_line :: "env \<Rightarrow> OrderSubmitMessage \<Rightarrow> string \<Rightarrow> OrderSubmitMessage" where
  "submit_line e m line =
     (if begins line ''client_id='' then m\<lparr>sub_client_id := extractString line\<rparr>
      else if begins line ''symbol='' then m\<lparr>sub_symbol := extractString line\<rparr>
      else if begins line ''side='' then m\<lparr>sub_side := extractSide line\<rparr>
      else if begins line ''order_type='' then m\<lparr>sub_order_type := extractType line\<rparr>
      else if begins line ''price='' then m\<lparr>sub_price := extractDouble e line\<rparr>
      else if begins line ''quantity='' then m\<lparr>sub_quantity := extractUint32 e line\<rparr>
      else if begins line ''stop_price='' then m\<lparr>sub_stop_price := extractDouble e line\<rparr>
      else m)"

definition cancel_line :: "OrderCancelMessage \<Rightarrow> string \<Rightarrow> OrderCancelMessage" where
  "cancel_line m line =
     (if begins line ''order_id='' then m\<lparr>can_order_id := extractString line\<rparr>
      else if begins line ''client_id='' then m\<lparr>can_client_id := extractString line\<rparr>
      else m)"

definition status_line :: "env \<Rightarrow> OrderStatusMessage \<Rightarrow> string \<Rightarrow> OrderStatusMessage" where
  "status_line e m line =
     (if begins line ''order_id='' then m\<lparr>st_order_id := extractString line\<rparr>
      else if begins line ''client_id='' then m\<lparr>st_client_id := extractString line\<rparr>
      else if begins line ''symbol='' then m\<lparr>st_symbol := extractString line\<rparr>
      else if begins line ''side='' then m\<lparr>st_side := extractSide line\<rparr>
      else if begins line ''price='' then m\<lparr>st_price := extractDouble e line\<rparr>
      else if begins line ''quantity='' then m\<lparr>st_quantity := extractUint32 e line\<rparr>
      else if begins line ''filled_quantity='' then m\<lparr>st_filled_quantity := extractUint32 e line\<rparr>
      else if begins line ''status='' then m\<lparr>st_status := extractStatus line\<rparr>
      else if begins line ''order_type='' then m\<lparr>st_order_type := extractType line\<rparr>
      else if begins line ''stop_price='' then m\<lparr>st_stop_price := extractDouble e line\<rparr>
      else if begins line ''timestamp='' then m\<lparr>st_order_timestamp := stringToTimePoint e (extractString line)\<rparr>
      else m)"

text \<open>The loop variables of the snapshot parser and the message it fills.\<close>

record snapshot_state =
  in_bids :: bool
  in_asks :: bool
  current_level :: PriceLevel
  snapshot :: OrderbookSnapshotMessage

definition zero_level :: PriceLevel where
  "zero_level = \<lparr>l_price = 0, l_quantity = 0, l_order_count = 0\<rparr>"

definition snapshot_line :: "env \<Rightarrow> snapshot_state \<Rightarrow> string \<Rightarrow> snapshot_state" where
  "snapshot_line e s line =
     (if begins line ''symbol='' then s\<lparr>snapshot := (snapshot s)\<lparr>snap_symbol := extractString line\<rparr>\<rparr>
      else if line = ''BIDS:'' then s\<lparr>in_bids := True, in_asks := False\<rparr>
      else if line = ''ASKS:'' then s\<lparr>in_bids := False, in_asks := True\<rparr>
      else if in_bids s \<or> in_asks s then
        if begins line ''price='' then s\<lparr>current_level := (current_level s)\<lparr>l_price := extractDouble e line\<rparr>\<rparr>
        else if begins line ''quantity='' then
          s\<lparr>current_level := (current_level s)\<lparr>l_quantity := extractUint32 e line\<rparr>\<rparr>
        else if begins line ''order_count='' then
          let level = (current_level s)\<lparr>l_order_count := extractInt e line\<rparr>;
              m = (if in_bids s then (snapshot s)\<lparr>snap_bids := snap_bids (snapshot s) @ [level]\<rparr>
                   else (snapshot s)\<lparr>snap_asks := snap_asks (snapshot s) @ [level]\<rparr>)
          in s\<lparr>snapshot := m, current_level := zero_level\<rparr>
        else s
      else s)"

definition trade_line :: "env \<Rightarrow> TradeNotificationMessage \<Rightarrow> string \<Rightarrow> TradeNotificationMessage" where
  "trade_line e m line =
     (if begins line ''buy_order_id='' then m\<lparr>tn_buy_order_id := extractString line\<rparr>
      else if begins line ''sell_order_id='' then m\<lparr>tn_sell_order_id := extractString line\<rparr>
      else if begins line ''symbol='' then m\<lparr>tn_symbol := extractString line\<rparr>
      else if begins line ''price='' then m\<lparr>tn_price := extractDouble e line\<rparr>
      else if begins line ''quantity='' then m\<lparr>tn_quantity := extractUint32 e line\<rparr>
      else if begins line ''timestamp='' then m\<lparr>tn_trade_timestamp := stringToTimePoint e (extractString line)\<rparr>
      else m)"

definition error_line :: "ErrorMessage \<Rightarrow> string \<Rightarrow> ErrorMessage" where
  "error_line m line =
     (if begins line ''error_code='' then m\<lparr>err_error_code := extractString line\<rparr>
      else if begins line ''description='' then m\<lparr>err_description := extractString line\<rparr>
      else m)"

definition request_line :: "SnapshotRequestMessage \<Rightarrow> string \<Rightarrow> SnapshotRequestMessage" where
  "request_line m line =
     (if begins line ''symbol='' then m\<lparr>req_symbol := extractString line\<rparr> else m)"

definition login_line :: "LoginMessage \<Rightarrow> string \<Rightarrow> LoginMessage" where
  "login_line m line =
     (if begins line ''username='' then m\<lparr>login_username := extractString line\<rparr>
      else if begins line ''password='' then m\<lparr>login_password := extractString line\<rparr>
      else m)"

definition login_response_line :: "LoginResponseMessage \<Rightarrow> string \<Rightarrow> LoginResponseMessage" where
  "login_response_line m line =
     (if begins line ''success='' then m\<lparr>lr_success := (extractString line = ''true'')\<rparr>
      else if begins line ''session_token='' then m\<lparr>lr_session_token := extractString line\<rparr>
      else if begins line ''username='' then m\<lparr>lr_username := extractString line\<rparr>
      else if begins line ''error_message='' then m\<lparr>lr_error_message := extractString line\<rparr>
      else m)"

definition register_line :: "RegisterMessage \<Rightarrow> string \<Rightarrow> RegisterMessage" where
  "register_line m line =
     (if begins line ''username='' then m\<lparr>reg_username := extractString line\<rparr>
      else if begins line ''password='' then m\<lparr>reg_password := extractString line\<rparr>
      else m)"

definition register_response_line :: "RegisterResponseMessage \<Rightarrow> string \<Rightarrow> RegisterResponseMessage" where
  "register_response_line m line =
     (if begins line ''success='' then m\<lparr>rr_success := (extractString line = ''true'')\<rparr>
      else if begins line ''username='' then m\<lparr>rr_username := extractString line\<rparr>
      else if begins line ''error_message='' then m\<lparr>rr_error_message := extractString line\<rparr>
      else m)"

definition parseMessage :: "env \<Rightarrow> string \<Rightarrow> Message" where
  "parseMessage e data =
     (case getlines data of
        [] \<Rightarrow> Error \<lparr>err_error_code = ''PARSE_ERROR'', err_description = ''Empty message''\<rparr>
      | line # lines \<Rightarrow>
          let message_type = extractString line
          in if message_type = ''ORDER_SUBMIT'' then
               OrderSubmit (foldl (submit_line e)
                 \<lparr>sub_client_id = [], sub_symbol = [], sub_side = BUY, sub_order_type = LIMIT,
                  sub_price = 0, sub_stop_price = 0, sub_quantity = 0\<rparr> lines)
             else if message_type = ''ORDER_CANCEL'' then
               OrderCancel (foldl cancel_line \<lparr>can_order_id = [], can_client_id = []\<rparr> lines)
             else if message_type = ''ORDER_STATUS'' then
               OrderStatusMsg (foldl (status_line e)
                 \<lparr>st_order_id = [], st_client_id = [], st_symbol = [], st_side = BUY,
                  st_order_type = LIMIT, st_price = 0, st_stop_price = 0, st_quantity = 0,
                  st_filled_quantity = 0, st_status = PENDING, st_order_timestamp = 0\<rparr> lines)
             else if message_type = ''ORDERBOOK_SNAPSHOT'' then
               OrderbookSnapshot (snapshot (foldl (snapshot_line e)
                 \<lparr>in_bids = False, in_asks = False, current_level = junk_level e,
                  snapshot = \<lparr>snap_symbol = [], snap_bids = [], snap_asks = []\<rparr>\<rparr> lines))
             else if message_type = ''TRADE_NOTIFICATION'' then
               TradeNotification (foldl (trade_line e)
                 \<lparr>tn_buy_order_id = [], tn_sell_order_id = [], tn_symbol = [], tn_price = 0,
                  tn_quantity = 0, tn_trade_timestamp = 0\<rparr> lines)
             else if message_type = ''ERROR'' then
               Error (foldl error_line \<lparr>err_error_code = [], err_description = []\<rparr> lines)
             else if message_type = ''SNAPSHOT_REQUEST'' then
               SnapshotRequest (foldl request_line \<lparr>req_symbol = []\<rparr> lines)
             else if message_type = ''LOGIN'' then
               Login (foldl login_line \<lparr>login_username = [], login_password = []\<rparr> lines)
             else if message_type = ''LOGIN_RESPONSE'' then
               LoginResponse (foldl login_response_line
                 \<lparr>lr_success = False, lr_session_token = [], lr_username = [], lr_error_message = []\<rparr> lines)
             else if message_type = ''REGISTER'' then
               Register (foldl register_line \<lparr>reg_username = [], reg_password = []\<rparr> lines)
             else if message_type = ''REGISTER_RESPONSE'' then
               RegisterResponse (foldl register_response_line
                 \<lparr>rr_success = False, rr_username = [], rr_error_message = []\<rparr> lines)
             else Error \<lparr>err_error_code = ''PARSE_ERROR'',
                         err_description = ''Unknown message type: '' @ message_type\<rparr>)"

subsection \<open>Serialisation\<close>

text \<open>Lines with a line break between them, and lines that each end in one.\<close>

fun join_lines :: "string list \<Rightarrow> string" where
  "join_lines [] = []"
| "join_lines [l] = l"
| "join_lines (l # ls) = l @ newline # join_lines ls"

definition end_lines :: "string list \<Rightarrow> string" where
  "end_lines ls = concat (map (\<lambda>l. l @ [newline]) ls)"

fun orderTypeToWireString :: "OrderType \<Rightarrow> string" where
  "orderTypeToWireString MARKET = ''MARKET''"
| "orderTypeToWireString STOP = ''STOP''"
| "orderTypeToWireString STOP_LIMIT = ''STOP_LIMIT''"
| "orderTypeToWireString LIMIT = ''LIMIT''"

definition side_string :: "OrderSide \<Rightarrow> string" where
  "side_string sd = (if sd = BUY then ''BUY'' else ''SELL'')"

fun status_string :: "OrderStatus \<Rightarrow> string" where
  "status_string PENDING = ''PENDING''"
| "status_string PARTIAL = ''PARTIAL''"
| "status_string FILLED = ''FILLED''"
| "status_string CANCELED = ''CANCELED''"
| "status_string REJECTED = ''REJECTED''"

definition bool_string :: "bool \<Rightarrow> string" where
  "bool_string x = (if x then ''true'' else ''false'')"

definition show_uint32 :: "u32 \<Rightarrow> string" where
  "show_uint32 w = show_nat (unat w)"

definition stop_price_lines :: "double \<Rightarrow> string list" where
  "stop_price_lines sp = (if sp > 0 then [''stop_price='' @ show_fixed2 sp] else [])"

definition serialize_OrderSubmit :: "OrderSubmitMessage \<Rightarrow> string" where
  "serialize_OrderSubmit m = join_lines
     ([''type=ORDER_SUBMIT'',
       ''client_id='' @ sub_client_id m,
       ''symbol='' @ sub_symbol m,
       ''side='' @ side_string (sub_side m),
       ''order_type='' @ orderTypeToWireString (sub_order_type m),
       ''price='' @ show_fixed2 (sub_price m)] @
      stop_price_lines (sub_stop_price m) @
      [''quantity='' @ show_uint32 (sub_quantity m)])"

definition serialize_OrderCancel :: "OrderCancelMessage \<Rightarrow> string" where
  "serialize_OrderCancel m = join_lines
     [''type=ORDER_CANCEL'',
      ''order_id='' @ can_order_id m,
      ''client_id='' @ can_client_id m]"

definition serialize_OrderStatus :: "env \<Rightarrow> OrderStatusMessage \<Rightarrow> string" where
  "serialize_OrderStatus e m = join_lines
     ([''type=ORDER_STATUS'',
       ''order_id='' @ st_order_id m,
       ''client_id='' @ st_client_id m,
       ''symbol='' @ st_symbol m,
       ''side='' @ side_string (st_side m),
       ''order_type='' @ orderTypeToWireString (st_order_type m),
       ''price='' @ show_fixed2 (st_price m)] @
      stop_price_lines (st_stop_price m) @
      [''quantity='' @ show_uint32 (st_quantity m),
       ''filled_quantity='' @ show_uint32 (st_filled_quantity m),
       ''status='' @ status_string (st_status m),
       ''timestamp='' @ timePointToString e (st_order_timestamp m)])"

definition level_lines :: "PriceLevel \<Rightarrow> string list" where
  "level_lines l =
     [''price='' @ show_fixed2 (l_price l),
      ''quantity='' @ show_uint32 (l_quantity l),
      ''order_count='' @ show_int (l_order_count l)]"

definition serialize_OrderbookSnapshot :: "OrderbookSnapshotMessage \<Rightarrow> string" where
  "serialize_OrderbookSnapshot m = end_lines
     ([''type=ORDERBOOK_SNAPSHOT'',
       ''symbol='' @ snap_symbol m,
       ''BIDS:''] @ concat (map level_lines (snap_bids m)) @
      [''ASKS:''] @ concat (map level_lines (snap_asks m)))"

definition serialize_TradeNotification :: "env \<Rightarrow> TradeNotificationMessage \<Rightarrow> string" where
  "serialize_TradeNotification e m = join_lines
     [''type=TRADE_NOTIFICATION'',
      ''buy_order_id='' @ tn_buy_order_id m,
      ''sell_order_id='' @ tn_sell_order_id m,
      ''symbol='' @ tn_symbol m,
      ''price='' @ show_fixed2 (tn_price m),
      ''quantity='' @ show_uint32 (tn_quantity m),
      ''timestamp='' @ timePointToString e (tn_trade_timestamp m)]"

definition serialize_Error :: "ErrorMessage \<Rightarrow> string" where
  "serialize_Error m = join_lines
     [''type=ERROR'',
      ''error_code='' @ err_error_code m,
      ''description='' @ err_description m]"

definition serialize_SnapshotRequest :: "SnapshotRequestMessage \<Rightarrow> string" where
  "serialize_SnapshotRequest m = end_lines
     [''type=SNAPSHOT_REQUEST'',
      ''symbol='' @ req_symbol m]"

definition serialize_Login :: "LoginMessage \<Rightarrow> string" where
  "serialize_Login m = join_lines
     [''type=LOGIN'',
      ''username='' @ login_username m,
      ''password='' @ login_password m]"

definition serialize_LoginResponse :: "LoginResponseMessage \<Rightarrow> string" where
  "serialize_LoginResponse m = join_lines
     [''type=LOGIN_RESPONSE'',
      ''success='' @ bool_string (lr_success m),
      ''session_token='' @ lr_session_token m,
      ''username='' @ lr_username m,
      ''error_message='' @ lr_error_message m]"

definition serialize_Register :: "RegisterMessage \<Rightarrow> string" where
  "serialize_Register m = join_lines
     [''type=REGISTER'',
      ''username='' @ reg_username m,
      ''password='' @ reg_password m]"

definition serialize_RegisterResponse :: "RegisterResponseMessage \<Rightarrow> string" where
  "serialize_RegisterResponse m = join_lines
     [''type=REGISTER_RESPONSE'',
      ''success='' @ bool_string (rr_success m),
      ''username='' @ rr_username m,
      ''error_message='' @ rr_error_message m]"

fun serialize :: "env \<Rightarrow> Message \<Rightarrow> string" where
  "serialize e (OrderSubmit m) = serialize_OrderSubmit m"
| "serialize e (OrderCancel m) = serialize_OrderCancel m"
| "serialize e (OrderStatusMsg m) = serialize_OrderStatus e m"
| "serialize e (OrderbookSnapshot m) = serialize_OrderbookSnapshot m"
| "serialize e (TradeNotification m) = serialize_TradeNotification e m"
| "serialize e (Error m) = serialize_Error m"
| "serialize e (SnapshotRequest m) = serialize_SnapshotRequest m"
| "serialize e (Login m) = serialize_Login m"
| "serialize e (LoginResponse m) = serialize_LoginResponse m"
| "serialize e (Register m) = serialize_Register m"
| "serialize e (RegisterResponse m) = serialize_RegisterResponse m"

end
