(* ===== verification/Framing.thy ===== *)
theory Framing
  imports Message
begin

text \<open>
  \<^verbatim>\<open>MessageFrame\<close> (\<^verbatim>\<open>common/include/message.h\<close>): every message travels as four bytes of length, least
  significant first, followed by its text.
\<close>

unbundle bit_operations_syntax

definition bytes_of :: "string \<Rightarrow> u8 list" where
  "bytes_of s = map (\<lambda>c. of_nat (of_char c)) s"

definition string_of :: "u8 list \<Rightarrow> string" where
  "string_of bs = map (\<lambda>b. char_of (unat b)) bs"

definition HEADER_SIZE :: nat where
  "HEADER_SIZE = 4"

definition frameMessage :: "string \<Rightarrow> u8 list" where
  "frameMessage message =
     (let length = (of_nat (List.length message) :: u32)
      in [ucast (length AND 0xFF),
          ucast (drop_bit 8 length AND 0xFF),
          ucast (drop_bit 16 length AND 0xFF),
          ucast (drop_bit 24 length AND 0xFF)] @ bytes_of message)"

definition extractLength :: "u8 list \<Rightarrow> u32" where
  "extractLength header =
     ucast (header ! 0) OR push_bit 8 (ucast (header ! 1)) OR
     push_bit 16 (ucast (header ! 2)) OR push_bit 24 (ucast (header ! 3))"

lemma length_bytes_of [simp]: "length (bytes_of s) = length s"
  by (simp add: bytes_of_def)

lemma string_of_bytes [simp]: "string_of (bytes_of s) = s"
proof -
  have "char_of (unat (of_nat (of_char c) :: u8)) = c" for c
    by (simp add: unsigned_of_nat take_bit_eq_mod of_char_mod_256)
  then show ?thesis by (simp add: string_of_def bytes_of_def comp_def)
qed

text \<open>The four bytes of a word put together again.\<close>

lemma word_bytes:
  fixes w :: u32
  shows "ucast (ucast (w AND 0xFF) :: u8) OR push_bit 8 (ucast (ucast (drop_bit 8 w AND 0xFF) :: u8)) OR
    push_bit 16 (ucast (ucast (drop_bit 16 w AND 0xFF) :: u8)) OR
    push_bit 24 (ucast (ucast (drop_bit 24 w AND 0xFF) :: u8)) = w" (is "?v = w")
proof (rule bit_word_eqI)
  fix n assume "n < LENGTH(32)"
  then have "n < 32" by simp
  then consider "n < 8" | "8 \<le> n" "n < 16" | "16 \<le> n" "n < 24" | "24 \<le> n" "n < 32" by linarith
  moreover have mask: "(0xFF :: u32) = mask 8" by (simp add: mask_eq_exp_minus_1)
  ultimately show "bit ?v n = bit w n"
    unfolding mask by cases (auto simp: bit_simps)
qed

lemma extractLength_frame [simp]: "extractLength (take 4 (frameMessage s)) = of_nat (length s)"
  using word_bytes[of "of_nat (length s)"]
  by (simp add: extractLength_def frameMessage_def Let_def)

lemma length_frame [simp]: "length (frameMessage s) = 4 + length s"
  by (simp add: frameMessage_def Let_def)

lemma frame_body [simp]: "drop 4 (frameMessage s) = bytes_of s"
  by (simp add: frameMessage_def Let_def numeral_eq_Suc)

end
