(* ===== verification/Wire_Roundtrip.thy ===== *)
theory Wire_Roundtrip
  imports Message
begin

text \<open>
  Reading back what \<^verbatim>\<open>serialize\<close> writes. A message can be sent when its text fields hold no line break
  and its prices are whole cents; then \<^verbatim>\<open>parseMessage\<close> recovers it, except for its times: they lose their
  fraction of a second, and they are off by what the time zones of the two ends make of them.
\<close>

subsection \<open>Lines\<close>

lemma getlines_join:
  "\<forall>l \<in> set ls. newline \<notin> set l \<and> l \<noteq> [] \<Longrightarrow> getlines (join_lines ls) = ls"
  by (induction ls rule: join_lines.induct) (auto simp: getlines_line getlines_last)

lemma getlines_end: "\<forall>l \<in> set ls. newline \<notin> set l \<Longrightarrow> getlines (end_lines ls) = ls"
  by (induction ls) (auto simp: end_lines_def getlines_line)

text \<open>Evaluation of the field tests on a line with a known key.\<close>

lemmas line_defs = begins_def after_equals_def extractString_def extractDouble_def extractUint32_def
  extractInt_def

subsection \<open>Fields\<close>

lemma scan_uint32_roundtrip [simp]: "scan_uint32 old (show_uint32 w) = w"
proof -
  have "unat w < 2 ^ 32" using unsigned_less[of w] by simp
  then show ?thesis by (simp add: show_uint32_def scan_uint32_show)
qed

lemma show_uint32_no_newline [simp]: "newline \<notin> set (show_uint32 w)"
  by (simp add: show_uint32_def)

lemma side_roundtrip: "extractSide (''side='' @ side_string sd) = sd"
  by (cases sd) (simp_all add: extractSide_def extractString_def after_equals_def side_string_def)

lemma type_roundtrip: "extractType (''order_type='' @ orderTypeToWireString ty) = ty"
  by (cases ty) (simp_all add: extractType_def extractString_def after_equals_def)

lemma status_roundtrip: "extractStatus (''status='' @ status_string st) = st"
  by (cases st) (simp_all add: extractStatus_def extractString_def after_equals_def)

lemmas enum_roundtrip [simp] =
  side_roundtrip[unfolded append_Cons append_Nil] type_roundtrip[unfolded append_Cons append_Nil]
  status_roundtrip[unfolded append_Cons append_Nil]

lemma bool_roundtrip [simp]: "(bool_string x = ''true'') = x"
  by (simp add: bool_string_def)

lemma side_no_newline [simp]: "newline \<notin> set (side_string sd)"
  by (cases sd) (simp_all add: side_string_def newline_def)

lemma type_no_newline [simp]: "newline \<notin> set (orderTypeToWireString ty)"
  by (cases ty) (simp_all add: newline_def)

lemma status_no_newline [simp]: "newline \<notin> set (status_string st)"
  by (cases st) (simp_all add: newline_def)

lemma bool_no_newline [simp]: "newline \<notin> set (bool_string x)"
  by (simp add: bool_string_def newline_def)

text \<open>
  A time travels as the local time of the writer, without its zone: its seconds arrive as what the
  reader's \<^verbatim>\<open>mktime\<close> makes of them as standard time of its own zone. \<open>clock_error\<close> is how far that is from
  the time that was meant. The year is read as four digits, so it must not exceed 9999.
\<close>

definition clock_error :: "env \<Rightarrow> env \<Rightarrow> int \<Rightarrow> int" where
  "clock_error e e' t = mktime_std e' (t + utc_offset e t) - t"

definition time_ok :: "env \<Rightarrow> time \<Rightarrow> bool" where
  "time_ok e tp \<longleftrightarrow>
     (let l = to_time_t tp + utc_offset e (to_time_t tp) in 0 \<le> l \<and> l < 253402300800)"

definition arrival :: "env \<Rightarrow> env \<Rightarrow> time \<Rightarrow> time" where
  "arrival e e' tp = (to_time_t tp + clock_error e e' (to_time_t tp)) * 10 ^ 9"

lemma scan_int_fraction: "scan_int old (CHR ''.'' # r) = 0"
  by (simp add: scan_int_def is_space_def split_sign_def is_digit_def)

lemma time_ok_tm: "time_ok e tp \<Longrightarrow> tm_ok (localtime e (to_time_t tp))"
  unfolding localtime_def by (rule gmtime_ok) (simp_all add: time_ok_def Let_def)

lemma time_roundtrip:
  assumes "time_ok e tp"
  shows "stringToTimePoint e' (timePointToString e tp) = arrival e e' tp"
  using get_put_stamp[OF time_ok_tm[OF assms], of "CHR '' ''" Space]
  by (simp add: stringToTimePoint_def timePointToString_def local_items_def scan_int_fraction localtime_def
      timegm_gmtime arrival_def clock_error_def)

lemma time_no_newline:
  assumes "time_ok e tp"
  shows "newline \<notin> set (timePointToString e tp)"
proof -
  have "newline \<notin> set (pad3 (show_int (millis tp)))"
    by (simp add: pad3_def) (simp add: newline_def)
  moreover have "newline \<notin> set (put_stamp CHR '' '' (localtime e (to_time_t tp)))"
    using put_stamp_chars[OF time_ok_tm[OF assms], of newline "CHR '' ''"] by (auto simp: newline_def is_digit_def)
  ultimately show ?thesis by (simp add: timePointToString_def) (simp add: newline_def)
qed

subsection \<open>Messages\<close>

abbreviation clean :: "string \<Rightarrow> bool" where
  "clean s \<equiv> newline \<notin> set s"

definition stop_ok :: "double \<Rightarrow> bool" where
  "stop_ok sp \<longleftrightarrow> sp = 0 \<or> 0 < sp \<and> cents_price sp"

definition level_ok :: "PriceLevel \<Rightarrow> bool" where
  "level_ok l \<longleftrightarrow> cents_price (l_price l) \<and> - (2 ^ 31) \<le> l_order_count l \<and> l_order_count l < 2 ^ 31"

fun sendable :: "env \<Rightarrow> Message \<Rightarrow> bool" where
  "sendable e (OrderSubmit m) \<longleftrightarrow>
     clean (sub_client_id m) \<and> clean (sub_symbol m) \<and> cents_price (sub_price m) \<and> stop_ok (sub_stop_price m)"
| "sendable e (OrderCancel m) \<longleftrightarrow> clean (can_order_id m) \<and> clean (can_client_id m)"
| "sendable e (OrderStatusMsg m) \<longleftrightarrow>
     clean (st_order_id m) \<and> clean (st_client_id m) \<and> clean (st_symbol m) \<and>
     cents_price (st_price m) \<and> stop_ok (st_stop_price m) \<and> time_ok e (st_order_timestamp m)"
| "sendable e (OrderbookSnapshot m) \<longleftrightarrow>
     clean (snap_symbol m) \<and> list_all level_ok (snap_bids m) \<and> list_all level_ok (snap_asks m)"
| "sendable e (TradeNotification m) \<longleftrightarrow>
     clean (tn_buy_order_id m) \<and> clean (tn_sell_order_id m) \<and> clean (tn_symbol m) \<and>
     cents_price (tn_price m) \<and> time_ok e (tn_trade_timestamp m)"
| "sendable e (Error m) \<longleftrightarrow> clean (err_error_code m) \<and> clean (err_description m)"
| "sendable e (SnapshotRequest m) \<longleftrightarrow> clean (req_symbol m)"
| "sendable e (Login m) \<longleftrightarrow> clean (login_username m) \<and> clean (login_password m)"
| "sendable e (LoginResponse m) \<longleftrightarrow>
     clean (lr_session_token m) \<and> clean (lr_username m) \<and> clean (lr_error_message m)"
| "sendable e (Register m) \<longleftrightarrow> clean (reg_username m) \<and> clean (reg_password m)"
| "sendable e (RegisterResponse m) \<longleftrightarrow> clean (rr_username m) \<and> clean (rr_error_message m)"

text \<open>What arrives: the message with the times that arrive.\<close>

fun delivered :: "env \<Rightarrow> env \<Rightarrow> Message \<Rightarrow> Message" where
  "delivered e e' (OrderStatusMsg m) =
     OrderStatusMsg (m\<lparr>st_order_timestamp := arrival e e' (st_order_timestamp m)\<rparr>)"
| "delivered e e' (TradeNotification m) =
     TradeNotification (m\<lparr>tn_trade_timestamp := arrival e e' (tn_trade_timestamp m)\<rparr>)"
| "delivered e e' m = m"

lemma newline_neq: "newline = c \<longleftrightarrow> c = CHR 0x0A"
  by (auto simp: newline_def)

lemmas parse_simps = line_defs newline_neq

text \<open>One lemma per message class; the lines are read back, then each of them sets its field.\<close>

lemma submit_roundtrip:
  "sendable e0 (OrderSubmit m) \<Longrightarrow> parseMessage e (serialize_OrderSubmit m) = OrderSubmit m"
  unfolding serialize_OrderSubmit_def stop_price_lines_def
  by (cases "0 < sub_stop_price m"; subst parseMessage_def, subst getlines_join)
    (auto simp: parse_simps submit_line_def price_roundtrip stop_ok_def)

lemma cancel_roundtrip:
  "sendable e0 (OrderCancel m) \<Longrightarrow> parseMessage e (serialize_OrderCancel m) = OrderCancel m"
  unfolding serialize_OrderCancel_def
  by (subst parseMessage_def, subst getlines_join) (simp_all add: parse_simps cancel_line_def)

lemma status_msg_roundtrip:
  assumes "sendable e (OrderStatusMsg m)"
  shows "parseMessage e' (serialize_OrderStatus e m) = delivered e e' (OrderStatusMsg m)"
  unfolding serialize_OrderStatus_def stop_price_lines_def
  using assms time_no_newline[of e "st_order_timestamp m"] time_roundtrip[of e "st_order_timestamp m" e']
  by (cases "0 < st_stop_price m"; subst parseMessage_def, subst getlines_join)
    (auto simp: parse_simps status_line_def price_roundtrip stop_ok_def)

lemma trade_roundtrip:
  assumes "sendable e (TradeNotification m)"
  shows "parseMessage e' (serialize_TradeNotification e m) = delivered e e' (TradeNotification m)"
  unfolding serialize_TradeNotification_def
  using assms time_no_newline[of e "tn_trade_timestamp m"] time_roundtrip[of e "tn_trade_timestamp m" e']
  by (subst parseMessage_def, subst getlines_join)
    (auto simp: parse_simps trade_line_def price_roundtrip)

lemma error_roundtrip:
  "sendable e0 (Error m) \<Longrightarrow> parseMessage e (serialize_Error m) = Error m"
  unfolding serialize_Error_def
  by (subst parseMessage_def, subst getlines_join) (simp_all add: parse_simps error_line_def)

lemma request_roundtrip:
  "sendable e0 (SnapshotRequest m) \<Longrightarrow> parseMessage e (serialize_SnapshotRequest m) = SnapshotRequest m"
  unfolding serialize_SnapshotRequest_def
  by (subst parseMessage_def, subst getlines_end) (simp_all add: parse_simps request_line_def)

lemma login_roundtrip:
  "sendable e0 (Login m) \<Longrightarrow> parseMessage e (serialize_Login m) = Login m"
  unfolding serialize_Login_def
  by (subst parseMessage_def, subst getlines_join) (simp_all add: parse_simps login_line_def)

lemma login_response_roundtrip:
  "sendable e0 (LoginResponse m) \<Longrightarrow> parseMessage e (serialize_LoginResponse m) = LoginResponse m"
  unfolding serialize_LoginResponse_def
  by (subst parseMessage_def, subst getlines_join) (simp_all add: parse_simps login_response_line_def)

lemma register_roundtrip:
  "sendable e0 (Register m) \<Longrightarrow> parseMessage e (serialize_Register m) = Register m"
  unfolding serialize_Register_def
  by (subst parseMessage_def, subst getlines_join) (simp_all add: parse_simps register_line_def)

lemma register_response_roundtrip:
  "sendable e0 (RegisterResponse m) \<Longrightarrow> parseMessage e (serialize_RegisterResponse m) = RegisterResponse m"
  unfolding serialize_RegisterResponse_def
  by (subst parseMessage_def, subst getlines_join) (simp_all add: parse_simps register_response_line_def)

text \<open>The snapshot is read level by level.\<close>

lemma level_lines_read:
  assumes "level_ok l" and "in_bids s \<noteq> in_asks s"
  shows "foldl (snapshot_line e) s (level_lines l) =
    s\<lparr>snapshot := (if in_bids s then (snapshot s)\<lparr>snap_bids := snap_bids (snapshot s) @ [l]\<rparr>
                  else (snapshot s)\<lparr>snap_asks := snap_asks (snapshot s) @ [l]\<rparr>),
      current_level := zero_level\<rparr>"
  using assms
  by (auto simp: level_lines_def snapshot_line_def parse_simps price_roundtrip level_ok_def scan_int_show Let_def)

lemma levels_read:
  assumes "list_all level_ok ls" and "in_bids s \<noteq> in_asks s"
  shows "snapshot (foldl (snapshot_line e) s (concat (map level_lines ls))) =
      (if in_bids s then (snapshot s)\<lparr>snap_bids := snap_bids (snapshot s) @ ls\<rparr>
       else (snapshot s)\<lparr>snap_asks := snap_asks (snapshot s) @ ls\<rparr>) \<and>
    in_bids (foldl (snapshot_line e) s (concat (map level_lines ls))) = in_bids s \<and>
    in_asks (foldl (snapshot_line e) s (concat (map level_lines ls))) = in_asks s"
  using assms
proof (induction ls arbitrary: s)
  case (Cons l ls)
  then show ?case by (auto simp: level_lines_read)
qed simp

lemma level_lines_clean: "\<forall>l \<in> set (concat (map level_lines ls)). newline \<notin> set l"
  by (induction ls) (auto simp: level_lines_def newline_neq)

lemma snapshot_roundtrip:
  assumes "sendable e0 (OrderbookSnapshot m)"
  shows "parseMessage e (serialize_OrderbookSnapshot m) = OrderbookSnapshot m"
proof -
  let ?head = "[''type=ORDERBOOK_SNAPSHOT'', ''symbol='' @ snap_symbol m, ''BIDS:'']"
  let ?bids = "concat (map level_lines (snap_bids m))" and ?asks = "concat (map level_lines (snap_asks m))"
  let ?s0 = "\<lparr>in_bids = False, in_asks = False, current_level = junk_level e,
    snapshot = \<lparr>snap_symbol = [], snap_bids = [], snap_asks = []\<rparr>\<rparr>"
  let ?s1 = "\<lparr>in_bids = True, in_asks = False, current_level = junk_level e,
    snapshot = \<lparr>snap_symbol = snap_symbol m, snap_bids = [], snap_asks = []\<rparr>\<rparr>"
  have ok: "list_all level_ok (snap_bids m)" "list_all level_ok (snap_asks m)" "clean (snap_symbol m)"
    using assms by simp_all
  have lines: "getlines (serialize_OrderbookSnapshot m) = ?head @ ?bids @ [''ASKS:''] @ ?asks"
    unfolding serialize_OrderbookSnapshot_def
    using ok(3) level_lines_clean by (subst getlines_end) (auto simp: newline_neq)
  have s1: "foldl (snapshot_line e) ?s0 [''symbol='' @ snap_symbol m, ''BIDS:''] = ?s1"
    by (simp add: snapshot_line_def parse_simps)
  define s2 where "s2 = foldl (snapshot_line e) ?s1 ?bids"
  have s2: "snapshot s2 = \<lparr>snap_symbol = snap_symbol m, snap_bids = snap_bids m, snap_asks = []\<rparr>"
    "in_bids s2" "\<not> in_asks s2"
    using levels_read[OF ok(1), of ?s1 e] by (simp_all add: s2_def)
  define s3 where "s3 = snapshot_line e s2 ''ASKS:''"
  have s3: "s3 = s2\<lparr>in_bids := False, in_asks := True\<rparr>"
    by (simp add: s3_def snapshot_line_def begins_def)
  have "snapshot (foldl (snapshot_line e) s3 ?asks) = m"
    using levels_read[OF ok(2), of s3 e] s2 by (simp add: s3)
  then have "snapshot (foldl (snapshot_line e) ?s0 ([''symbol='' @ snap_symbol m, ''BIDS:''] @ ?bids @ [''ASKS:''] @ ?asks)) = m"
    unfolding foldl_append s1 s2_def[symmetric] by (simp add: s3_def)
  then show ?thesis
    unfolding parseMessage_def lines by (simp add: extractString_def after_equals_def)
qed

lemma message_roundtrip:
  assumes "sendable e m"
  shows "parseMessage e' (serialize e m) = delivered e e' m"
  using assms by (cases m)
    (simp_all only: serialize.simps delivered.simps submit_roundtrip cancel_roundtrip status_msg_roundtrip
      snapshot_roundtrip trade_roundtrip error_roundtrip request_roundtrip login_roundtrip
      login_response_roundtrip register_roundtrip register_response_roundtrip)

subsection \<open>Properties\<close>

text \<open>
  C15. Every message class survives the wire: if the text fields hold no line break, the prices are
  whole cents (up to \<open>2\<^sup>5\<^sup>0\<close> of them), counts fit their type and times lie between 1970 and 9999 on the
  writer's clock, then \<^verbatim>\<open>parseMessage\<close> at the reader applied to what \<^verbatim>\<open>serialize\<close> writes at the writer gives
  the message back, with its times cut to whole seconds and moved by the clock error: the difference between the time and
  what the reader's \<^verbatim>\<open>mktime\<close>, told that it is standard time, makes of the writer's local time.
\<close>

theorem parse_serialize:
  assumes "sendable e m"
  shows "parseMessage e' (serialize e m) = delivered e e' m"
  using assms by (rule message_roundtrip)

text \<open>Two ends: a process in UTC, and one in New York with the daylight saving time of 2024.\<close>

definition utc_env :: env where
  "utc_env = \<lparr>utc_offset = (\<lambda>t. 0), mktime_std = (\<lambda>l. l),
     junk_double = 0, junk_uint32 = 0, junk_int = 0, junk_level = zero_level\<rparr>"

definition new_york_env :: env where
  "new_york_env = utc_env\<lparr>utc_offset := (\<lambda>t. if 1710054000 \<le> t \<and> t < 1730613600 then - 14400 else - 18000),
     mktime_std := (\<lambda>l. l + 18000)\<rparr>"

definition sample_submit :: Message where
  "sample_submit = OrderSubmit \<lparr>sub_client_id = ''alice'', sub_symbol = ''ACME'', sub_side = SELL,
     sub_order_type = STOP_LIMIT, sub_price = fl (1999 / 100), sub_stop_price = fl (1 / 10), sub_quantity = 7\<rparr>"

definition sample_trade_at :: "time \<Rightarrow> Message" where
  "sample_trade_at tp = TradeNotification \<lparr>tn_buy_order_id = ''b'', tn_sell_order_id = ''s'', tn_symbol = ''ACME'',
     tn_price = fl (1999 / 100), tn_quantity = 3, tn_trade_timestamp = tp\<rparr>"

text \<open>The first of January and the first of July 2024, at noon UTC and a half second.\<close>

abbreviation winter :: time where
  "winter \<equiv> 1704110400500000000"

abbreviation summer :: time where
  "summer \<equiv> 1719835200500000000"

lemma sample_sendable:
  "sendable e sample_submit"
  "sendable new_york_env (sample_trade_at winter)" "sendable new_york_env (sample_trade_at summer)"
  "sendable utc_env (sample_trade_at summer)"
proof -
  have p: "cents_price (fl (1999 / 100))" "stop_ok (fl (1 / 10))" by code_simp+
  then show "sendable e sample_submit" by (simp add: sample_submit_def newline_def)
  from p show "sendable new_york_env (sample_trade_at winter)" "sendable new_york_env (sample_trade_at summer)"
    "sendable utc_env (sample_trade_at summer)"
    by (simp_all add: sample_trade_at_def newline_def time_ok_def to_time_t_def quot_def new_york_env_def utc_env_def)
qed

lemma sample_arrivals:
  "delivered e e' sample_submit = sample_submit"
  "delivered new_york_env new_york_env (sample_trade_at winter) = sample_trade_at (winter - 500000000)"
  "delivered new_york_env new_york_env (sample_trade_at summer) = sample_trade_at (summer - 500000000 + 3600 * 10 ^ 9)"
  "delivered utc_env new_york_env (sample_trade_at summer) = sample_trade_at (summer - 500000000 + 18000 * 10 ^ 9)"
  by (simp_all add: sample_submit_def sample_trade_at_def arrival_def clock_error_def to_time_t_def quot_def
      new_york_env_def utc_env_def)

theorem parse_serialize_witness:
  "parseMessage new_york_env (serialize utc_env sample_submit) = sample_submit \<and>
   parseMessage new_york_env (serialize new_york_env (sample_trade_at winter)) = sample_trade_at (winter - 500000000) \<and>
   parseMessage new_york_env (serialize new_york_env (sample_trade_at summer)) =
     sample_trade_at (summer - 500000000 + 3600 * 10 ^ 9)"
  using parse_serialize[OF sample_sendable(1), of new_york_env utc_env]
    parse_serialize[OF sample_sendable(2), of new_york_env] parse_serialize[OF sample_sendable(3), of new_york_env]
  unfolding sample_arrivals by (intro conjI)

end
