(* ===== verification/Session.thy ===== *)
theory Session
  imports Framing Wire_Roundtrip
begin

text \<open>
  The class \<^verbatim>\<open>Session\<close> (\<^verbatim>\<open>server/include/session.h\<close>, \<^verbatim>\<open>server/src/session.cpp\<close>): one client connection as a
  state machine. Asynchronous operations are requests in the state (\<open>pending_read\<close>, \<open>pending_writes\<close>)
  and the completion handlers are operations of their own, so that any interleaving of sends, reads
  and completions is a sequence of these operations. \<open>wire\<close> collects the bytes the socket has accepted
  and \<open>events\<close> the invocations of the message and the disconnect callback.
\<close>

datatype ReadState = HEADER | CONTENT

datatype read_op = ReadHeader | ReadContent nat

datatype completion = Failed | Done "u8 list"

datatype session_event = Delivered Message | Disconnected

record session =
  s_client_id :: string
  s_authenticated :: bool
  s_username :: string
  s_session_token :: string
  s_permissions :: string
  is_open :: bool
  message_callback :: bool
  disconnect_callback :: bool
  read_state :: ReadState
  length_buffer :: "u8 list"
  message_content_buffer :: "u8 list"
  pending_read :: "read_op option"
  write_messages :: "u8 list list"
  writing :: bool
  pending_writes :: "u8 list list"
  wire :: "u8 list"
  events :: "session_event list"

definition new_session :: "bool \<Rightarrow> session" where
  "new_session callback =
     \<lparr>s_client_id = [], s_authenticated = False, s_username = [], s_session_token = [], s_permissions = [],
      is_open = True, message_callback = callback, disconnect_callback = False, read_state = HEADER,
      length_buffer = [0, 0, 0, 0], message_content_buffer = [], pending_read = None,
      write_messages = [], writing = False, pending_writes = [], wire = [], events = []\<rparr>"

definition setClientId :: "string \<Rightarrow> session \<Rightarrow> session" where
  [simp]: "setClientId client_id s = s\<lparr>s_client_id := client_id\<rparr>"

definition setAuthenticated :: "bool \<Rightarrow> session \<Rightarrow> session" where
  [simp]: "setAuthenticated auth s = s\<lparr>s_authenticated := auth\<rparr>"

definition setUsername :: "string \<Rightarrow> session \<Rightarrow> session" where
  [simp]: "setUsername username s = s\<lparr>s_username := username\<rparr>"

definition setSessionToken :: "string \<Rightarrow> session \<Rightarrow> session" where
  [simp]: "setSessionToken token s = s\<lparr>s_session_token := token\<rparr>"

definition setPermissions :: "string \<Rightarrow> session \<Rightarrow> session" where
  [simp]: "setPermissions perms s = s\<lparr>s_permissions := perms\<rparr>"

text \<open>\<^verbatim>\<open>permissions_.find(perm) != npos\<close>\<close>

definition hasPermission :: "string \<Rightarrow> session \<Rightarrow> bool" where
  "hasPermission perm s \<longleftrightarrow>
     (\<exists>k \<le> length (s_permissions s). take (length perm) (drop k (s_permissions s)) = perm)"

definition setDisconnectCallback :: "session \<Rightarrow> session" where
  "setDisconnectCallback s = s\<lparr>disconnect_callback := True\<rparr>"

definition close :: "session \<Rightarrow> session" where
  "close s =
     (let s1 = (if is_open s then s\<lparr>writing := False, is_open := False\<rparr> else s)
      in if disconnect_callback s1
         then s1\<lparr>disconnect_callback := False, events := events s1 @ [Disconnected]\<rparr>
         else s1)"

text \<open>
  The destructor. It calls \<^verbatim>\<open>close\<close>, where \<^verbatim>\<open>shared_from_this()\<close> throws \<^verbatim>\<open>std::bad_weak_ptr\<close>, since no owner is left; the
  destructor catches it. By then the socket is closed and the callback has been moved out, so that it
  is gone without having been called.
\<close>

definition destroy_session :: "session \<Rightarrow> session" where
  "destroy_session s =
     (let s1 = (if is_open s then s\<lparr>writing := False, is_open := False\<rparr> else s)
      in s1\<lparr>disconnect_callback := False\<rparr>)"

subsection \<open>Reading\<close>

definition doRead :: "session \<Rightarrow> session" where
  "doRead s =
     (let s1 = (if read_state s = HEADER then s else s\<lparr>read_state := HEADER\<rparr>)
      in s1\<lparr>pending_read := Some ReadHeader\<rparr>)"

definition start :: "session \<Rightarrow> session" where
  "start s = doRead s"

definition header_done :: "completion \<Rightarrow> session \<Rightarrow> session" where
  "header_done c s =
     (let s = s\<lparr>pending_read := None\<rparr>
      in case c of
           Failed \<Rightarrow> close s
         | Done bs \<Rightarrow>
             if length bs = HEADER_SIZE then
               let s1 = s\<lparr>length_buffer := bs\<rparr>;
                   message_length = extractLength (length_buffer s1)
               in if message_length = 0 \<or> message_length > 1024 * 1024 then close s1
                  else s1\<lparr>message_content_buffer :=
                            take (unat message_length) (message_content_buffer s1) @
                            replicate (unat message_length - length (message_content_buffer s1)) 0,
                          read_state := CONTENT,
                          pending_read := Some (ReadContent (unat message_length))\<rparr>
             else close s)"

definition content_done :: "env \<Rightarrow> completion \<Rightarrow> session \<Rightarrow> session" where
  "content_done e c s =
     (let s = s\<lparr>pending_read := None\<rparr>
      in case c of
           Failed \<Rightarrow> close s
         | Done bs \<Rightarrow>
             let s1 = s\<lparr>message_content_buffer := bs\<rparr>;
                 message = parseMessage e (string_of (message_content_buffer s1));
                 s2 = (if message_callback s1 then s1\<lparr>events := events s1 @ [Delivered message]\<rparr> else s1)
             in doRead (s2\<lparr>read_state := HEADER\<rparr>))"

text \<open>
  The stream of bytes from the peer: \<^verbatim>\<open>asio::async_read\<close> completes when its buffer is full. The loop
  serves the requests as long as the bytes last and returns the bytes not yet read.
\<close>

function read_all :: "env \<Rightarrow> u8 list \<Rightarrow> session \<Rightarrow> session \<times> u8 list" where
  "read_all e bs s =
     (case pending_read s of
        None \<Rightarrow> (s, bs)
      | Some ReadHeader \<Rightarrow>
          if length bs < HEADER_SIZE then (s, bs)
          else read_all e (drop HEADER_SIZE bs) (header_done (Done (take HEADER_SIZE bs)) s)
      | Some (ReadContent n) \<Rightarrow>
          if length bs < n then (s, bs)
          else read_all e (drop n bs) (content_done e (Done (take n bs)) s))"
  by pat_completeness auto
termination
proof (relation "measure (\<lambda>(e, bs, s). 2 * length bs +
    (case pending_read s of Some (ReadContent n) \<Rightarrow> 1 | _ \<Rightarrow> 0))")
  fix e :: env and bs :: "u8 list" and s :: session and x2 n
  assume "pending_read s = Some x2" "x2 = ReadContent n" "\<not> length bs < n"
  then show "((e, drop n bs, content_done e (Done (take n bs)) s), e, bs, s) \<in>
      measure (\<lambda>(e, bs, s). 2 * length bs + (case pending_read s of Some (ReadContent n) \<Rightarrow> 1 | _ \<Rightarrow> 0))"
    by (simp add: content_done_def doRead_def Let_def)
qed (auto simp: HEADER_SIZE_def split: option.splits read_op.splits)

declare read_all.simps [simp del]

subsection \<open>Writing\<close>

definition doWriteNext :: "session \<Rightarrow> session" where
  "doWriteNext s =
     (case write_messages s of
        [] \<Rightarrow> s\<lparr>writing := False\<rparr>
      | buf # rest \<Rightarrow> s\<lparr>pending_writes := pending_writes s @ [buf]\<rparr>)"

definition sendMessage :: "env \<Rightarrow> Message option \<Rightarrow> session \<Rightarrow> session" where
  "sendMessage e message s =
     (case message of
        None \<Rightarrow> s
      | Some m \<Rightarrow>
          let s1 = s\<lparr>write_messages := write_messages s @ [frameMessage (serialize e m)]\<rparr>
          in if \<not> writing s1 then doWriteNext (s1\<lparr>writing := True\<rparr>) else s1)"

text \<open>The completion handler of the oldest outstanding write.\<close>

definition write_done :: "bool \<Rightarrow> session \<Rightarrow> session" where
  "write_done ok s =
     (case pending_writes s of
        [] \<Rightarrow> s
      | buf # bufs \<Rightarrow>
          let s1 = s\<lparr>pending_writes := bufs\<rparr>
          in if ok then
               let s2 = s1\<lparr>wire := wire s1 @ buf, write_messages := tl (write_messages s1)\<rparr>
               in if write_messages s2 = [] then s2\<lparr>writing := False\<rparr> else doWriteNext s2
             else close s1)"

definition injectTestMessage :: "string \<Rightarrow> session \<Rightarrow> session" where
  "injectTestMessage smb s =
     (if message_callback s
      then s\<lparr>events := events s @ [Delivered (SnapshotRequest \<lparr>req_symbol = smb\<rparr>)]\<rparr> else s)"

end
