(* ===== verification/Iso_Time.thy ===== *)
theory Iso_Time
  imports Message
begin

text \<open>
  Times in UTC: \<^verbatim>\<open>timePointToIsoString\<close> and \<^verbatim>\<open>isoStringToTimePoint\<close> of \<^verbatim>\<open>common/include/message.h\<close> and \<^verbatim>\<open>nowIso\<close> of
  \<^verbatim>\<open>common/src/order_store.cpp\<close>, over the calendar functions of \<open>Calendar\<close>.
\<close>

subsection \<open>Printing and reading\<close>

text \<open>\<^verbatim>\<open>put_time(&tm, "%FT%T")\<close>\<close>

abbreviation put_iso :: "tm \<Rightarrow> string" where
  "put_iso \<equiv> put_stamp CHR ''T''"

definition timePointToIsoString :: "time \<Rightarrow> string" where
  "timePointToIsoString tp =
     put_iso (gmtime (to_time_t tp)) @ ''.'' @ pad3 (show_int (millis tp)) @ ''Z''"

definition nowIso :: "time \<Rightarrow> string" where
  "nowIso now = put_iso (gmtime (to_time_t now)) @ ''Z''"

text \<open>The items of \<^verbatim>\<open>"%Y-%m-%dT%H:%M:%S"\<close>.\<close>

definition iso_items :: "time_item list" where
  "iso_items = stamp_items (Literal CHR ''T'')"

text \<open>\<^verbatim>\<open>std::stoi\<close>; \<open>None\<close> is the exception \<^verbatim>\<open>std::invalid_argument\<close> or \<^verbatim>\<open>std::out_of_range\<close>.\<close>

definition stoi :: "string \<Rightarrow> int option" where
  "stoi s =
     (case split_sign (dropWhile is_space s) of
        (neg, t) \<Rightarrow>
          let ds = takeWhile is_digit t; v = (if neg then - int (digits_val ds) else int (digits_val ds))
          in if ds = [] \<or> v < - (2 ^ 31) \<or> 2 ^ 31 \<le> v then None else Some v)"

definition isoStringToTimePoint :: "string \<Rightarrow> time option" where
  "isoStringToTimePoint str =
     (let tm = fst (get_time iso_items str);
          tp = timegm tm * 10 ^ 9
      in case dropWhile (\<lambda>c. c \<noteq> CHR ''.'') str of
           [] \<Rightarrow> Some tp
         | _ # r \<Rightarrow> (case stoi (take 3 r) of None \<Rightarrow> None | Some ms \<Rightarrow> Some (tp + ms * 10 ^ 6)))"

lemma zero_char: "CHR ''0'' = digit_char 0"
  by code_simp

lemma pad3_digits:
  assumes "n < 1000"
  shows "length (pad3 (show_nat n)) = 3 \<and> digits_val (pad3 (show_nat n)) = n \<and> (\<forall>c \<in> set (pad3 (show_nat n)). is_digit c)"
proof -
  consider "n < 10" | "10 \<le> n" "n < 100" | "100 \<le> n" by linarith
  then show ?thesis
  proof cases
    case 1
    then show ?thesis by (simp add: pad3_def show_nat.simps[of n] digits_val_def zero_char eval_nat_numeral)
  next
    case 2
    then have "n div 10 < 10" by linarith
    with 2 show ?thesis
      by (simp add: pad3_def show_nat.simps[of n] show_nat.simps[of "n div 10"] digits_val_def zero_char)
  next
    case 3
    then have "\<not> n < 10" "\<not> n div 10 < 10" "n div 10 div 10 < 10" using assms by linarith+
    then show ?thesis
      by (simp add: pad3_def show_nat.simps[of n] show_nat.simps[of "n div 10"] show_nat.simps[of "n div 10 div 10"]
          digits_val_def)
  qed
qed

lemma to_time_t_nonneg: "0 \<le> tp \<Longrightarrow> to_time_t tp = tp div 10 ^ 9"
  by (simp add: to_time_t_def quot_def)

lemma millis_nonneg: "0 \<le> tp \<Longrightarrow> millis tp = tp div 10 ^ 6 mod 1000"
  by (simp add: millis_def quot_def Let_def minus_div_mult_eq_mod)

lemma put_iso_no_dot: "tm_ok tm \<Longrightarrow> c \<in> set (put_iso tm) \<Longrightarrow> c \<noteq> CHR ''.''"
  using put_stamp_chars[of tm c "CHR ''T''"] is_digit_facts(5)[of c] by auto

text \<open>
  C37. UTC round trip: a time from 1970 to the year 9999 that is printed in ISO form and read back
  is the same time, cut to the millisecond.
\<close>

theorem iso_roundtrip:
  assumes "0 \<le> tp" and "tp < 253402300800 * 10 ^ 9"
  shows "isoStringToTimePoint (timePointToIsoString tp) = Some (tp - tp mod 10 ^ 6)"
proof -
  define t where "t = to_time_t tp"
  define ms where "ms = tp div 10 ^ 6 mod 1000"
  have t: "0 \<le> t" "t < 253402300800" using assms by (auto simp: t_def to_time_t_nonneg)
  have tm: "tm_ok (gmtime t)" using t by (rule gmtime_ok)
  have ms: "0 \<le> ms" "ms < 1000" "millis tp = ms" "show_int ms = show_nat (nat ms)"
    using assms by (simp_all add: ms_def millis_nonneg show_int_def)
  define u where "u = pad3 (show_nat (nat ms))"
  have "nat ms < 1000" using ms by simp
  note u = pad3_digits[OF this, folded u_def]
  have str: "timePointToIsoString tp = put_iso (gmtime t) @ CHR ''.'' # u @ ''Z''"
    by (simp add: timePointToIsoString_def t_def[symmetric] ms u_def)
  have "fst (get_time iso_items (timePointToIsoString tp)) = gmtime t"
    unfolding str iso_items_def by (simp add: get_put_stamp[OF tm])
  moreover have "dropWhile (\<lambda>c. c \<noteq> CHR ''.'') (timePointToIsoString tp) = CHR ''.'' # u @ ''Z''"
    unfolding str using put_iso_no_dot[OF tm] by (simp add: dropWhile_append2)
  moreover have "stoi (take 3 (u @ ''Z'')) = Some ms"
  proof -
    obtain c v where c: "u = c # v" using u by (cases u) auto
    have h: "is_digit c" "takeWhile is_digit u = u" using u c by (auto simp: takeWhile_eq_all_conv)
    then have "dropWhile is_space u = u" "split_sign u = (False, u)"
      using is_digit_facts[OF h(1)] by (simp_all add: c split_sign_def)
    moreover have "take 3 (u @ ''Z'') = u" using u by simp
    ultimately show ?thesis using u h(2) ms(1,2) c unfolding stoi_def by (simp add: Let_def del: takeWhile_eq_all_conv)
  qed
  ultimately have "isoStringToTimePoint (timePointToIsoString tp) = Some (t * 10 ^ 9 + ms * 10 ^ 6)"
    by (simp add: isoStringToTimePoint_def timegm_gmtime)
  moreover have "t * 10 ^ 9 + ms * 10 ^ 6 = tp - tp mod 10 ^ 6"
  proof -
    have "t = tp div 10 ^ 6 div 1000" using assms by (simp add: t_def to_time_t_nonneg zdiv_zmult2_eq[symmetric])
    then have "t * 1000 + ms = tp div 10 ^ 6" by (simp add: ms_def)
    moreover have "tp div 10 ^ 6 * 10 ^ 6 = tp - tp mod 10 ^ 6" by (rule minus_mod_eq_div_mult[symmetric])
    ultimately have "(t * 1000 + ms) * 10 ^ 6 = tp - tp mod 10 ^ 6" by presburger
    then show ?thesis by (simp only: distrib_right mult.assoc) simp
  qed
  ultimately show ?thesis by simp
qed

theorem iso_roundtrip_witness:
  "isoStringToTimePoint (timePointToIsoString 1234567890123456789) = Some 1234567890123000000"
  using iso_roundtrip[of 1234567890123456789] by simp

end
