(* ===== verification/Order_Store.thy ===== *)
theory Order_Store
  imports Book_Api Iso_Time Password_Hash "HOL-Library.Multiset" "HOL-Library.List_Lexorder" "HOL-Library.Char_ord"
begin

text \<open>
  The class \<^verbatim>\<open>OrderStore\<close> (\<^verbatim>\<open>common/include/order_store.h\<close>, \<^verbatim>\<open>common/src/order_store.cpp\<close>): orders, trades and users
  in an SQLite database.

  SQLite itself is a parameter: the record \<open>sqlite\<close> has one field per SQL statement of the source, on an
  unspecified type of databases. A field that writes stands for preparing, binding and stepping the
  statement and tells whether the step returned \<^verbatim>\<open>SQLITE_DONE\<close>; a field that reads returns the rows the
  steps deliver. What the code relies on is the predicate \<open>sqlite_ok\<close>: seen as tables, the database
  changes as the documentation of the statements says.
\<close>

subsection \<open>Rows\<close>

record order_row =
  r_id :: string
  r_client_id :: string
  r_symbol :: string
  r_side :: string
  r_order_type :: string
  r_price :: double
  r_stop_price :: double
  r_quantity :: int
  r_remaining_quantity :: int
  r_status :: string
  r_created_at :: string

record TradeRecord =
  tr_buy_order_id :: string
  tr_sell_order_id :: string
  tr_symbol :: string
  tr_price :: double
  tr_quantity :: u32
  tr_timestamp :: string

record trade_row =
  w_buy_order_id :: string
  w_sell_order_id :: string
  w_symbol :: string
  w_price :: double
  w_quantity :: int
  w_traded_at :: string

record UserRecord =
  u_username :: string
  u_password :: string
  u_permissions :: string

datatype sql_command = JournalModeWal | SynchronousNormal | CreateTables

record 'db sqlite =
  sqlite_open :: "string \<Rightarrow> 'db option"
  sqlite_exec :: "sql_command \<Rightarrow> 'db \<Rightarrow> bool \<times> 'db"
  insert_order :: "order_row \<Rightarrow> 'db \<Rightarrow> bool \<times> 'db"
  update_order :: "int \<Rightarrow> string \<Rightarrow> string \<Rightarrow> string \<Rightarrow> 'db \<Rightarrow> bool \<times> 'db"
  select_active :: "string option \<Rightarrow> 'db \<Rightarrow> order_row list"
  insert_trade :: "trade_row \<Rightarrow> 'db \<Rightarrow> bool \<times> 'db"
  select_trades :: "string \<Rightarrow> int \<Rightarrow> 'db \<Rightarrow> trade_row list"
  insert_user :: "UserRecord \<Rightarrow> 'db \<Rightarrow> bool \<times> 'db"
  select_user :: "string \<Rightarrow> 'db \<Rightarrow> UserRecord list"
  count_users :: "'db \<Rightarrow> int list option"

record 'db order_store =
  os_path :: string
  os_db :: "'db option"

subsection \<open>Helpers\<close>

definition sideToString :: "OrderSide \<Rightarrow> string" where
  "sideToString s = (if s = BUY then ''BUY'' else ''SELL'')"

definition stringToSide :: "string \<Rightarrow> OrderSide" where
  "stringToSide s = (if s = ''BUY'' then BUY else SELL)"

fun typeToString :: "OrderType \<Rightarrow> string" where
  "typeToString MARKET = ''MARKET''"
| "typeToString STOP = ''STOP''"
| "typeToString STOP_LIMIT = ''STOP_LIMIT''"
| "typeToString LIMIT = ''LIMIT''"

definition stringToType :: "string \<Rightarrow> OrderType" where
  "stringToType s =
     (if s = ''MARKET'' then MARKET
      else if s = ''STOP'' then STOP
      else if s = ''STOP_LIMIT'' then STOP_LIMIT
      else LIMIT)"

fun statusToString :: "OrderStatus \<Rightarrow> string" where
  "statusToString PENDING = ''PENDING''"
| "statusToString PARTIAL = ''PARTIAL''"
| "statusToString FILLED = ''FILLED''"
| "statusToString CANCELED = ''CANCELED''"
| "statusToString REJECTED = ''REJECTED''"

definition stringToStatus :: "string \<Rightarrow> OrderStatus" where
  "stringToStatus s =
     (if s = ''PARTIAL'' then PARTIAL
      else if s = ''FILLED'' then FILLED
      else if s = ''CANCELED'' then CANCELED
      else if s = ''REJECTED'' then REJECTED
      else PENDING)"

text \<open>A text bound with \<^verbatim>\<open>c_str()\<close> and length \<open>-1\<close> ends at its first null character.\<close>

definition c_str :: "string \<Rightarrow> string" where
  "c_str s = takeWhile (\<lambda>c. c \<noteq> CHR 0x00) s"

subsection \<open>Life cycle\<close>

definition new_store :: "string \<Rightarrow> 'db order_store" where
  "new_store path = \<lparr>os_path = path, os_db = None\<rparr>"

definition executeSQL :: "'db sqlite \<Rightarrow> sql_command \<Rightarrow> 'db \<Rightarrow> bool \<times> 'db" where
  "executeSQL sq sql d = sqlite_exec sq sql d"

definition createSchema :: "'db sqlite \<Rightarrow> 'db \<Rightarrow> bool \<times> 'db" where
  "createSchema sq d = executeSQL sq CreateTables d"

definition open_store :: "'db sqlite \<Rightarrow> 'db order_store \<Rightarrow> bool \<times> 'db order_store" where
  "open_store sq st =
     (case os_db st of
        Some _ \<Rightarrow> (True, st)
      | None \<Rightarrow>
          (case sqlite_open sq (c_str (os_path st)) of
             None \<Rightarrow> (False, st)
           | Some d \<Rightarrow>
               let d1 = snd (executeSQL sq JournalModeWal d);
                   d2 = snd (executeSQL sq SynchronousNormal d1);
                   (ok, d3) = createSchema sq d2
               in (ok, st\<lparr>os_db := Some d3\<rparr>)))"

definition close_store :: "'db order_store \<Rightarrow> 'db order_store" where
  "close_store st = st\<lparr>os_db := None\<rparr>"

text \<open>The destructor.\<close>

definition destroy_store :: "'db order_store \<Rightarrow> 'db order_store" where
  "destroy_store st = close_store st"

subsection \<open>Orders\<close>

definition order_row_of :: "time \<Rightarrow> order \<Rightarrow> order_row" where
  "order_row_of now ord =
     \<lparr>r_id = c_str (o_id ord), r_client_id = c_str (o_client_id ord), r_symbol = c_str (o_symbol ord),
      r_side = sideToString (o_side ord), r_order_type = typeToString (o_type ord),
      r_price = o_price ord, r_stop_price = o_stop_price ord,
      r_quantity = sint (o_quantity ord), r_remaining_quantity = sint (o_remaining ord),
      r_status = statusToString (o_status ord), r_created_at = nowIso now\<rparr>"

definition saveOrder ::
  "'db sqlite \<Rightarrow> time \<Rightarrow> order option \<Rightarrow> 'db order_store \<Rightarrow> bool \<times> 'db order_store" where
  "saveOrder sq now ord st =
     (case (os_db st, ord) of
        (Some d, Some x) \<Rightarrow>
          let (ok, d1) = insert_order sq (order_row_of now x) d in (ok, st\<lparr>os_db := Some d1\<rparr>)
      | _ \<Rightarrow> (False, st))"

definition updateOrder :: "'db sqlite \<Rightarrow> order option \<Rightarrow> 'db order_store \<Rightarrow> bool \<times> 'db order_store" where
  "updateOrder sq ord st =
     (case (os_db st, ord) of
        (Some d, Some x) \<Rightarrow>
          let (ok, d1) = update_order sq (sint (o_remaining x)) (statusToString (o_status x))
                           (typeToString (o_type x)) (c_str (o_id x)) d
          in (ok, st\<lparr>os_db := Some d1\<rparr>)
      | _ \<Rightarrow> (False, st))"

text \<open>The order object made from a row; the constructor stamps it with the time of the restart.\<close>

definition order_of_row :: "time \<Rightarrow> order_row \<Rightarrow> order" where
  "order_of_row now r =
     (let qty = word_of_int (r_quantity r);
          rem_qty = word_of_int (r_remaining_quantity r);
          ord = new_order now (r_id r) (stringToSide (r_side r)) (r_price r) rem_qty (r_symbol r)
                  (r_client_id r) (stringToType (r_order_type r)) (r_stop_price r)
      in if rem_qty < qty then snd (fill ord 0) else ord)"

text \<open>\<open>now k\<close> is the reading of the clock in the constructor of the \<open>k\<close>-th object.\<close>

definition orders_of_rows :: "(nat \<Rightarrow> time) \<Rightarrow> order_row list \<Rightarrow> order list" where
  "orders_of_rows now rows = map2 order_of_row (map now [0..<length rows]) rows"

definition loadActiveOrders :: "'db sqlite \<Rightarrow> (nat \<Rightarrow> time) \<Rightarrow> string \<Rightarrow> 'db order_store \<Rightarrow> order list" where
  "loadActiveOrders sq now smb st =
     (case os_db st of
        None \<Rightarrow> []
      | Some d \<Rightarrow> orders_of_rows now (select_active sq (Some (c_str smb)) d))"

definition loadAllActiveOrders :: "'db sqlite \<Rightarrow> (nat \<Rightarrow> time) \<Rightarrow> 'db order_store \<Rightarrow> order list" where
  "loadAllActiveOrders sq now st =
     (case os_db st of
        None \<Rightarrow> []
      | Some d \<Rightarrow> orders_of_rows now (select_active sq None d))"

subsection \<open>Trades\<close>

definition saveTrade :: "'db sqlite \<Rightarrow> time \<Rightarrow> TradeRecord \<Rightarrow> 'db order_store \<Rightarrow> bool \<times> 'db order_store" where
  "saveTrade sq now tr st =
     (case os_db st of
        None \<Rightarrow> (False, st)
      | Some d \<Rightarrow>
          let ts = (if tr_timestamp tr = [] then nowIso now else tr_timestamp tr);
              (ok, d1) = insert_trade sq
                \<lparr>w_buy_order_id = c_str (tr_buy_order_id tr), w_sell_order_id = c_str (tr_sell_order_id tr),
                 w_symbol = c_str (tr_symbol tr), w_price = tr_price tr, w_quantity = sint (tr_quantity tr),
                 w_traded_at = c_str ts\<rparr> d
          in (ok, st\<lparr>os_db := Some d1\<rparr>))"

definition loadRecentTrades :: "'db sqlite \<Rightarrow> string \<Rightarrow> int \<Rightarrow> 'db order_store \<Rightarrow> TradeRecord list" where
  "loadRecentTrades sq smb limit st =
     (case os_db st of
        None \<Rightarrow> []
      | Some d \<Rightarrow>
          map (\<lambda>w. \<lparr>tr_buy_order_id = w_buy_order_id w, tr_sell_order_id = w_sell_order_id w,
                     tr_symbol = w_symbol w, tr_price = w_price w, tr_quantity = word_of_int (w_quantity w),
                     tr_timestamp = w_traded_at w\<rparr>)
              (select_trades sq (c_str smb) limit d))"

subsection \<open>Users\<close>

definition saveUser ::
  "'db sqlite \<Rightarrow> (nat \<Rightarrow> nat) \<Rightarrow> UserRecord \<Rightarrow> 'db order_store \<Rightarrow> bool \<times> 'db order_store" where
  "saveUser sq draw user st =
     (case os_db st of
        None \<Rightarrow> (False, st)
      | Some d \<Rightarrow>
          let hashed = (if u_password user = [] then [] else hashPassword draw (u_password user));
              (ok, d1) = insert_user sq
                \<lparr>u_username = c_str (u_username user), u_password = c_str hashed,
                 u_permissions = c_str (u_permissions user)\<rparr> d
          in (ok, st\<lparr>os_db := Some d1\<rparr>))"

definition getUser :: "'db sqlite \<Rightarrow> string \<Rightarrow> 'db order_store \<Rightarrow> UserRecord option" where
  "getUser sq username st =
     (case os_db st of
        None \<Rightarrow> None
      | Some d \<Rightarrow> (case select_user sq (c_str username) d of [] \<Rightarrow> None | row # _ \<Rightarrow> Some row))"

definition authenticateUser :: "'db sqlite \<Rightarrow> string \<Rightarrow> string \<Rightarrow> 'db order_store \<Rightarrow> bool" where
  "authenticateUser sq username password st =
     (case getUser sq username st of
        None \<Rightarrow> False
      | Some user \<Rightarrow>
          if u_password user = [] then password = [] else verifyPassword password (u_password user))"

definition default_users :: "UserRecord list" where
  "default_users =
     [\<lparr>u_username = ''admin'', u_password = ''admin'', u_permissions = ''trade,view,admin''\<rparr>,
      \<lparr>u_username = ''trader'', u_password = ''trader'', u_permissions = ''trade,view''\<rparr>,
      \<lparr>u_username = ''viewer'', u_password = ''viewer'', u_permissions = ''view''\<rparr>,
      \<lparr>u_username = ''guest'', u_password = [], u_permissions = ''trade,view''\<rparr>]"

fun save_users ::
  "'db sqlite \<Rightarrow> (nat \<Rightarrow> nat \<Rightarrow> nat) \<Rightarrow> nat \<Rightarrow> UserRecord list \<Rightarrow> 'db order_store \<Rightarrow> 'db order_store" where
  "save_users sq draws k [] st = st"
| "save_users sq draws k (u # us) st = save_users sq draws (Suc k) us (snd (saveUser sq (draws k) u st))"

definition seedDefaultUsers ::
  "'db sqlite \<Rightarrow> (nat \<Rightarrow> nat \<Rightarrow> nat) \<Rightarrow> 'db order_store \<Rightarrow> 'db order_store" where
  "seedDefaultUsers sq draws st =
     (case os_db st of
        None \<Rightarrow> st
      | Some d \<Rightarrow>
          (case count_users sq d of
             None \<Rightarrow> st
           | Some rows \<Rightarrow>
               let count = (case rows of [] \<Rightarrow> 0 | n # _ \<Rightarrow> n)
               in if count = 0 then save_users sq draws 0 default_users st else st))"

end
