(* ===== verification/Uuid.thy ===== *)
theory Uuid
  imports Password_Hash
begin

text \<open>
  \<^verbatim>\<open>generateUuid\<close> (\<^verbatim>\<open>common/src/uuid.cpp\<close>). The random draws are parameters: \<open>dis i\<close> is the \<open>i\<close>-th value of
  \<^verbatim>\<open>uniform_int_distribution<>(0, 15)\<close> in a call, \<open>dis2\<close> the value of \<^verbatim>\<open>uniform_int_distribution<>(8, 11)\<close>.
  A value below 16 prints as one digit under \<^verbatim>\<open>std::hex\<close>.
\<close>

definition hex_run :: "(nat \<Rightarrow> nat) \<Rightarrow> nat \<Rightarrow> nat \<Rightarrow> string" where
  "hex_run dis from n = map (\<lambda>i. hex_digit (dis i)) [from..<from + n]"

definition generateUuid :: "(nat \<Rightarrow> nat) \<Rightarrow> nat \<Rightarrow> string" where
  "generateUuid dis dis2 =
     hex_run dis 0 8 @ ''-'' @ hex_run dis 8 4 @ ''-4'' @ hex_run dis 12 3 @ ''-'' @
     [hex_digit dis2] @ hex_run dis 15 3 @ ''-'' @ hex_run dis 18 12"

lemma length_hex_run [simp]: "length (hex_run dis from n) = n"
  by (simp add: hex_run_def)

lemma hex_run_hex:
  assumes "\<And>i. dis i < 16"
  shows "set (hex_run dis from n) \<subseteq> set ''0123456789abcdef''"
proof -
  have "hex_digit (dis i) \<in> set ''0123456789abcdef''" for i by (rule hex_digit_hex) (rule assms)
  then show ?thesis unfolding hex_run_def set_map by blast
qed

lemma hex_digit_inj: "a < 16 \<Longrightarrow> b < 16 \<Longrightarrow> hex_digit a = hex_digit b \<longleftrightarrow> a = b"
  unfolding hex_digit_def by (rule nth_eq_iff_index_eq) simp_all

lemma hex_run_eq:
  assumes "\<And>i. d i < 16" and "\<And>i. e i < 16"
  shows "hex_run d from n = hex_run e from n \<longleftrightarrow> (\<forall>i. from \<le> i \<and> i < from + n \<longrightarrow> d i = e i)"
  unfolding hex_run_def map_eq_conv using hex_digit_inj [OF assms] by auto

text \<open>
  C38. The text of a generated identifier: 36 characters, in the groups 8-4-4-4-12 of lower-case
  hexadecimal digits, with version 4 and the variant digit 8, 9, a or b. The hypotheses are the ranges
  of the two distributions.
\<close>

theorem generateUuid_format:
  assumes "\<And>i. dis i < 16" and "8 \<le> dis2" and "dis2 \<le> 11"
  shows "\<exists>a b c d e v. generateUuid dis dis2 = a @ ''-'' @ b @ ''-4'' @ c @ ''-'' @ [v] @ d @ ''-'' @ e \<and>
           length a = 8 \<and> length b = 4 \<and> length c = 3 \<and> length d = 3 \<and> length e = 12 \<and>
           set (a @ b @ c @ d @ e) \<subseteq> set ''0123456789abcdef'' \<and> v \<in> set ''89ab'' \<and>
           length (generateUuid dis dis2) = 36"
proof (intro exI conjI)
  show "generateUuid dis dis2 = hex_run dis 0 8 @ ''-'' @ hex_run dis 8 4 @ ''-4'' @ hex_run dis 12 3 @ ''-'' @
     [hex_digit dis2] @ hex_run dis 15 3 @ ''-'' @ hex_run dis 18 12" by (rule generateUuid_def)
  show "set (hex_run dis 0 8 @ hex_run dis 8 4 @ hex_run dis 12 3 @ hex_run dis 15 3 @ hex_run dis 18 12)
      \<subseteq> set ''0123456789abcdef''"
    unfolding set_append by (intro Un_least hex_run_hex assms(1))
  have "dis2 = 8 \<or> dis2 = 9 \<or> dis2 = 10 \<or> dis2 = 11" using assms(2,3) by linarith
  then show "hex_digit dis2 \<in> set ''89ab''" by (auto simp: hex_digit_def)
qed (simp_all add: generateUuid_def)

theorem generateUuid_format_witness:
  "length (generateUuid (\<lambda>i. i mod 16) 9) = 36"
  using generateUuid_format [of "\<lambda>i. i mod 16" 9] by auto

text \<open>
  Identifiers collide only when all thirty-one draws behind them do: the text determines every
  draw, so no randomness is lost in the formatting.
\<close>

theorem generateUuid_inj:
  assumes "\<And>i. d i < 16" and "\<And>i. e i < 16" and "v < 16" and "w < 16"
  shows "generateUuid d v = generateUuid e w \<longleftrightarrow> v = w \<and> map d [0..<30] = map e [0..<30]"
proof -
  have "generateUuid d v = generateUuid e w \<longleftrightarrow>
      v = w \<and> hex_run d 0 8 = hex_run e 0 8 \<and> hex_run d 8 4 = hex_run e 8 4 \<and>
      hex_run d 12 3 = hex_run e 12 3 \<and> hex_run d 15 3 = hex_run e 15 3 \<and> hex_run d 18 12 = hex_run e 18 12"
    unfolding generateUuid_def using hex_digit_inj [OF assms(3,4)] by auto
  also have "\<dots> \<longleftrightarrow> v = w \<and> (\<forall>i. i < 30 \<longrightarrow> d i = e i)"
  proof -
    have "(i < 30) = (0 \<le> i \<and> i < 0 + 8 \<or> 8 \<le> i \<and> i < 8 + 4 \<or> 12 \<le> i \<and> i < 12 + 3 \<or>
        15 \<le> i \<and> i < 15 + 3 \<or> 18 \<le> i \<and> i < 18 + (12::nat))" for i by linarith
    then show ?thesis unfolding hex_run_eq [OF assms(1,2)] by blast
  qed
  also have "\<dots> \<longleftrightarrow> v = w \<and> map d [0..<30] = map e [0..<30]" unfolding map_eq_conv by auto
  finally show ?thesis .
qed

theorem generateUuid_inj_witness:
  "generateUuid (\<lambda>i. 1) 8 \<noteq> generateUuid (\<lambda>i. if i = 29 then 2 else 1) 8"
proof -
  have "map (\<lambda>i::nat. 1::nat) [0..<30] ! 29 \<noteq> map (\<lambda>i. if i = 29 then 2 else 1) [0..<30] ! 29" by simp
  then show ?thesis using generateUuid_inj [of "\<lambda>i. 1" "\<lambda>i. if i = 29 then 2 else 1" 8 8] by auto
qed

end
