(* ===== verification/Order_Generator.thy ===== *)
theory Order_Generator
  imports OrderBook Uuid
begin

text \<open>
  The class \<^verbatim>\<open>OrderGenerator\<close> (\<^verbatim>\<open>server/include/order_generator.h\<close>, \<^verbatim>\<open>server/src/order_generator.cpp\<close>): random orders
  around the last traded price and random cancellations of recent ones. The random values of one turn of the
  loop are the record \<open>gen_draws\<close>; \<open>d_exp\<close> is \<^verbatim>\<open>std::exp\<close>. The two callbacks are arguments, functions on
  the state of whoever registered them; \<open>None\<close> is an empty \<^verbatim>\<open>std::function\<close>. The thread and its sleeping are
  not modelled: a run is a sequence of turns.
\<close>

record gen_config =
  c_symbol :: string
  c_price_range :: double
  c_tick_size :: double
  c_min_quantity :: u32
  c_max_quantity :: u32
  c_min_interval_ms :: u32
  c_max_interval_ms :: u32
  c_buy_probability :: double
  c_cancel_probability :: double
  c_spread_factor :: double
  c_max_tracked_orders :: u32

definition default_config :: gen_config where
  "default_config =
     \<lparr>c_symbol = ''AAPL'', c_price_range = fl (1 / 100), c_tick_size = fl (1 / 100), c_min_quantity = 10,
      c_max_quantity = 1000, c_min_interval_ms = 10, c_max_interval_ms = 1000, c_buy_probability = 1 / 2,
      c_cancel_probability = 0, c_spread_factor = 0, c_max_tracked_orders = 500\<rparr>"

record generator =
  g_config :: gen_config
  g_quantity_dist :: "int \<times> int"
  g_interval_dist :: "int \<times> int"
  g_running :: bool
  g_last_price :: double
  g_tracked_order_ids :: "string list"
  g_order_count :: "64 word"
  g_cancel_count :: "64 word"

record gen_draws =
  d_normal :: "double \<Rightarrow> double \<Rightarrow> double"
  d_quantity :: "int \<times> int \<Rightarrow> int"
  d_side :: double
  d_exp :: "double \<Rightarrow> double"
  d_dis :: "nat \<Rightarrow> nat"
  d_dis2 :: nat
  d_now :: time
  d_cancel :: double
  d_index :: "nat \<Rightarrow> nat"

definition new_generator :: "gen_config \<Rightarrow> generator" where
  "new_generator cfg =
     \<lparr>g_config = cfg, g_quantity_dist = (sint (c_min_quantity cfg), sint (c_max_quantity cfg)),
      g_interval_dist = (sint (c_min_interval_ms cfg), sint (c_max_interval_ms cfg)),
      g_running = False, g_last_price = 100, g_tracked_order_ids = [], g_order_count = 0, g_cancel_count = 0\<rparr>"

definition start_generator :: "generator \<Rightarrow> generator" where
  "start_generator g = (if g_running g then g else g\<lparr>g_running := True\<rparr>)"

definition stop_generator :: "generator \<Rightarrow> generator" where
  "stop_generator g = (if \<not> g_running g then g else g\<lparr>g_running := False\<rparr>)"

definition setConfig :: "gen_config \<Rightarrow> generator \<Rightarrow> generator" where
  "setConfig cfg g =
     g\<lparr>g_config := cfg, g_quantity_dist := (sint (c_min_quantity cfg), sint (c_max_quantity cfg)),
       g_interval_dist := (sint (c_min_interval_ms cfg), sint (c_max_interval_ms cfg))\<rparr>"

definition updateLastPrice :: "double \<Rightarrow> generator \<Rightarrow> generator" where
  "updateLastPrice price g = g\<lparr>g_last_price := price\<rparr>"

text \<open>
  \<open>None\<close> stands for an argument of \<^verbatim>\<open>std::llround\<close> outside the range of \<^verbatim>\<open>long long\<close>, for which its result is
  unspecified.
\<close>

definition generateOrder :: "gen_draws \<Rightarrow> generator \<Rightarrow> order option" where
  "generateOrder d g =
     (let cfg = g_config g;
          current_price = g_last_price g;
          stddev = fl (fl (current_price * c_price_range cfg) / 3);
          drawn = d_normal d current_price stddev;
          order_price = (if drawn \<le> 0 then c_tick_size cfg else drawn)
      in case llround (fl (order_price / c_tick_size cfg)) of
           None \<Rightarrow> None
         | Some ticks \<Rightarrow>
             let product = fl (fl (of_int ticks) * c_tick_size cfg);
                 rounded_price = (if product \<le> 0 then c_tick_size cfg else product);
                 quantity = (word_of_int (d_quantity d (g_quantity_dist g)) :: u32);
                 side =
                   (if c_spread_factor cfg > 0 then
                      let x = fl (fl (current_price - rounded_price) / fl (current_price * c_spread_factor cfg));
                          buy_prob = fl (1 / fl (1 + d_exp d (- x)))
                      in if d_side d < buy_prob then BUY else SELL
                    else if d_side d < c_buy_probability cfg then BUY else SELL)
             in Some (new_order (d_now d) (generateUuid (d_dis d) (d_dis2 d)) side rounded_price quantity
                        (c_symbol cfg) ''AUTO_GEN'' LIMIT 0))"

text \<open>The bounded deque of order ids: the loop drops the oldest while there are too many.\<close>

fun trim_tracked :: "nat \<Rightarrow> string list \<Rightarrow> string list" where
  "trim_tracked n [] = []"
| "trim_tracked n (i # is) = (if length (i # is) > n then trim_tracked n is else i # is)"

definition track_order :: "string \<Rightarrow> generator \<Rightarrow> generator" where
  "track_order i g =
     g\<lparr>g_tracked_order_ids :=
         trim_tracked (unat (c_max_tracked_orders (g_config g))) (g_tracked_order_ids g @ [i])\<rparr>"

definition tryCancel ::
  "gen_draws \<Rightarrow> (string \<Rightarrow> 's \<Rightarrow> bool \<times> 's) option \<Rightarrow> generator \<times> 's \<Rightarrow> generator \<times> 's" where
  "tryCancel d cancel_cb gs =
     (case gs of (g, s) \<Rightarrow>
        case cancel_cb of
          None \<Rightarrow> (g, s)
        | Some callback \<Rightarrow>
            if c_cancel_probability (g_config g) \<le> 0 then (g, s)
            else if d_cancel d \<ge> c_cancel_probability (g_config g) then (g, s)
            else if g_tracked_order_ids g = [] then (g, s)
            else
              let ids = g_tracked_order_ids g;
                  idx = d_index d (length ids - 1);
                  order_id_to_cancel = ids ! idx;
                  g1 = g\<lparr>g_tracked_order_ids := take idx ids @ drop (Suc idx) ids\<rparr>;
                  (cancelled, s1) = callback order_id_to_cancel s
              in (if cancelled then g1\<lparr>g_cancel_count := g_cancel_count g1 + 1\<rparr> else g1, s1))"

text \<open>One turn of \<^verbatim>\<open>generatorLoop\<close>.\<close>

definition generator_turn ::
  "gen_draws \<Rightarrow> (order \<Rightarrow> 's \<Rightarrow> 's) option \<Rightarrow> (string \<Rightarrow> 's \<Rightarrow> bool \<times> 's) option \<Rightarrow>
   generator \<times> 's \<Rightarrow> (generator \<times> 's) option" where
  "generator_turn d order_cb cancel_cb gs =
     (case gs of (g, s) \<Rightarrow>
        case generateOrder d g of
          None \<Rightarrow> None
        | Some ord \<Rightarrow>
            let g1 = track_order (o_id ord) g;
                (g2, s2) = (case order_cb of
                              None \<Rightarrow> (g1, s)
                            | Some callback \<Rightarrow> (g1\<lparr>g_order_count := g_order_count g1 + 1\<rparr>, callback ord s))
            in Some (tryCancel d cancel_cb (g2, s2)))"

lemma trim_tracked_drop: "trim_tracked n is = drop (length is - n) is"
  by (induction "is") (auto simp: Suc_diff_le)

lemma sint_quantity_bounds:
  fixes lo hi :: u32
  assumes "sint lo \<le> v" and "v \<le> sint hi" and "0 \<le> sint lo"
  shows "lo \<le> word_of_int v" and "word_of_int v \<le> hi"
proof -
  have "sint hi < 2 ^ 31" using sint_lt[of hi] by simp
  then have "0 \<le> v" "v < 2 ^ 32" using assms by simp_all
  then have v: "uint (word_of_int v :: u32) = v" by (simp add: uint_word_of_int)
  have u: "uint w = sint w" if "0 \<le> sint w" for w :: u32
  proof -
    have w: "word_of_int (sint w) = w" by simp
    have "sint w < 2 ^ 31" using sint_lt[of w] by simp
    then have "sint w mod 2 ^ 32 = sint w" using that by (intro mod_pos_pos_trivial) simp_all
    then have "uint (word_of_int (sint w) :: u32) = sint w" unfolding uint_word_of_int by simp
    then show ?thesis unfolding w .
  qed
  show "lo \<le> word_of_int v" unfolding word_le_def v using u[of lo] assms by simp
  show "word_of_int v \<le> hi" unfolding word_le_def v using u[of hi] assms by simp
qed

text \<open>What the callbacks keep, a turn keeps.\<close>

lemma generateOrder_new:
  assumes "generateOrder d g = Some ord"
  shows "\<exists>now i sd pr qty smb cid ty sp. ord = new_order now i sd pr qty smb cid ty sp"
  using assms unfolding generateOrder_def Let_def by (simp split: option.splits) blast

lemma generator_turn_keeps:
  assumes "generator_turn d (Some f) (Some c) (g, s) = Some (g', s')" and "I s"
    and "\<And>ord s. generateOrder d g = Some ord \<Longrightarrow> I s \<Longrightarrow> I (f ord s)" and "\<And>i s. I s \<Longrightarrow> I (snd (c i s))"
  shows "I s'"
proof -
  have t: "I (snd (tryCancel d (Some c) (g2, s2)))" if "I s2" for g2 s2
    using that assms(4)[OF that] by (auto simp: tryCancel_def Let_def case_prod_beta)
  from assms(1) obtain ord g2 where ord: "generateOrder d g = Some ord"
    and "tryCancel d (Some c) (g2, f ord s) = (g', s')"
    by (auto simp: generator_turn_def Let_def split: option.splits)
  with t[OF assms(3)[OF ord assms(2)], of g2] show ?thesis by simp
qed

subsection \<open>Properties\<close>

text \<open>
  C39. Every generated order is a pending limit order for the configured symbol, at a positive price
  that is a rounded multiple of the tick size or the tick size itself, for a quantity within the
  configured range. The hypotheses are the ranges of the distribution and of the configuration.
\<close>

theorem generateOrder_sane:
  assumes "generateOrder d g = Some ord" and "0 < c_tick_size (g_config g)"
    and "g_quantity_dist g = (sint lo, sint hi)" and "0 \<le> sint lo"
    and "sint lo \<le> d_quantity d (sint lo, sint hi)" and "d_quantity d (sint lo, sint hi) \<le> sint hi"
  shows "0 < o_price ord \<and>
    (o_price ord = c_tick_size (g_config g) \<or>
     (\<exists>ticks. o_price ord = fl (fl (of_int ticks) * c_tick_size (g_config g)))) \<and>
    lo \<le> o_quantity ord \<and> o_quantity ord \<le> hi \<and> o_remaining ord = o_quantity ord \<and>
    o_symbol ord = c_symbol (g_config g) \<and> o_client_id ord = ''AUTO_GEN'' \<and> o_type ord = LIMIT \<and> o_status ord = PENDING"
proof -
  define tick where "tick = c_tick_size (g_config g)"
  obtain ticks side where "ord = new_order (d_now d) (generateUuid (d_dis d) (d_dis2 d)) side
      (if fl (fl (of_int ticks) * tick) \<le> 0 then tick else fl (fl (of_int ticks) * tick))
      (word_of_int (d_quantity d (g_quantity_dist g))) (c_symbol (g_config g)) ''AUTO_GEN'' LIMIT 0"
    using assms(1) unfolding generateOrder_def Let_def tick_def by (simp split: option.splits) blast
  then show ?thesis
    using assms(2,3) sint_quantity_bounds[OF assms(5,6,4)]
    unfolding tick_def[symmetric] by (auto simp: new_order_def)
qed

definition sample_draws :: gen_draws where
  "sample_draws = \<lparr>d_normal = (\<lambda>mean dev. mean), d_quantity = fst, d_side = 0, d_exp = (\<lambda>x. 1),
     d_dis = (\<lambda>i. 0), d_dis2 = 8, d_now = 0, d_cancel = 1, d_index = (\<lambda>n. 0)\<rparr>"

definition sample_generator :: generator where
  "sample_generator = new_generator (default_config\<lparr>c_tick_size := 1\<rparr>)"

theorem generateOrder_sane_witness:
  "\<exists>ord. generateOrder sample_draws sample_generator = Some ord \<and> o_price ord = 100 \<and> 0 < o_price ord \<and>
     10 \<le> o_quantity ord \<and> o_quantity ord \<le> 1000"
proof -
  have q: "d_quantity sample_draws (sint (10 :: u32), sint (1000 :: u32)) = 10"
    "g_quantity_dist sample_generator = (sint (10 :: u32), sint (1000 :: u32))"
    by (simp_all add: sample_draws_def sample_generator_def new_generator_def default_config_def)
  have "map_option o_price (generateOrder sample_draws sample_generator) = Some 100" by code_simp
  then obtain ord where "generateOrder sample_draws sample_generator = Some ord" "o_price ord = 100" by auto
  then show ?thesis
    using generateOrder_sane[of sample_draws sample_generator ord "10 :: u32" 1000] q
    by (auto simp: sample_generator_def new_generator_def)
qed

text \<open>
  C40. The ids kept for cancellation never exceed the configured number after a turn of the loop:
  they are the newest of the old ones and the new order's, less the one that was
  chosen for cancellation.
\<close>

theorem generator_turn_tracked:
  assumes "generator_turn d order_cb cancel_cb (g, s) = Some (g', s')"
  shows "\<exists>ord. generateOrder d g = Some ord \<and>
    (let kept = g_tracked_order_ids g @ [o_id ord];
         newest = drop (length kept - unat (c_max_tracked_orders (g_config g))) kept
     in length newest \<le> unat (c_max_tracked_orders (g_config g)) \<and>
        (g_tracked_order_ids g' = newest \<or>
         (\<exists>k. g_tracked_order_ids g' = take k newest @ drop (Suc k) newest)))"
proof -
  obtain ord where ord: "generateOrder d g = Some ord"
    using assms by (auto simp: generator_turn_def split: option.splits)
  define newest where "newest = drop (length (g_tracked_order_ids g @ [o_id ord]) -
    unat (c_max_tracked_orders (g_config g))) (g_tracked_order_ids g @ [o_id ord])"
  have t: "g_tracked_order_ids (track_order (o_id ord) g) = newest"
    unfolding track_order_def trim_tracked_drop newest_def by simp
  have c: "g_tracked_order_ids (fst (tryCancel d cancel_cb (g2, s2))) = g_tracked_order_ids g2 \<or>
      (\<exists>k. g_tracked_order_ids (fst (tryCancel d cancel_cb (g2, s2))) =
         take k (g_tracked_order_ids g2) @ drop (Suc k) (g_tracked_order_ids g2))" for g2 s2
    by (auto simp: tryCancel_def Let_def split: option.splits prod.splits)
  obtain g2 s2 where "g_tracked_order_ids g2 = newest" "tryCancel d cancel_cb (g2, s2) = (g', s')"
  proof (cases order_cb)
    case None
    then show thesis using assms ord t by (intro that[of "track_order (o_id ord) g" s]) (simp_all add: generator_turn_def Let_def)
  next
    case (Some f)
    let ?g = "track_order (o_id ord) g"
    show thesis using assms ord t Some
      by (intro that[of "?g\<lparr>g_order_count := g_order_count ?g + 1\<rparr>" "f ord s"]) (simp_all add: generator_turn_def Let_def)
  qed
  moreover have "length newest \<le> unat (c_max_tracked_orders (g_config g))" by (simp add: newest_def)
  ultimately have "length newest \<le> unat (c_max_tracked_orders (g_config g)) \<and> (g_tracked_order_ids g' = newest \<or>
      (\<exists>k. g_tracked_order_ids g' = take k newest @ drop (Suc k) newest))" using c[of g2 s2] by simp
  with ord show ?thesis unfolding Let_def newest_def by blast
qed

theorem generator_turn_tracked_witness:
  "\<exists>g'. generator_turn sample_draws None (None :: (string \<Rightarrow> unit \<Rightarrow> bool \<times> unit) option) (sample_generator, ()) =
     Some (g', ()) \<and> length (g_tracked_order_ids g') = 1"
proof -
  obtain g' where g': "generator_turn sample_draws None (None :: (string \<Rightarrow> unit \<Rightarrow> bool \<times> unit) option)
      (sample_generator, ()) = Some (g', ())"
  proof -
    have "generateOrder sample_draws sample_generator \<noteq> None" by code_simp
    then show thesis using that by (auto simp: generator_turn_def tryCancel_def)
  qed
  moreover have "g_tracked_order_ids sample_generator = []" "unat (c_max_tracked_orders (g_config sample_generator)) = 500"
    by (simp_all add: sample_generator_def new_generator_def default_config_def)
  moreover have "generateOrder sample_draws sample_generator \<noteq> None" by code_simp
  ultimately have "length (g_tracked_order_ids g') = 1"
    by (auto simp: generator_turn_def tryCancel_def track_order_def trim_tracked_drop)
  then show ?thesis using generator_turn_tracked[OF g'] g' by blast
qed

end
