(* ===== verification/Service.thy ===== *)
theory Service
  imports Order_Life "HOL-Library.List_Lexorder" "HOL-Library.Char_ord"
begin

text \<open>
  The interface between the server and its order books. The locale \<open>matching_service\<close> has the two operations
  that change a book, submission of an order object at a fresh address and cancellation by id, and
  the laws the server relies on: submission returns, both keep a book good for its key, and
  a book refers only to addresses given out before. What follows for a map of books, the server's
  \<^verbatim>\<open>orderbooks_\<close>, is proved once inside; the interpretation is on \<^verbatim>\<open>OrderBook\<close>.
\<close>

locale matching_service =
  fixes good :: "'k :: linorder \<Rightarrow> 'b \<Rightarrow> bool"
    and below :: "nat \<Rightarrow> 'b \<Rightarrow> bool"
    and okay :: "'o \<Rightarrow> bool"
    and add :: "'t \<Rightarrow> nat \<Rightarrow> 'o \<Rightarrow> 'b \<Rightarrow> (bool \<times> 'e list \<times> 'b) option"
    and cancel :: "'i \<Rightarrow> 'b \<Rightarrow> bool \<times> 'e list \<times> 'b"
  assumes add_returns: "good k b \<Longrightarrow> below n b \<Longrightarrow> okay x \<Longrightarrow>
      \<exists>r evs b'. add t n x b = Some (r, evs, b') \<and> good k b' \<and> below (Suc n) b'"
    and cancel_good: "good k b \<Longrightarrow> good k (snd (snd (cancel i b)))"
    and cancel_below: "good k b \<Longrightarrow> below n b \<Longrightarrow> below n (snd (snd (cancel i b)))"
    and below_mono: "below n b \<Longrightarrow> n \<le> m \<Longrightarrow> below m b"
begin

definition served :: "nat \<Rightarrow> ('k, 'b) std_map \<Rightarrow> bool" where
  "served n m \<longleftrightarrow> map_inv m \<and> (\<forall>(k, b) \<in> set m. good k b \<and> below n b)"

lemma served_empty: "served n []"
  by (simp add: served_def)

lemma served_inv: "served n m \<Longrightarrow> map_inv m"
  by (simp add: served_def)

lemma served_entry: "served n m \<Longrightarrow> (k, b) \<in> set m \<Longrightarrow> good k b \<and> below n b"
  by (auto simp: served_def)

lemma served_find: "served n m \<Longrightarrow> map_find m k = Some b \<Longrightarrow> good k b \<and> below n b"
  by (erule served_entry) (erule map_find_in)

lemma served_mono: "served n m \<Longrightarrow> n \<le> n' \<Longrightarrow> served n' m"
  by (auto simp: served_def intro: below_mono)

lemma served_put:
  assumes "served n m" and "good k b" and "below n b"
  shows "served n (map_put k b m)"
  using assms map_inv_put[of m k b] set_map_put[of k b m] by (auto simp: served_def)

lemma served_Cons: "served n ((k, b) # m) \<Longrightarrow> served n m"
  by (simp add: served_def map_inv_Cons)

lemma served_head:
  assumes "served n ((k, b) # m)" and "good k b'" and "below n b'"
  shows "served n ((k, b') # m)"
  using assms by (auto simp: served_def map_inv_Cons)

text \<open>Submitting to one of the books and cancelling in one of them.\<close>

lemma served_add:
  assumes "served n m" and "map_find m k = Some b" and "okay x"
  shows "\<exists>r evs b'. add t n x b = Some (r, evs, b') \<and> served (Suc n) (map_put k b' m)"
proof -
  from served_find[OF assms(1,2)] have "good k b" "below n b" by blast+
  from add_returns[OF this assms(3)] obtain r evs b' where
    b': "add t n x b = Some (r, evs, b')" "good k b'" "below (Suc n) b'" by blast
  with served_put[OF served_mono[OF assms(1)], of "Suc n" k b'] show ?thesis by auto
qed

lemma served_cancel:
  assumes "served n m" and "map_find m k = Some b"
  shows "served n (map_put k (snd (snd (cancel i b))) m)"
  using served_find[OF assms] cancel_good cancel_below by (intro served_put assms) blast+

end

subsection \<open>The order book provides it\<close>

definition book_below :: "nat \<Rightarrow> book \<Rightarrow> bool" where
  "book_below n b \<longleftrightarrow> (\<forall>p \<in> ran (orders_by_id b). p < n)"

definition served_book :: "string \<Rightarrow> book \<Rightarrow> bool" where
  "served_book smb b \<longleftrightarrow> reachable_book b \<and> symbol b = smb \<and> order_callback b \<and> trade_callback b"

definition submit_at :: "(nat \<Rightarrow> time) \<Rightarrow> nat \<Rightarrow> order \<Rightarrow> book \<Rightarrow> (bool \<times> event list \<times> book) option" where
  "submit_at now p ord b = addOrder now (Some p) (set_order p ord b)"

lemma below_not_ran: "book_below n b \<Longrightarrow> n \<notin> ran (orders_by_id b)"
  by (auto simp: book_below_def)

lemma ran_enter: "ran (orders_by_id (enter p b)) \<subseteq> insert p (ran (orders_by_id b))"
  by (auto simp: enter_def ran_def split: if_splits)

lemma submit_at_returns:
  assumes "served_book smb b" and "book_below p b" and "submittable ord"
  shows "\<exists>ok evs b'. submit_at now p ord b = Some (ok, evs, b') \<and> served_book smb b' \<and> book_below (Suc p) b'"
proof -
  let ?c = "set_order p ord b"
  have new: "p \<notin> ran (orders_by_id b)" using assms(2) by (rule below_not_ran)
  have b: "reachable_book b" "symbol b = smb" "order_callback b" "trade_callback b" "book_inv b"
    using assms(1) reachable_inv by (auto simp: served_book_def)
  have c: "book_inv ?c" using b(5) new by (rule alloc_inv)
  have step: "reachable_book b'" if "addOrder now (Some p) ?c = Some (ok, evs, b')" for ok evs b'
    using reachable_book.step[OF b(1) book_step.submit[OF new assms(3) that]] .
  have le: "p < q \<Longrightarrow> False" if "q \<in> ran (orders_by_id b)" for q using that assms(2) by (auto simp: book_below_def)
  show ?thesis
  proof (cases "o_remaining ord = 0")
    case True
    then have run: "addOrder now (Some p) ?c = Some (False, [], ?c)" by (simp add: addOrder_def)
    from step[OF this] b assms(2) show ?thesis
      unfolding submit_at_def run by (fastforce simp: served_book_def book_below_def)
  next
    case False
    then have ord: "active (heap ?c p)" "wf_order (heap ?c p)" using assms(3) by (simp_all add: submittable_def)
    show ?thesis
    proof (rule addOrder_run[OF c ord, of now])
      fix b' assume "\<not> acceptable p ?c" and run: "addOrder now (Some p) ?c = Some (False, [], b')"
      then have "b' = ?c\<lparr>pending_trades := [], pending_order_updates := []\<rparr> \<or> b' = ?c"
        using False by (auto simp: addOrder_def acceptable_def split: option.splits)
      then have "symbol b' = smb" "order_callback b'" "trade_callback b'" "orders_by_id b' = orders_by_id b"
        using b by auto
      with step[OF run] run assms(2) show ?thesis
        unfolding submit_at_def by (fastforce simp: served_book_def book_below_def)
    next
      fix b' assume ent: "entered p (enter p ?c)" and pn: "process_new now p (enter p ?c) = Some b'"
        and run: "addOrder now (Some p) ?c = Some (True, callbacks p b', b')"
      have "same_settings ?c b'" using accepted_recorded(4)[OF ent pn] .
      then have "symbol b' = smb" "order_callback b'" "trade_callback b'"
        using b by (simp_all add: same_settings_def)
      moreover have "orders_by_id b' \<subseteq>\<^sub>m orders_by_id (enter p ?c)"
        using ledger.R_new[OF pn ent] by (simp add: ledger_def)
      then have "ran (orders_by_id b') \<subseteq> ran (orders_by_id (enter p ?c))"
        using map_leD by (fastforce simp: ran_def)
      then have "ran (orders_by_id b') \<subseteq> insert p (ran (orders_by_id b))" using ran_enter[of p ?c] by auto
      then have "book_below (Suc p) b'" using assms(2) by (fastforce simp: book_below_def)
      ultimately show ?thesis using step[OF run] run unfolding submit_at_def by (auto simp: served_book_def)
    qed
  qed
qed

lemma cancelOrder_settings:
  assumes "book_inv b"
  shows "symbol (snd (snd (cancelOrder i b))) = symbol b"
    "order_callback (snd (snd (cancelOrder i b))) = order_callback b"
    "trade_callback (snd (snd (cancelOrder i b))) = trade_callback b"
    "ran (orders_by_id (snd (snd (cancelOrder i b)))) \<subseteq> ran (orders_by_id b)"
proof -
  have "snd (snd (cancelOrder i b)) = b \<or> (\<exists>p. snd (snd (cancelOrder i b)) = withdraw p b)"
    using cancelOrder_known[OF assms, of i] by (cases "orders_by_id b i") (auto simp: cancelOrder_def)
  then show "symbol (snd (snd (cancelOrder i b))) = symbol b"
    "order_callback (snd (snd (cancelOrder i b))) = order_callback b"
    "trade_callback (snd (snd (cancelOrder i b))) = trade_callback b"
    "ran (orders_by_id (snd (snd (cancelOrder i b)))) \<subseteq> ran (orders_by_id b)"
    by (auto simp: withdraw_def ran_def split: if_splits)
qed

lemma reachable_cancel: "reachable_book b \<Longrightarrow> reachable_book (snd (snd (cancelOrder i b)))"
  by (erule reachable_book.step) (rule book_step.cancel[of i], simp add: prod_eq_iff)

lemma cancelOrder_served: "served_book smb b \<Longrightarrow> served_book smb (snd (snd (cancelOrder i b)))"
  unfolding served_book_def using cancelOrder_settings[OF reachable_inv, of b i] reachable_cancel[of b i] by auto

lemma cancelOrder_below: "served_book smb b \<Longrightarrow> book_below n b \<Longrightarrow> book_below n (snd (snd (cancelOrder i b)))"
  unfolding served_book_def book_below_def using cancelOrder_settings(4)[OF reachable_inv, of b i] by blast

interpretation svc: matching_service served_book book_below submittable submit_at cancelOrder
  by unfold_locales
    (simp_all add: submit_at_returns cancelOrder_served cancelOrder_below,
      auto simp: book_below_def intro: less_le_trans)

end
