(* ===== verification/Server.thy ===== *)
theory Server
  imports Session Order_Store Order_Generator Service
begin

text \<open>
  The class \<^verbatim>\<open>Server\<close> (\<^verbatim>\<open>server/include/server.h\<close>, \<^verbatim>\<open>server/src/server.cpp\<close>): the order books, the connections,
  the subscriptions, the owners of orders, and the handlers of the messages and of the callbacks of
  the books.

  Sessions are shared objects: \<open>session_heap\<close> maps the addresses of \<^verbatim>\<open>SessionPtr\<close>s to session objects, and
  \<^verbatim>\<open>sessions_\<close> maps client ids to addresses. An order object is allocated at the address \<open>next_order\<close> of the
  book it is submitted to. Orders that the generator posts to the \<^verbatim>\<open>io_context\<close> wait in \<open>posted\<close>.
  Handlers run one at a time on the thread of the \<^verbatim>\<open>io_context\<close>, so each is one step. The result \<open>None\<close> is a handler
  that never returns.

  What a run of a handler takes from outside is the record \<open>world\<close>: the serialisation environment, SQLite,
  the successive readings of the clock (\<open>w_clock\<close>, and \<open>w_iso\<close> for the ones \<^verbatim>\<open>nowIso\<close> makes), the random
  draws, the readings of the clock for the \<open>k\<close>-th restored order, and \<open>w_unspecified\<close>, the price a rounding outside the range of \<^verbatim>\<open>long long\<close> leaves.
\<close>

record 'db world =
  w_env :: env
  w_sql :: "'db sqlite"
  w_clock :: "nat \<Rightarrow> time"
  w_iso :: "nat \<Rightarrow> time"
  w_dis :: "nat \<Rightarrow> nat"
  w_dis2 :: nat
  w_salt :: "nat \<Rightarrow> nat \<Rightarrow> nat"
  w_restore_clock :: "nat \<Rightarrow> nat \<Rightarrow> time"
  w_restore_iso :: "nat \<Rightarrow> nat \<Rightarrow> time"
  w_unspecified :: double

record 'db server =
  auth_required :: bool
  acceptor_open :: bool
  orderbooks :: "(string, book) std_map"
  session_heap :: "nat \<Rightarrow> session"
  next_session :: nat
  sessions :: "string \<Rightarrow> nat option"
  subscriptions :: "(string, string set) std_map"
  order_owners :: "string \<Rightarrow> string option"
  snapshot_interval_ms :: int
  snapshot_timer :: bool
  order_generator :: "generator option"
  generator_symbol :: string
  posted :: "order list"
  trade_count :: "64 word"
  order_count :: "64 word"
  db_path :: string
  order_store :: "'db order_store option"
  next_order :: OrderPtr

definition blank_order :: order where
  "blank_order = new_order 0 [] BUY 0 0 [] [] LIMIT 0"

text \<open>
  The constructor. The acceptor opens, binds and listens on the port in its initialiser, which throws when
  the system refuses the port (it is taken, or reserved): \<open>binds\<close> says which ports it grants. \<open>new_server\<close> is the object
  as it is when the acceptor has its port.
\<close>

definition new_server :: "'db server" where
  "new_server =
     \<lparr>auth_required = False, acceptor_open = True, orderbooks = [], session_heap = (\<lambda>_. new_session False),
      next_session = 0, sessions = (\<lambda>_. None), subscriptions = [], order_owners = (\<lambda>_. None),
      snapshot_interval_ms = 1000, snapshot_timer = False, order_generator = None, generator_symbol = [],
      posted = [], trade_count = 0, order_count = 0, db_path = ''orderbook.db'', order_store = None,
      next_order = 0\<rparr>"

definition construct_server :: "(16 word \<Rightarrow> bool) \<Rightarrow> 16 word \<Rightarrow> 'db server option" where
  "construct_server binds port = (if binds port then Some new_server else None)"

abbreviation client_of :: "nat \<Rightarrow> 'db server \<Rightarrow> string" where
  "client_of p srv \<equiv> s_client_id (session_heap srv p)"

definition set_session :: "nat \<Rightarrow> session \<Rightarrow> 'db server \<Rightarrow> 'db server" where
  "set_session p s srv = srv\<lparr>session_heap := (session_heap srv)(p := s)\<rparr>"

definition send_to :: "'db world \<Rightarrow> nat \<Rightarrow> Message \<Rightarrow> 'db server \<Rightarrow> 'db server" where
  "send_to w p m srv = set_session p (sendMessage (w_env w) (Some m) (session_heap srv p)) srv"

definition error_message :: "string \<Rightarrow> string \<Rightarrow> Message" where
  "error_message code text = Error \<lparr>err_error_code = code, err_description = text\<rparr>"

definition uuid :: "'db world \<Rightarrow> string" where
  "uuid w = generateUuid (w_dis w) (w_dis2 w)"

subsection \<open>Settings and counters\<close>

definition setSnapshotInterval :: "int \<Rightarrow> 'db server \<Rightarrow> 'db server" where
  [simp]: "setSnapshotInterval interval srv = srv\<lparr>snapshot_interval_ms := interval\<rparr>"

definition setAuthRequired :: "bool \<Rightarrow> 'db server \<Rightarrow> 'db server" where
  [simp]: "setAuthRequired required srv = srv\<lparr>auth_required := required\<rparr>"

definition setDatabasePath :: "string \<Rightarrow> 'db server \<Rightarrow> 'db server" where
  [simp]: "setDatabasePath path srv = srv\<lparr>db_path := path\<rparr>"

definition getTradeCount :: "'db server \<Rightarrow> 64 word" where
  "getTradeCount srv = trade_count srv"

definition getOrderCount :: "'db server \<Rightarrow> 64 word" where
  "getOrderCount srv = order_count srv"

subsection \<open>Order books\<close>

definition getOrderbook :: "string \<Rightarrow> 'db server \<Rightarrow> book option" where
  "getOrderbook smb srv = map_find (orderbooks srv) smb"

definition createOrderbookTick :: "string \<Rightarrow> double \<Rightarrow> 'db server \<Rightarrow> bool \<times> 'db server" where
  "createOrderbookTick smb tick srv =
     (if map_find (orderbooks srv) smb \<noteq> None then (False, srv)
      else
        let orderbook = setTradeCallback (setOrderCallback (new_book smb tick (\<lambda>_. blank_order)))
        in (True, srv\<lparr>orderbooks := map_put smb orderbook (orderbooks srv)\<rparr>))"

definition createOrderbook :: "string \<Rightarrow> 'db server \<Rightarrow> bool \<times> 'db server" where
  "createOrderbook smb srv = createOrderbookTick smb (fl (1 / 10)) srv"

definition getOrderbookSymbols :: "'db server \<Rightarrow> string list" where
  "getOrderbookSymbols srv = map fst (orderbooks srv)"

definition setOrderbookTickSize :: "string \<Rightarrow> double \<Rightarrow> 'db server \<Rightarrow> bool \<times> 'db server" where
  "setOrderbookTickSize smb tick srv =
     (if tick \<le> 0 then (False, srv)
      else case map_find (orderbooks srv) smb of
             None \<Rightarrow> (False, srv)
           | Some b \<Rightarrow> (True, srv\<lparr>orderbooks := map_put smb (setTickSize tick b) (orderbooks srv)\<rparr>))"

subsection \<open>The callbacks of the books\<close>

definition status_message :: "order \<Rightarrow> Message" where
  "status_message ord = OrderStatusMsg
     \<lparr>st_order_id = o_id ord, st_client_id = o_client_id ord, st_symbol = o_symbol ord,
      st_side = o_side ord, st_order_type = o_type ord, st_price = o_price ord,
      st_stop_price = o_stop_price ord, st_quantity = o_quantity ord,
      st_filled_quantity = o_quantity ord - o_remaining ord, st_status = o_status ord,
      st_order_timestamp = o_timestamp ord\<rparr>"

definition onOrderUpdated :: "'db world \<Rightarrow> order \<Rightarrow> 'db server \<Rightarrow> 'db server" where
  "onOrderUpdated w ord srv =
     (let srv1 = srv\<lparr>order_store := map_option (\<lambda>st. snd (updateOrder (w_sql w) (Some ord) st)) (order_store srv)\<rparr>
      in case order_owners srv1 (o_id ord) of
           None \<Rightarrow> srv1
         | Some client_id \<Rightarrow>
             let srv2 = (if o_status ord = FILLED \<or> o_status ord = CANCELED
                         then srv1\<lparr>order_owners := (order_owners srv1)(o_id ord := None)\<rparr> else srv1)
             in if client_id = [] then srv2
                else case sessions srv2 client_id of
                       None \<Rightarrow> srv2
                     | Some p \<Rightarrow> send_to w p (status_message ord) srv2)"

definition trade_message :: "trade \<Rightarrow> Message" where
  "trade_message t = TradeNotification
     \<lparr>tn_buy_order_id = t_buy_order_id t, tn_sell_order_id = t_sell_order_id t, tn_symbol = t_symbol t,
      tn_price = t_price t, tn_quantity = t_quantity t, tn_trade_timestamp = t_timestamp t\<rparr>"

text \<open>The connected sessions subscribed to a symbol, in the order of the subscription map.\<close>

definition subscribers :: "string \<Rightarrow> 'db server \<Rightarrow> nat list" where
  "subscribers smb srv =
     List.map_filter (\<lambda>(client_id, syms). if smb \<in> syms then sessions srv client_id else None) (subscriptions srv)"

definition onTradeExecuted :: "'db world \<Rightarrow> time \<Rightarrow> trade \<Rightarrow> 'db server \<Rightarrow> 'db server" where
  "onTradeExecuted w now t srv =
     (let srv1 = srv\<lparr>trade_count := trade_count srv + 1\<rparr>;
          srv2 = srv1\<lparr>order_generator := map_option (updateLastPrice (t_price t)) (order_generator srv1)\<rparr>;
          tr = \<lparr>tr_buy_order_id = t_buy_order_id t, tr_sell_order_id = t_sell_order_id t, tr_symbol = t_symbol t,
                tr_price = t_price t, tr_quantity = t_quantity t, tr_timestamp = []\<rparr>;
          srv3 = srv2\<lparr>order_store := map_option (\<lambda>st. snd (saveTrade (w_sql w) now tr st)) (order_store srv2)\<rparr>
      in fold (\<lambda>p. send_to w p (trade_message t)) (subscribers (t_symbol t) srv3) srv3)"

text \<open>The events of a book, in order; a callback that gets an order reads it from the book's final heap.\<close>

fun run_callbacks :: "'db world \<Rightarrow> nat \<Rightarrow> book \<Rightarrow> event list \<Rightarrow> 'db server \<Rightarrow> 'db server" where
  "run_callbacks w k b [] srv = srv"
| "run_callbacks w k b (TradeEvent t # evs) srv =
     run_callbacks w (Suc k) b evs (onTradeExecuted w (w_iso w k) t srv)"
| "run_callbacks w k b (OrderEvent p # evs) srv =
     run_callbacks w (Suc k) b evs (onOrderUpdated w (heap b p) srv)"

text \<open>\<^verbatim>\<open>orderbook->addOrder(order)\<close> for a new order object; the object's final state is returned too.\<close>

definition add_to_book ::
  "'db world \<Rightarrow> string \<Rightarrow> book \<Rightarrow> order \<Rightarrow> 'db server \<Rightarrow> (order \<times> 'db server) option" where
  "add_to_book w smb b ord srv =
     (let p = next_order srv
      in case addOrder (\<lambda>k. w_clock w (k + 2)) (Some p) (set_order p ord b) of
           None \<Rightarrow> None
         | Some (ok, evs, b') \<Rightarrow>
             let srv1 = srv\<lparr>orderbooks := map_put smb b' (orderbooks srv), next_order := Suc p\<rparr>
             in Some (heap b' p, run_callbacks w 0 b' evs srv1))"

subsection \<open>Requests\<close>

definition subscribe :: "string \<Rightarrow> string \<Rightarrow> 'db server \<Rightarrow> 'db server" where
  "subscribe client_id smb srv =
     srv\<lparr>subscriptions := map_put client_id
           (insert smb (case map_find (subscriptions srv) client_id of None \<Rightarrow> {} | Some syms \<Rightarrow> syms))
           (subscriptions srv)\<rparr>"

definition submit_price :: "'db world \<Rightarrow> double \<Rightarrow> book \<Rightarrow> double" where
  "submit_price w price b =
     (if \<not> isValidPrice price b
      then case roundToTickSize price b of None \<Rightarrow> w_unspecified w | Some rounded \<Rightarrow> rounded
      else price)"

definition handleOrderSubmit ::
  "'db world \<Rightarrow> OrderSubmitMessage \<Rightarrow> nat \<Rightarrow> 'db server \<Rightarrow> 'db server option" where
  "handleOrderSubmit w m p srv =
     (case getOrderbook (sub_symbol m) srv of
        None \<Rightarrow> Some (send_to w p (error_message ''INVALID_SYMBOL''
                  (''Orderbook not found for symbol: '' @ sub_symbol m)) srv)
      | Some b \<Rightarrow>
          let price = submit_price w (sub_price m) b;
              srv1 = subscribe (client_of p srv) (sub_symbol m) srv;
              order_price = (if sub_order_type m = MARKET \<or> sub_order_type m = STOP then 0 else price);
              ord = new_order (w_clock w 0) (uuid w) (sub_side m) order_price (sub_quantity m)
                      (sub_symbol m) (sub_client_id m) (sub_order_type m) (sub_stop_price m);
              srv2 = srv1\<lparr>order_store :=
                       map_option (\<lambda>st. snd (saveOrder (w_sql w) (w_clock w 1) (Some ord) st)) (order_store srv1)\<rparr>
          in case add_to_book w (sub_symbol m) b ord srv2 of
               None \<Rightarrow> None
             | Some (ord', srv3) \<Rightarrow>
                 let srv4 = srv3\<lparr>order_owners := (order_owners srv3)(o_id ord' \<mapsto> client_of p srv3)\<rparr>
                 in Some (send_to w p (status_message ord') srv4))"

text \<open>The loop over the books that stops at the first one that knows the order.\<close>

fun cancel_sweep ::
  "string \<Rightarrow> (string, book) std_map \<Rightarrow> (event list \<times> book) option \<times> (string, book) std_map" where
  "cancel_sweep i [] = (None, [])"
| "cancel_sweep i ((smb, b) # m) =
     (case cancelOrder i b of
        (True, evs, b') \<Rightarrow> (Some (evs, b'), (smb, b') # m)
      | (False, evs, b') \<Rightarrow> (case cancel_sweep i m of (r, m') \<Rightarrow> (r, (smb, b') # m')))"

definition handleOrderCancel ::
  "'db world \<Rightarrow> OrderCancelMessage \<Rightarrow> nat \<Rightarrow> 'db server \<Rightarrow> 'db server" where
  "handleOrderCancel w m p srv =
     (if order_owners srv (can_order_id m) = None \<or> order_owners srv (can_order_id m) \<noteq> Some (client_of p srv)
      then send_to w p (error_message ''INVALID_ORDER''
             ''Cannot cancel order: not found or not owned by this client'') srv
      else
        case cancel_sweep (can_order_id m) (orderbooks srv) of
          (None, m') \<Rightarrow>
            send_to w p (error_message ''INVALID_ORDER'' ''Order not found for cancellation'')
              (srv\<lparr>orderbooks := m'\<rparr>)
        | (Some (evs, b'), m') \<Rightarrow> run_callbacks w 0 b' evs (srv\<lparr>orderbooks := m'\<rparr>))"

definition snapshot_message :: "string \<Rightarrow> book \<Rightarrow> Message" where
  "snapshot_message smb b = OrderbookSnapshot
     \<lparr>snap_symbol = smb, snap_bids = getBidLevels 10 b, snap_asks = getAskLevels 10 b\<rparr>"

definition handleSnapshotRequest ::
  "'db world \<Rightarrow> SnapshotRequestMessage \<Rightarrow> nat \<Rightarrow> 'db server \<Rightarrow> 'db server" where
  "handleSnapshotRequest w m p srv =
     (let srv1 = subscribe (client_of p srv) (req_symbol m) srv;
          (created, srv2) = (case getOrderbook (req_symbol m) srv1 of
                               None \<Rightarrow> createOrderbook (req_symbol m) srv1
                             | Some b \<Rightarrow> (True, srv1))
      in if \<not> created
         then send_to w p (error_message ''ORDERBOOK_CREATION_FAILED''
                (''Failed to create orderbook for symbol: '' @ req_symbol m)) srv2
         else case getOrderbook (req_symbol m) srv2 of
                None \<Rightarrow> srv2
              | Some b \<Rightarrow> send_to w p (snapshot_message (req_symbol m) b) srv2)"

text \<open>The first book, in the order of the map, that knows the id.\<close>

fun find_order :: "string \<Rightarrow> (string, book) std_map \<Rightarrow> order option" where
  "find_order i [] = None"
| "find_order i ((smb, b) # m) =
     (case getOrder i b of Some p \<Rightarrow> Some (heap b p) | None \<Rightarrow> find_order i m)"

definition handleOrderStatus ::
  "'db world \<Rightarrow> OrderStatusMessage \<Rightarrow> nat \<Rightarrow> 'db server \<Rightarrow> 'db server" where
  "handleOrderStatus w m p srv =
     (let is_owner = (order_owners srv (st_order_id m) = Some (client_of p srv))
      in if \<not> is_owner
         then send_to w p (error_message ''INVALID_ORDER''
                ''Cannot get order status: not found or not owned by this client'') srv
         else case find_order (st_order_id m) (orderbooks srv) of
                None \<Rightarrow> send_to w p (error_message ''INVALID_ORDER'' ''Order not found for status request'') srv
              | Some ord \<Rightarrow> send_to w p (status_message ord) srv)"

subsection \<open>Authentication\<close>

definition login_response :: "string \<Rightarrow> bool \<Rightarrow> string \<Rightarrow> string \<Rightarrow> Message" where
  "login_response username success token text = LoginResponse
     \<lparr>lr_success = success, lr_session_token = token, lr_username = username, lr_error_message = text\<rparr>"

definition handleLogin :: "'db world \<Rightarrow> LoginMessage \<Rightarrow> nat \<Rightarrow> 'db server \<Rightarrow> 'db server" where
  "handleLogin w m p srv =
     (let username = login_username m; s = session_heap srv p
      in case order_store srv of
           None \<Rightarrow>
             let s1 = setPermissions ''trade,view''
                        (setSessionToken (uuid w) (setUsername username (setAuthenticated True s)))
             in send_to w p (login_response username True (uuid w) []) (set_session p s1 srv)
         | Some st \<Rightarrow>
             if username = ''guest'' \<or> authenticateUser (w_sql w) username (login_password m) st then
               let perms = (case getUser (w_sql w) username st of
                              Some user \<Rightarrow> u_permissions user | None \<Rightarrow> ''trade,view'');
                   s1 = setSessionToken (uuid w) (setUsername username (setAuthenticated True (setPermissions perms s)))
               in send_to w p (login_response username True (uuid w) []) (set_session p s1 srv)
             else send_to w p (login_response username False [] ''Invalid credentials'') srv)"

definition register_response :: "string \<Rightarrow> bool \<Rightarrow> string \<Rightarrow> Message" where
  "register_response username success text = RegisterResponse
     \<lparr>rr_success = success, rr_username = username, rr_error_message = text\<rparr>"

definition handleRegister :: "'db world \<Rightarrow> RegisterMessage \<Rightarrow> nat \<Rightarrow> 'db server \<Rightarrow> 'db server" where
  "handleRegister w m p srv =
     (let username = reg_username m; refuse = (\<lambda>text. send_to w p (register_response username False text) srv)
      in if username = [] then refuse ''Username cannot be empty''
         else if reg_password m = [] then refuse ''Password cannot be empty''
         else if length username > 64 \<or> length (reg_password m) > 128 then refuse ''Username or password too long''
         else case order_store srv of
                None \<Rightarrow> refuse ''Registration unavailable (no persistence)''
              | Some st \<Rightarrow>
                  if getUser (w_sql w) username st \<noteq> None then refuse ''Username already taken''
                  else
                    let new_user = \<lparr>u_username = username, u_password = reg_password m,
                                    u_permissions = ''trade,view''\<rparr>;
                        (saved, st1) = saveUser (w_sql w) (w_salt w 0) new_user st;
                        srv1 = srv\<lparr>order_store := Some st1\<rparr>
                    in send_to w p (if saved then register_response username True []
                                    else register_response username False ''Failed to create account'') srv1)"

definition requireAuth :: "'db world \<Rightarrow> nat \<Rightarrow> string \<Rightarrow> 'db server \<Rightarrow> bool \<times> 'db server" where
  "requireAuth w p permission srv =
     (let s = session_heap srv p
      in if \<not> auth_required srv then
           (True, if \<not> s_authenticated s
                  then set_session p (setUsername ''auto'' (setPermissions ''trade,view,admin''
                         (setAuthenticated True s))) srv
                  else srv)
         else if \<not> s_authenticated s then
           (False, send_to w p (error_message ''AUTH_REQUIRED'' ''Login required before this operation'') srv)
         else if \<not> hasPermission permission s then
           (False, send_to w p (error_message ''PERMISSION_DENIED'' (''Missing permission: '' @ permission)) srv)
         else (True, srv))"

definition guarded ::
  "'db world \<Rightarrow> nat \<Rightarrow> string \<Rightarrow> ('db server \<Rightarrow> 'db server option) \<Rightarrow> 'db server \<Rightarrow> 'db server option" where
  "guarded w p permission handler srv =
     (case requireAuth w p permission srv of (ok, srv1) \<Rightarrow> if \<not> ok then Some srv1 else handler srv1)"

definition handleMessage :: "'db world \<Rightarrow> Message option \<Rightarrow> nat \<Rightarrow> 'db server \<Rightarrow> 'db server option" where
  "handleMessage w message p srv =
     (case message of
        None \<Rightarrow> Some srv
      | Some (Login m) \<Rightarrow> Some (handleLogin w m p srv)
      | Some (Register m) \<Rightarrow> Some (handleRegister w m p srv)
      | Some (SnapshotRequest m) \<Rightarrow> guarded w p ''view'' (\<lambda>s. Some (handleSnapshotRequest w m p s)) srv
      | Some (OrderSubmit m) \<Rightarrow> guarded w p ''trade'' (handleOrderSubmit w m p) srv
      | Some (OrderCancel m) \<Rightarrow> guarded w p ''trade'' (\<lambda>s. Some (handleOrderCancel w m p s)) srv
      | Some (OrderStatusMsg m) \<Rightarrow> guarded w p ''view'' (\<lambda>s. Some (handleOrderStatus w m p s)) srv
      | Some _ \<Rightarrow> Some (send_to w p (error_message ''UNKNOWN_MESSAGE'' ''Unknown message type'') srv))"

subsection \<open>Connections\<close>

text \<open>
  The mutexes of the class. Locking one that the thread already holds never succeeds, since
  \<^verbatim>\<open>std::mutex\<close> is not recursive; \<open>held\<close> are the ones the caller holds.
\<close>

datatype mutex = OrderbooksMutex | SessionsMutex | SubscriptionsMutex | OrderOwnersMutex

definition lock :: "mutex \<Rightarrow> mutex set \<Rightarrow> unit option" where
  "lock m held = (if m \<in> held then None else Some ())"

definition removeSession :: "mutex set \<Rightarrow> nat \<Rightarrow> 'db server \<Rightarrow> 'db server option" where
  "removeSession held p srv =
     (let client_id = client_of p srv
      in do {
        lock SessionsMutex held;
        let srv1 = srv\<lparr>sessions := (sessions srv)(client_id := None)\<rparr>;
        lock SubscriptionsMutex held;
        let srv2 = srv1\<lparr>subscriptions := map_erase client_id (subscriptions srv1)\<rparr>;
        lock OrderOwnersMutex held;
        Some (srv2\<lparr>order_owners := (\<lambda>i. if order_owners srv2 i = Some client_id then None else order_owners srv2 i)\<rparr>)
      })"

text \<open>The callbacks a session has invoked since \<open>n\<close> events: messages are handled, a disconnect removes it.\<close>

fun dispatch :: "'db world \<Rightarrow> mutex set \<Rightarrow> nat \<Rightarrow> session_event list \<Rightarrow> 'db server \<Rightarrow> 'db server option" where
  "dispatch w held p [] srv = Some srv"
| "dispatch w held p (Delivered m # evs) srv =
     do { srv1 \<leftarrow> handleMessage w (Some m) p srv; dispatch w held p evs srv1 }"
| "dispatch w held p (Disconnected # evs) srv =
     do { srv1 \<leftarrow> removeSession held p srv; dispatch w held p evs srv1 }"

text \<open>An operation on a session, together with the callbacks into the server that it makes.\<close>

definition session_op ::
  "'db world \<Rightarrow> mutex set \<Rightarrow> (session \<Rightarrow> session) \<Rightarrow> nat \<Rightarrow> 'db server \<Rightarrow> 'db server option" where
  "session_op w held f p srv =
     (let s = session_heap srv p; s' = f s
      in dispatch w held p (drop (length (events s)) (events s')) (set_session p s' srv))"

text \<open>Whether a connection is awaited: no accept is started once the acceptor has been closed.\<close>

definition acceptConnection :: "'db server \<Rightarrow> bool" where
  "acceptConnection srv = acceptor_open srv"

text \<open>The completion handler of \<^verbatim>\<open>async_accept\<close>; \<open>ok\<close> tells that there was no error.\<close>

definition accept_done :: "'db world \<Rightarrow> bool \<Rightarrow> 'db server \<Rightarrow> 'db server" where
  "accept_done w ok srv =
     (if ok then
        let p = next_session srv;
            client_id = uuid w;
            s = setDisconnectCallback (setClientId client_id (new_session True));
            srv1 = (set_session p s srv)\<lparr>next_session := Suc p\<rparr>;
            srv2 = srv1\<lparr>sessions := (sessions srv1)(client_id \<mapsto> p)\<rparr>
        in set_session p (start (session_heap srv2 p)) srv2
      else srv)"

subsection \<open>Snapshots\<close>

definition sendOrderbookSnapshots :: "'db world \<Rightarrow> 'db server \<Rightarrow> 'db server" where
  "sendOrderbookSnapshots w srv =
     (let snapshots = map (\<lambda>(smb, b). (smb, snapshot_message smb b)) (orderbooks srv)
      in fold (\<lambda>(smb, message) srv1. fold (\<lambda>p. send_to w p message) (subscribers smb srv) srv1) snapshots srv)"

definition startSnapshotTimer :: "int \<Rightarrow> 'db server \<Rightarrow> 'db server" where
  "startSnapshotTimer interval srv = srv\<lparr>snapshot_interval_ms := interval, snapshot_timer := True\<rparr>"

text \<open>The completion handler of the timer; it is not run with an error unless the timer was cancelled.\<close>

definition timer_done :: "'db world \<Rightarrow> bool \<Rightarrow> 'db server \<Rightarrow> 'db server" where
  "timer_done w ok srv =
     (let srv1 = srv\<lparr>snapshot_timer := False\<rparr>
      in if ok then startSnapshotTimer (snapshot_interval_ms srv1) (sendOrderbookSnapshots w srv1) else srv1)"

subsection \<open>The order generator\<close>

definition configureOrderGenerator :: "gen_config \<Rightarrow> 'db server \<Rightarrow> 'db server" where
  "configureOrderGenerator cfg srv =
     srv\<lparr>order_generator := Some (case order_generator srv of
            Some g \<Rightarrow> setConfig cfg (stop_generator g) | None \<Rightarrow> new_generator cfg),
         generator_symbol := c_symbol cfg\<rparr>"

text \<open>The callbacks it registers: an order is posted to the \<^verbatim>\<open>io_context\<close>, a cancellation is made at once.\<close>

definition generator_order :: "order \<Rightarrow> 'db server \<Rightarrow> 'db server" where
  "generator_order ord srv = srv\<lparr>posted := posted srv @ [ord]\<rparr>"

definition run_posted :: "'db world \<Rightarrow> 'db server \<Rightarrow> 'db server option" where
  "run_posted w srv =
     (case posted srv of
        [] \<Rightarrow> Some srv
      | ord # rest \<Rightarrow>
          let srv1 = srv\<lparr>posted := rest\<rparr>
          in case getOrderbook (o_symbol ord) srv1 of
               None \<Rightarrow> Some srv1
             | Some b \<Rightarrow>
                 (case add_to_book w (o_symbol ord) b ord srv1 of
                    None \<Rightarrow> None
                  | Some (ord', srv2) \<Rightarrow> Some (srv2\<lparr>order_count := order_count srv2 + 1\<rparr>)))"

definition generator_cancel :: "'db world \<Rightarrow> string \<Rightarrow> 'db server \<Rightarrow> bool \<times> 'db server" where
  "generator_cancel w i srv =
     (case getOrderbook (generator_symbol srv) srv of
        None \<Rightarrow> (False, srv)
      | Some b \<Rightarrow>
          (case cancelOrder i b of
             (ok, evs, b') \<Rightarrow>
               (ok, run_callbacks w 0 b' evs
                      (srv\<lparr>orderbooks := map_put (generator_symbol srv) b' (orderbooks srv)\<rparr>))))"

definition generator_step :: "'db world \<Rightarrow> gen_draws \<Rightarrow> 'db server \<Rightarrow> 'db server option" where
  "generator_step w d srv =
     (case order_generator srv of
        None \<Rightarrow> Some srv
      | Some g \<Rightarrow>
          if \<not> g_running g then Some srv
          else case generator_turn d (Some generator_order) (Some (generator_cancel w)) (g, srv) of
                 None \<Rightarrow> None
               | Some (g', srv1) \<Rightarrow> Some (srv1\<lparr>order_generator := Some g'\<rparr>))"

subsection \<open>Starting and stopping\<close>

fun restore_orders :: "'db world \<Rightarrow> nat \<Rightarrow> order list \<Rightarrow> 'db server \<Rightarrow> 'db server option" where
  "restore_orders w k [] srv = Some srv"
| "restore_orders w k (ord # ords) srv =
     (case getOrderbook (o_symbol ord) srv of
        None \<Rightarrow> restore_orders w (Suc k) ords srv
      | Some b \<Rightarrow>
          (case add_to_book (w\<lparr>w_clock := w_restore_clock w k, w_iso := w_restore_iso w k\<rparr>)
                  (o_symbol ord) b ord srv of
             None \<Rightarrow> None
           | Some (ord', srv1) \<Rightarrow> restore_orders w (Suc k) ords srv1))"

definition initPersistence :: "'db world \<Rightarrow> 'db server \<Rightarrow> (bool \<times> 'db server) option" where
  "initPersistence w srv =
     (case open_store (w_sql w) (new_store (db_path srv)) of
        (opened, st) \<Rightarrow>
          if \<not> opened then Some (False, srv\<lparr>order_store := None\<rparr>)
          else
            let st1 = seedDefaultUsers (w_sql w) (w_salt w) st;
                active_orders = loadAllActiveOrders (w_sql w) (w_clock w) st1
            in case restore_orders w 0 active_orders (srv\<lparr>order_store := Some st1\<rparr>) of
                 None \<Rightarrow> None
               | Some srv1 \<Rightarrow> Some (True, srv1))"

definition start_server :: "'db world \<Rightarrow> 'db server \<Rightarrow> 'db server option" where
  "start_server w srv =
     do {
       srv1 \<leftarrow> (if order_store srv = None then map_option snd (initPersistence w srv) else Some srv);
       let srv2 = startSnapshotTimer (snapshot_interval_ms srv1) srv1;
       Some (srv2\<lparr>order_generator := map_option start_generator (order_generator srv2)\<rparr>)
     }"

text \<open>The loop of \<^verbatim>\<open>stop\<close> over the sessions; \<open>ps\<close> is the order in which the hash map is traversed.\<close>

fun close_all :: "'db world \<Rightarrow> mutex set \<Rightarrow> nat list \<Rightarrow> 'db server \<Rightarrow> 'db server option" where
  "close_all w held [] srv = Some srv"
| "close_all w held (p # ps) srv =
     do { srv1 \<leftarrow> session_op w held close p srv; close_all w held ps srv1 }"

definition stop_server :: "'db world \<Rightarrow> nat list \<Rightarrow> 'db server \<Rightarrow> 'db server option" where
  "stop_server w ps srv =
     do {
       let srv1 = srv\<lparr>acceptor_open := False\<rparr>;
       srv2 \<leftarrow> close_all w {SessionsMutex} ps srv1;
       let srv3 = srv2\<lparr>sessions := (\<lambda>_. None), snapshot_timer := False\<rparr>;
       Some (srv3\<lparr>order_generator := map_option stop_generator (order_generator srv3)\<rparr>)
     }"

end
