(* ===== verification/Server_Inv.thy ===== *)
theory Server_Inv
  imports Server
begin

text \<open>
  The invariant of the server and that every step keeps it: the books are consistent, served under
  their own symbol and refer only to allocated orders; the session map leads to allocated sessions
  under their own client ids; and the posted orders are fit for submission. Handlers always
  return, since the books do.
\<close>

subsection \<open>Notifications\<close>

text \<open>What identifies and authorises a session; sending messages does not change it.\<close>

definition identity :: "session \<Rightarrow> string \<times> bool \<times> string \<times> string \<times> string" where
  "identity s = (s_client_id s, s_authenticated s, s_username s, s_session_token s, s_permissions s)"

lemma identity_send [simp]: "identity (sendMessage e m s) = identity s"
  by (simp add: identity_def sendMessage_def doWriteNext_def Let_def split: option.splits list.splits)

lemma identity_client: "identity s = identity t \<Longrightarrow> s_client_id s = s_client_id t"
  by (simp add: identity_def)

text \<open>A step that only notifies: queued messages, the store, the owners and the counters may change.\<close>

definition notifies :: "'db server \<Rightarrow> 'db server \<Rightarrow> bool" where
  "notifies a b \<longleftrightarrow> orderbooks b = orderbooks a \<and> next_order b = next_order a \<and> sessions b = sessions a \<and>
     subscriptions b = subscriptions a \<and> next_session b = next_session a \<and> posted b = posted a \<and>
     auth_required b = auth_required a \<and> generator_symbol b = generator_symbol a \<and>
     (\<forall>p. identity (session_heap b p) = identity (session_heap a p))"

lemma notifies_refl [simp]: "notifies a a"
  by (simp add: notifies_def)

lemma notifies_trans: "notifies a b \<Longrightarrow> notifies b c \<Longrightarrow> notifies a c"
  by (simp add: notifies_def)

lemma notifies_send [simp]: "notifies srv (send_to w p m srv)"
  by (simp add: notifies_def send_to_def set_session_def)

lemma notifies_sends: "notifies a srv \<Longrightarrow> notifies a (fold (\<lambda>p. send_to w p m) ps srv)"
proof (induction ps arbitrary: srv)
  case (Cons p ps)
  then show ?case using notifies_trans[OF Cons.prems notifies_send] by simp
qed simp

lemma notifies_order: "notifies srv (onOrderUpdated w ord srv)"
  by (simp add: onOrderUpdated_def Let_def notifies_def send_to_def set_session_def split: option.split)

lemma notifies_trade: "notifies srv (onTradeExecuted w now t srv)"
  unfolding onTradeExecuted_def Let_def by (rule notifies_sends) (simp add: notifies_def)

lemma notifies_run: "notifies srv (run_callbacks w k b evs srv)"
proof (induction w k b evs srv rule: run_callbacks.induct)
  case (2 w k b t evs srv)
  then show ?case using notifies_trade notifies_trans by (metis run_callbacks.simps(2))
next
  case (3 w k b p evs srv)
  then show ?case using notifies_order notifies_trans by (metis run_callbacks.simps(3))
qed simp

subsection \<open>The invariant\<close>

definition sessions_ok :: "'db server \<Rightarrow> bool" where
  "sessions_ok srv \<longleftrightarrow> (\<forall>c p. sessions srv c = Some p \<longrightarrow> p < next_session srv \<and> client_of p srv = c)"

definition server_inv :: "'db server \<Rightarrow> bool" where
  "server_inv srv \<longleftrightarrow> svc.served (next_order srv) (orderbooks srv) \<and> map_inv (subscriptions srv) \<and>
     sessions_ok srv \<and> list_all submittable (posted srv)"

lemma sessions_ok_cong:
  assumes "sessions_ok srv" and "sessions srv' = sessions srv" and "next_session srv' = next_session srv"
    and "\<And>p. s_client_id (session_heap srv' p) = s_client_id (session_heap srv p)"
  shows "sessions_ok srv'"
  using assms by (simp add: sessions_ok_def)

lemma server_inv_notifies: "server_inv a \<Longrightarrow> notifies a b \<Longrightarrow> server_inv b"
proof -
  assume a: "server_inv a" and n: "notifies a b"
  have "s_client_id (session_heap b p) = s_client_id (session_heap a p)" for p
    using n by (intro identity_client) (simp add: notifies_def)
  then have "sessions_ok b" using a n by (intro sessions_ok_cong[of a b]) (simp_all add: server_inv_def notifies_def)
  with a n show "server_inv b" by (simp add: server_inv_def notifies_def)
qed

lemma server_inv_send [simp]: "server_inv srv \<Longrightarrow> server_inv (send_to w p m srv)"
  by (erule server_inv_notifies) simp

lemma server_inv_subscribe: "server_inv srv \<Longrightarrow> server_inv (subscribe c smb srv)"
  by (auto simp: server_inv_def subscribe_def sessions_ok_def map_inv_put)

lemma server_inv_store [simp]: "server_inv srv \<Longrightarrow> server_inv (srv\<lparr>order_store := st\<rparr>)"
  by (simp add: server_inv_def sessions_ok_def)

lemma server_inv_owners [simp]: "server_inv srv \<Longrightarrow> server_inv (srv\<lparr>order_owners := ow\<rparr>)"
  by (simp add: server_inv_def sessions_ok_def)

lemma server_inv_settings [simp]:
  "server_inv srv \<Longrightarrow> server_inv (srv\<lparr>snapshot_interval_ms := i, snapshot_timer := t\<rparr>)"
  "server_inv srv \<Longrightarrow> server_inv (srv\<lparr>snapshot_timer := t\<rparr>)"
  "server_inv srv \<Longrightarrow> server_inv (srv\<lparr>order_generator := g\<rparr>)"
  "server_inv srv \<Longrightarrow> server_inv (srv\<lparr>order_generator := g, generator_symbol := s\<rparr>)"
  "server_inv srv \<Longrightarrow> server_inv (srv\<lparr>order_count := n\<rparr>)"
  by (simp_all add: server_inv_def sessions_ok_def)

lemma server_inv_session:
  assumes "server_inv srv" and "s_client_id s = client_of p srv"
  shows "server_inv (set_session p s srv)"
  using assms by (simp add: server_inv_def set_session_def sessions_ok_def)

lemma served_cancel_sweep: "svc.served n m \<Longrightarrow> svc.served n (snd (cancel_sweep i m))"
proof (induction m)
  case (Cons e m)
  obtain smb b where e: "e = (smb, b)" by (cases e)
  obtain ok evs b' where c: "cancelOrder i b = (ok, evs, b')" by (cases "cancelOrder i b")
  have sb: "served_book smb b" "book_below n b" using svc.served_entry[OF Cons.prems] e by auto
  then have b': "served_book smb b'" "book_below n b'"
    using cancelOrder_served[of smb b i] cancelOrder_below[of smb b n i] c by simp_all
  have m: "svc.served n m" using Cons.prems unfolding e by (rule svc.served_Cons)
  show ?case
  proof (cases ok)
    case True
    with c b' Cons.prems show ?thesis by (simp add: e svc.served_head)
  next
    case False
    obtain r m' where r: "cancel_sweep i m = (r, m')" by (cases "cancel_sweep i m")
    have "map fst m' = map fst m" using r
    proof (induction m arbitrary: r m')
      case (Cons e m)
      then show ?case
        by (cases e; cases "cancel_sweep i m") (auto split: prod.splits bool.splits if_splits)
    qed simp
    moreover have "svc.served n m'" using Cons.IH[OF m] r by simp
    ultimately show ?thesis
      using False c b' r Cons.prems
      by (auto simp: e svc.served_def map_inv_def)
  qed
qed simp

subsection \<open>Handlers keep it\<close>

lemma add_to_book_returns:
  assumes "server_inv srv" and "getOrderbook smb srv = Some b" and "submittable ord"
  obtains ord' srv' where "add_to_book w smb b ord srv = Some (ord', srv')" "server_inv srv'"
proof -
  have "svc.served (next_order srv) (orderbooks srv)" "map_find (orderbooks srv) smb = Some b"
    using assms by (simp_all add: server_inv_def getOrderbook_def)
  from svc.served_add[OF this assms(3), where t = "\<lambda>k. w_clock w (k + 2)"] obtain ok evs b' where
    run: "submit_at (\<lambda>k. w_clock w (k + 2)) (next_order srv) ord b = Some (ok, evs, b')"
    and ok: "svc.served (Suc (next_order srv)) (map_put smb b' (orderbooks srv))" by blast
  let ?srv1 = "srv\<lparr>orderbooks := map_put smb b' (orderbooks srv), next_order := Suc (next_order srv)\<rparr>"
  have "server_inv ?srv1" using assms(1) ok by (simp add: server_inv_def sessions_ok_def)
  then have "server_inv (run_callbacks w 0 b' evs ?srv1)" using notifies_run by (rule server_inv_notifies)
  then show thesis using that run by (simp add: add_to_book_def submit_at_def Let_def)
qed

lemma handleOrderSubmit_returns:
  assumes "server_inv srv"
  shows "\<exists>srv'. handleOrderSubmit w m p srv = Some srv' \<and> server_inv srv'"
proof (cases "getOrderbook (sub_symbol m) srv")
  case None
  then show ?thesis using assms by (simp add: handleOrderSubmit_def)
next
  case (Some b)
  let ?ord = "new_order (w_clock w 0) (uuid w) (sub_side m)
    (if sub_order_type m = MARKET \<or> sub_order_type m = STOP then 0 else submit_price w (sub_price m) b)
    (sub_quantity m) (sub_symbol m) (sub_client_id m) (sub_order_type m) (sub_stop_price m)"
  let ?srv1 = "subscribe (client_of p srv) (sub_symbol m) srv"
  let ?srv2 = "?srv1\<lparr>order_store :=
    map_option (\<lambda>st. snd (saveOrder (w_sql w) (w_clock w 1) (Some ?ord) st)) (order_store ?srv1)\<rparr>"
  have "server_inv ?srv2" using assms by (simp add: server_inv_subscribe)
  moreover have "getOrderbook (sub_symbol m) ?srv2 = Some b" using Some by (simp add: getOrderbook_def subscribe_def)
  ultimately obtain ord' srv3 where "add_to_book w (sub_symbol m) b ?ord ?srv2 = Some (ord', srv3)" "server_inv srv3"
    using submittable_new by (rule add_to_book_returns)
  then show ?thesis unfolding handleOrderSubmit_def Some option.case Let_def by simp
qed

lemma server_inv_cancel: "server_inv srv \<Longrightarrow> server_inv (handleOrderCancel w m p srv)"
proof -
  assume inv: "server_inv srv"
  obtain r bs where r: "cancel_sweep (can_order_id m) (orderbooks srv) = (r, bs)"
    by (cases "cancel_sweep (can_order_id m) (orderbooks srv)")
  have "server_inv (srv\<lparr>orderbooks := bs\<rparr>)"
    using inv served_cancel_sweep[of _ "orderbooks srv" "can_order_id m"] r by (simp add: server_inv_def sessions_ok_def)
  then show ?thesis using inv server_inv_notifies[OF _ notifies_run]
    by (auto simp: handleOrderCancel_def r split: option.splits)
qed

lemma served_new_book:
  assumes "svc.served n m"
  shows "svc.served n (map_put smb (setTradeCallback (setOrderCallback (new_book smb tick h))) m)"
proof (rule svc.served_put[OF assms])
  have "reachable_book (setOrderCallback (new_book smb tick h))"
    using reachable_book.init book_step.order_cb by (rule reachable_book.step)
  then have "reachable_book (setTradeCallback (setOrderCallback (new_book smb tick h)))"
    using book_step.trade_cb by (rule reachable_book.step)
  then show "served_book smb (setTradeCallback (setOrderCallback (new_book smb tick h)))"
    unfolding served_book_def by (simp add: setTradeCallback_def setOrderCallback_def new_book_def)
  show "book_below n (setTradeCallback (setOrderCallback (new_book smb tick h)))"
    by (simp add: book_below_def setTradeCallback_def setOrderCallback_def new_book_def)
qed

lemma server_inv_create: "server_inv srv \<Longrightarrow> server_inv (snd (createOrderbookTick smb tick srv))"
  by (auto simp: createOrderbookTick_def server_inv_def sessions_ok_def Let_def intro: served_new_book)

lemma server_inv_snapshot: "server_inv srv \<Longrightarrow> server_inv (handleSnapshotRequest w m p srv)"
proof -
  assume "server_inv srv"
  then have s: "server_inv (subscribe (client_of p srv) (req_symbol m) srv)" by (rule server_inv_subscribe)
  obtain ok srv2 where c: "createOrderbook (req_symbol m) (subscribe (client_of p srv) (req_symbol m) srv) = (ok, srv2)"
    by (cases "createOrderbook (req_symbol m) (subscribe (client_of p srv) (req_symbol m) srv)")
  then have "server_inv srv2" using server_inv_create[OF s] by (metis createOrderbook_def snd_conv)
  with s c show ?thesis by (auto simp: handleSnapshotRequest_def Let_def split: option.splits)
qed

lemma server_inv_status: "server_inv srv \<Longrightarrow> server_inv (handleOrderStatus w m p srv)"
  by (simp add: handleOrderStatus_def Let_def split: option.split)

lemma server_inv_login: "server_inv srv \<Longrightarrow> server_inv (handleLogin w m p srv)"
  by (auto simp: handleLogin_def Let_def intro!: server_inv_session server_inv_send split: option.split)

lemma server_inv_register: "server_inv srv \<Longrightarrow> server_inv (handleRegister w m p srv)"
  by (auto simp: handleRegister_def Let_def split: option.split prod.split)

lemma server_inv_requireAuth: "server_inv srv \<Longrightarrow> server_inv (snd (requireAuth w p perm srv))"
  by (auto simp: requireAuth_def Let_def intro!: server_inv_session)

lemma guarded_returns:
  assumes "server_inv srv" and "\<And>s. server_inv s \<Longrightarrow> \<exists>s'. h s = Some s' \<and> server_inv s'"
  shows "\<exists>srv'. guarded w p perm h srv = Some srv' \<and> server_inv srv'"
  using server_inv_requireAuth[OF assms(1), of w p perm] assms(2)
  by (cases "requireAuth w p perm srv") (simp add: guarded_def)

lemma handleMessage_returns:
  assumes "server_inv srv"
  shows "\<exists>srv'. handleMessage w message p srv = Some srv' \<and> server_inv srv'"
proof (cases message)
  case (Some msg)
  show ?thesis
    by (cases msg) (simp_all add: handleMessage_def Some assms server_inv_login server_inv_register guarded_returns
        handleOrderSubmit_returns server_inv_cancel server_inv_snapshot server_inv_status)
qed (simp add: handleMessage_def assms)

subsection \<open>Other steps\<close>

lemma removeSession_free:
  "removeSession {} p srv = Some (srv\<lparr>sessions := (sessions srv)(client_of p srv := None),
     subscriptions := map_erase (client_of p srv) (subscriptions srv),
     order_owners := (\<lambda>i. if order_owners srv i = Some (client_of p srv) then None else order_owners srv i)\<rparr>)"
  by (simp add: removeSession_def lock_def Let_def cong: if_cong)

lemma removeSession_returns:
  assumes "server_inv srv"
  shows "\<exists>srv'. removeSession {} p srv = Some srv' \<and> server_inv srv'"
  using assms by (auto simp: removeSession_free server_inv_def sessions_ok_def map_inv_erase)

lemma dispatch_returns:
  assumes "server_inv srv"
  shows "\<exists>srv'. dispatch w {} p evs srv = Some srv' \<and> server_inv srv'"
  using assms
proof (induction evs arbitrary: srv)
  case (Cons ev evs)
  show ?case
  proof (cases ev)
    case (Delivered m)
    with handleMessage_returns[OF Cons.prems, of w "Some m" p] Cons.IH show ?thesis by fastforce
  next
    case Disconnected
    with removeSession_returns[OF Cons.prems, of p] Cons.IH show ?thesis by fastforce
  qed
qed simp

text \<open>The operations of a session that the server's event loop runs: all keep its client id.\<close>

datatype session_action = HeaderDone completion | ContentDone completion | WriteDone bool | Close | Inject string

fun session_run_action :: "env \<Rightarrow> session_action \<Rightarrow> session \<Rightarrow> session" where
  "session_run_action e (HeaderDone c) = header_done c"
| "session_run_action e (ContentDone c) = content_done e c"
| "session_run_action e (WriteDone ok) = write_done ok"
| "session_run_action e Close = close"
| "session_run_action e (Inject smb) = injectTestMessage smb"

lemma identity_close [simp]: "identity (close s) = identity s"
  by (simp add: close_def Let_def identity_def)

lemma identity_next [simp]: "identity (doWriteNext s) = identity s"
  by (simp add: doWriteNext_def identity_def split: list.split)

lemma identity_fields [simp]:
  "identity (s\<lparr>pending_read := r\<rparr>) = identity s" "identity (s\<lparr>length_buffer := bs\<rparr>) = identity s"
  "identity (s\<lparr>message_content_buffer := cs\<rparr>) = identity s" "identity (s\<lparr>read_state := rs\<rparr>) = identity s"
  "identity (s\<lparr>events := evs\<rparr>) = identity s" "identity (s\<lparr>pending_writes := ws\<rparr>) = identity s"
  "identity (s\<lparr>wire := wr\<rparr>) = identity s" "identity (s\<lparr>write_messages := ms\<rparr>) = identity s"
  "identity (s\<lparr>writing := f\<rparr>) = identity s"
  by (simp_all add: identity_def)

lemma identity_action [simp]: "identity (session_run_action e a s) = identity s"
proof (cases a)
  case (HeaderDone c)
  then show ?thesis by (cases c) (simp_all add: header_done_def Let_def)
next
  case (ContentDone c)
  then show ?thesis by (cases c) (simp_all add: content_done_def doRead_def Let_def)
next
  case (WriteDone ok)
  then show ?thesis by (simp add: write_done_def Let_def split: list.split)
qed (simp_all add: injectTestMessage_def)

lemma session_op_returns:
  assumes "server_inv srv"
  shows "\<exists>srv'. session_op w {} (session_run_action e a) p srv = Some srv' \<and> server_inv srv'"
  unfolding session_op_def Let_def
  by (intro dispatch_returns server_inv_session assms identity_client) simp

lemma server_inv_accept:
  assumes "server_inv srv"
  shows "server_inv (accept_done w ok srv)"
proof (cases ok)
  case True
  have "client_of (next_session srv) (accept_done w ok srv) = uuid w"
    using True by (simp add: accept_done_def Let_def set_session_def start_def doRead_def setDisconnectCallback_def)
  moreover have "client_of q (accept_done w ok srv) = client_of q srv" if "q \<noteq> next_session srv" for q
    using True that by (simp add: accept_done_def Let_def set_session_def)
  moreover have "sessions (accept_done w ok srv) = (sessions srv)(uuid w \<mapsto> next_session srv)"
    "next_session (accept_done w ok srv) = Suc (next_session srv)"
    using True by (simp_all add: accept_done_def Let_def set_session_def)
  ultimately have "sessions_ok (accept_done w ok srv)"
    using assms unfolding server_inv_def sessions_ok_def
    by (metis fun_upd_apply less_Suc_eq less_irrefl_nat option.inject)
  moreover have "orderbooks (accept_done w ok srv) = orderbooks srv" "next_order (accept_done w ok srv) = next_order srv"
    "subscriptions (accept_done w ok srv) = subscriptions srv" "posted (accept_done w ok srv) = posted srv"
    by (simp_all add: accept_done_def Let_def set_session_def)
  ultimately show ?thesis using assms by (simp add: server_inv_def)
qed (simp add: accept_done_def assms)

lemma notifies_snapshots: "notifies srv (sendOrderbookSnapshots w srv)"
proof -
  have "notifies srv (fold (\<lambda>(smb, message) srv1. fold (\<lambda>p. send_to w p message) (subscribers smb srv) srv1) snaps srv1)"
    if "notifies srv srv1" for snaps srv1
    using that
  proof (induction snaps arbitrary: srv1)
    case (Cons s snaps)
    then show ?case by (cases s) (simp add: notifies_sends)
  qed simp
  then show ?thesis by (simp add: sendOrderbookSnapshots_def)
qed

lemma server_inv_timer: "server_inv srv \<Longrightarrow> server_inv (timer_done w ok srv)"
  unfolding timer_done_def startSnapshotTimer_def Let_def
  by (simp add: server_inv_notifies[OF _ notifies_snapshots])

lemma run_posted_returns:
  assumes "server_inv srv"
  shows "\<exists>srv'. run_posted w srv = Some srv' \<and> server_inv srv'"
proof (cases "posted srv")
  case Nil
  then show ?thesis using assms by (simp add: run_posted_def)
next
  case (Cons ord rest)
  let ?srv1 = "srv\<lparr>posted := rest\<rparr>"
  have inv: "server_inv ?srv1" and ord: "submittable ord"
    using assms Cons by (simp_all add: server_inv_def sessions_ok_def)
  show ?thesis
  proof (cases "getOrderbook (o_symbol ord) ?srv1")
    case None
    then show ?thesis using Cons inv by (simp add: run_posted_def)
  next
    case (Some b)
    obtain ord' srv2 where "add_to_book w (o_symbol ord) b ord ?srv1 = Some (ord', srv2)" "server_inv srv2"
      using inv Some ord by (rule add_to_book_returns)
    then show ?thesis using Cons Some by (simp add: run_posted_def)
  qed
qed

lemma server_inv_generator_cancel: "server_inv srv \<Longrightarrow> server_inv (snd (generator_cancel w i srv))"
proof (cases "getOrderbook (generator_symbol srv) srv")
  case (Some b)
  assume inv: "server_inv srv"
  have "svc.served (next_order srv) (map_put (generator_symbol srv) (snd (snd (cancelOrder i b))) (orderbooks srv))"
    by (rule svc.served_cancel) (use inv Some in \<open>simp_all add: server_inv_def getOrderbook_def\<close>)
  then have "server_inv (srv\<lparr>orderbooks := map_put (generator_symbol srv) (snd (snd (cancelOrder i b))) (orderbooks srv)\<rparr>)"
    using inv by (simp add: server_inv_def sessions_ok_def)
  then show ?thesis using Some server_inv_notifies[OF _ notifies_run]
    by (auto simp: generator_cancel_def split: prod.splits)
qed (simp add: generator_cancel_def)

lemma server_inv_generator_order:
  "server_inv srv \<Longrightarrow> submittable ord \<Longrightarrow> server_inv (generator_order ord srv)"
  by (simp add: generator_order_def server_inv_def sessions_ok_def)

lemma server_inv_generator_step:
  assumes "generator_step w d srv = Some srv'" and "server_inv srv"
  shows "server_inv srv'"
proof -
  consider "srv' = srv" | g g' srv1 where
    "generator_turn d (Some generator_order) (Some (generator_cancel w)) (g, srv) = Some (g', srv1)"
    "srv' = srv1\<lparr>order_generator := Some g'\<rparr>"
    using assms(1) by (auto simp: generator_step_def split: option.splits if_splits)
  then show ?thesis
  proof cases
    case 2
    have "server_inv srv1"
    proof (rule generator_turn_keeps[OF 2(1), where I = server_inv])
      show "server_inv (generator_order ord s)" if "generateOrder d g = Some ord" "server_inv s" for ord s
        using generateOrder_new[OF that(1)] that(2) submittable_new server_inv_generator_order by metis
    qed (simp_all add: assms(2) server_inv_generator_cancel)
    then show ?thesis using 2(2) by simp
  qed (simp add: assms(2))
qed

lemma submittable_row: "submittable (order_of_row now r)"
  by (simp add: order_of_row_def Let_def submittable_new submittable_refill)

lemma submittable_loaded: "list_all submittable (loadAllActiveOrders sq now st)"
  by (auto simp: loadAllActiveOrders_def orders_of_rows_def list_all_iff set_zip submittable_row split: option.split)

lemma restore_orders_returns:
  assumes "server_inv srv" and "list_all submittable ords"
  shows "\<exists>srv'. restore_orders w k ords srv = Some srv' \<and> server_inv srv'"
  using assms
proof (induction ords arbitrary: srv k)
  case (Cons ord ords)
  show ?case
  proof (cases "getOrderbook (o_symbol ord) srv")
    case None
    then show ?thesis using Cons by simp
  next
    case (Some b)
    have ord: "submittable ord" using Cons.prems(2) by simp
    obtain ord' srv1 where "add_to_book (w\<lparr>w_clock := w_restore_clock w k, w_iso := w_restore_iso w k\<rparr>)
        (o_symbol ord) b ord srv = Some (ord', srv1)" "server_inv srv1"
      using Cons.prems(1) Some ord by (rule add_to_book_returns)
    then show ?thesis using Some Cons.IH[of srv1 "Suc k"] Cons.prems(2) by simp
  qed
qed simp

lemma initPersistence_returns:
  assumes "server_inv srv"
  shows "\<exists>ok srv'. initPersistence w srv = Some (ok, srv') \<and> server_inv srv'"
proof -
  obtain opened st where o: "open_store (w_sql w) (new_store (db_path srv)) = (opened, st)"
    by (cases "open_store (w_sql w) (new_store (db_path srv))")
  let ?st = "seedDefaultUsers (w_sql w) (w_salt w) st"
  from assms have "server_inv (srv\<lparr>order_store := Some ?st\<rparr>)" by simp
  from restore_orders_returns[OF this submittable_loaded, of w 0 "w_sql w" "w_clock w" ?st]
  show ?thesis using assms by (auto simp: initPersistence_def o Let_def)
qed

lemma start_server_returns:
  assumes "server_inv srv"
  shows "\<exists>srv'. start_server w srv = Some srv' \<and> server_inv srv'"
  using initPersistence_returns[OF assms, of w] assms
  by (auto simp: start_server_def startSnapshotTimer_def Let_def)

lemma server_inv_tick: "server_inv srv \<Longrightarrow> server_inv (snd (setOrderbookTickSize smb tick srv))"
proof (cases "map_find (orderbooks srv) smb")
  case (Some b)
  assume inv: "server_inv srv"
  then have b: "served_book smb b" "book_below (next_order srv) b"
    using svc.served_find[of "next_order srv" "orderbooks srv" smb b] Some by (simp_all add: server_inv_def)
  have "reachable_book (setTickSize tick b)" if "reachable_book b"
    using that book_step.tick by (rule reachable_book.step)
  then have "served_book smb (setTickSize tick b)" "book_below (next_order srv) (setTickSize tick b)"
    using b by (auto simp: served_book_def book_below_def setTickSize_def)
  then have "svc.served (next_order srv) (map_put smb (setTickSize tick b) (orderbooks srv))"
    using inv by (intro svc.served_put) (simp_all add: server_inv_def)
  then show ?thesis using inv Some by (simp add: setOrderbookTickSize_def server_inv_def sessions_ok_def)
qed (simp add: setOrderbookTickSize_def)

subsection \<open>Reachable servers\<close>

inductive server_step :: "'db server \<Rightarrow> 'db server \<Rightarrow> bool" where
  create: "server_step srv (snd (createOrderbookTick smb tick srv))"
| tick: "server_step srv (snd (setOrderbookTickSize smb tick srv))"
| auth: "server_step srv (srv\<lparr>auth_required := f\<rparr>)"
| path: "server_step srv (srv\<lparr>db_path := name\<rparr>)"
| interval: "server_step srv (srv\<lparr>snapshot_interval_ms := n\<rparr>)"
| configure: "server_step srv (configureOrderGenerator cfg srv)"
| persist: "initPersistence w srv = Some (ok, srv') \<Longrightarrow> server_step srv srv'"
| launch: "start_server w srv = Some srv' \<Longrightarrow> server_step srv srv'"
| accept: "server_step srv (accept_done w ok srv)"
| session: "session_op w {} (session_run_action (w_env w) a) p srv = Some srv' \<Longrightarrow> server_step srv srv'"
| timer: "server_step srv (timer_done w ok srv)"
| post: "run_posted w srv = Some srv' \<Longrightarrow> server_step srv srv'"
| generate: "generator_step w d srv = Some srv' \<Longrightarrow> server_step srv srv'"

inductive reachable_server :: "'db server \<Rightarrow> bool" where
  init: "reachable_server new_server"
| step: "reachable_server srv \<Longrightarrow> server_step srv srv' \<Longrightarrow> reachable_server srv'"

lemma server_step_inv: "server_step srv srv' \<Longrightarrow> server_inv srv \<Longrightarrow> server_inv srv'"
proof (induction rule: server_step.induct)
  case (persist w srv ok srv')
  then show ?case using initPersistence_returns[of srv w] by auto
next
  case (launch w srv srv')
  then show ?case using start_server_returns[of srv w] by auto
next
  case (session w a p srv srv')
  then show ?case using session_op_returns[of srv w "w_env w" a p] by auto
next
  case (post w srv srv')
  then show ?case using run_posted_returns[of srv w] by auto
qed (auto simp: server_inv_create server_inv_tick server_inv_accept server_inv_timer configureOrderGenerator_def
      intro: server_inv_generator_step, auto simp: server_inv_def sessions_ok_def)

lemma new_server_inv: "server_inv new_server"
  by (simp add: server_inv_def new_server_def sessions_ok_def svc.served_empty)

lemma reachable_server_inv: "reachable_server srv \<Longrightarrow> server_inv srv"
  by (induction rule: reachable_server.induct) (auto intro: new_server_inv server_step_inv)

end
