(* ===== verification/Store_Props.thy ===== *)
theory Store_Props
  imports Order_Store
begin

text \<open>
  What the order store promises, over any database that behaves as documented: an order that was
  saved and updated is restored with its current remainder exactly while it is active, and a
  user who was saved is authenticated by exactly the passwords with the same salted digest.
\<close>

subsection \<open>The documented behaviour of the statements\<close>

record tables =
  tb_orders :: "order_row list"
  tb_trades :: "trade_row list"
  tb_users :: "UserRecord list"

definition is_active_row :: "order_row \<Rightarrow> bool" where
  "is_active_row r \<longleftrightarrow> r_status r = ''PENDING'' \<or> r_status r = ''PARTIAL''"

text \<open>\<open>UPDATE orders SET remaining_quantity=?, status=?, order_type=? WHERE id=?\<close>\<close>

definition updated_row :: "int \<Rightarrow> string \<Rightarrow> string \<Rightarrow> string \<Rightarrow> order_row \<Rightarrow> order_row" where
  "updated_row n s ty i r =
     (if r_id r = i then r\<lparr>r_remaining_quantity := n, r_status := s, r_order_type := ty\<rparr> else r)"

definition sqlite_ok :: "'db sqlite \<Rightarrow> ('db \<Rightarrow> tables) \<Rightarrow> bool" where
  "sqlite_ok sq tab \<longleftrightarrow>
     (\<forall>r d. tab (snd (insert_order sq r d)) =
        (if fst (insert_order sq r d)
         then (tab d)\<lparr>tb_orders := filter (\<lambda>x. r_id x \<noteq> r_id r) (tb_orders (tab d)) @ [r]\<rparr> else tab d)) \<and>
     (\<forall>n s ty i d. tab (snd (update_order sq n s ty i d)) =
        (if fst (update_order sq n s ty i d)
         then (tab d)\<lparr>tb_orders := map (updated_row n s ty i) (tb_orders (tab d))\<rparr> else tab d)) \<and>
     (\<forall>smb d. mset (select_active sq smb d) =
        mset (filter (\<lambda>r. is_active_row r \<and> (smb = None \<or> smb = Some (r_symbol r))) (tb_orders (tab d))) \<and>
        sorted (map r_created_at (select_active sq smb d))) \<and>
     (\<forall>t d. tab (snd (insert_trade sq t d)) =
        (if fst (insert_trade sq t d) then (tab d)\<lparr>tb_trades := tb_trades (tab d) @ [t]\<rparr> else tab d)) \<and>
     (\<forall>u d. tab (snd (insert_user sq u d)) =
        (if fst (insert_user sq u d)
         then (tab d)\<lparr>tb_users := filter (\<lambda>x. u_username x \<noteq> u_username u) (tb_users (tab d)) @ [u]\<rparr>
         else tab d)) \<and>
     (\<forall>n d. select_user sq n d = filter (\<lambda>u. u_username u = n) (tb_users (tab d))) \<and>
     (\<forall>d. count_users sq d = Some [int (length (tb_users (tab d)))])"

lemma sqlite_okD:
  assumes "sqlite_ok sq tab"
  shows "tab (snd (insert_order sq r d)) = (if fst (insert_order sq r d)
         then (tab d)\<lparr>tb_orders := filter (\<lambda>x. r_id x \<noteq> r_id r) (tb_orders (tab d)) @ [r]\<rparr> else tab d)"
    "tab (snd (update_order sq n s ty i d)) = (if fst (update_order sq n s ty i d)
         then (tab d)\<lparr>tb_orders := map (updated_row n s ty i) (tb_orders (tab d))\<rparr> else tab d)"
    "mset (select_active sq smb d) =
       mset (filter (\<lambda>r. is_active_row r \<and> (smb = None \<or> smb = Some (r_symbol r))) (tb_orders (tab d)))"
    "sorted (map r_created_at (select_active sq smb d))"
    "tab (snd (insert_trade sq t d)) =
       (if fst (insert_trade sq t d) then (tab d)\<lparr>tb_trades := tb_trades (tab d) @ [t]\<rparr> else tab d)"
    "tab (snd (insert_user sq u d)) = (if fst (insert_user sq u d)
         then (tab d)\<lparr>tb_users := filter (\<lambda>x. u_username x \<noteq> u_username u) (tb_users (tab d)) @ [u]\<rparr>
         else tab d)"
    "select_user sq nm d = filter (\<lambda>u. u_username u = nm) (tb_users (tab d))"
    "count_users sq d = Some [int (length (tb_users (tab d)))]"
  using assms unfolding sqlite_ok_def by blast+

text \<open>Tables in memory, an instance of the documented behaviour.\<close>

definition mem_sqlite :: "tables sqlite" where
  "mem_sqlite =
     \<lparr>sqlite_open = (\<lambda>_. Some \<lparr>tb_orders = [], tb_trades = [], tb_users = []\<rparr>),
      sqlite_exec = (\<lambda>_ d. (True, d)),
      insert_order = (\<lambda>r d. (True, d\<lparr>tb_orders := filter (\<lambda>x. r_id x \<noteq> r_id r) (tb_orders d) @ [r]\<rparr>)),
      update_order = (\<lambda>n s ty i d. (True, d\<lparr>tb_orders := map (updated_row n s ty i) (tb_orders d)\<rparr>)),
      select_active = (\<lambda>smb d. sort_key r_created_at
        (filter (\<lambda>r. is_active_row r \<and> (smb = None \<or> smb = Some (r_symbol r))) (tb_orders d))),
      insert_trade = (\<lambda>t d. (True, d\<lparr>tb_trades := tb_trades d @ [t]\<rparr>)),
      select_trades = (\<lambda>smb n d. take (nat n) (rev (filter (\<lambda>t. w_symbol t = smb) (tb_trades d)))),
      insert_user = (\<lambda>u d. (True, d\<lparr>tb_users := filter (\<lambda>x. u_username x \<noteq> u_username u) (tb_users d) @ [u]\<rparr>)),
      select_user = (\<lambda>nm d. filter (\<lambda>u. u_username u = nm) (tb_users d)),
      count_users = (\<lambda>d. Some [int (length (tb_users d))])\<rparr>"

lemma mem_sqlite_ok: "sqlite_ok mem_sqlite (\<lambda>d. d)"
  by (simp add: sqlite_ok_def mem_sqlite_def)

subsection \<open>Texts\<close>

lemma c_str_id: "CHR 0x00 \<notin> set s \<Longrightarrow> c_str s = s"
  unfolding c_str_def by (subst takeWhile_eq_all_conv) auto

lemma c_str_idem [simp]: "c_str (c_str s) = c_str s"
  by (rule c_str_id) (auto simp: c_str_def dest: set_takeWhileD)

lemma store_text_roundtrip [simp]:
  "stringToSide (sideToString sd) = sd" "stringToType (typeToString ty) = ty"
  by (simp add: stringToSide_def sideToString_def, cases sd, simp_all) (cases ty, simp_all add: stringToType_def)

lemma status_roundtrip_store: "stringToStatus (statusToString s) = s"
  by (cases s) (simp_all add: stringToStatus_def)

lemma active_row: "is_active_row r \<longleftrightarrow> active ord" if "r_status r = statusToString (o_status ord)"
  using that by (cases "o_status ord") (simp_all add: is_active_row_def active_def)

lemma word_of_sint [simp]: "word_of_int (sint (w :: u32)) = w"
  by simp

subsection \<open>Orders\<close>

lemma order_of_row_id [simp]: "o_id (order_of_row now r) = r_id r"
  by (simp add: order_of_row_def Let_def new_order_def)

text \<open>The objects without the time stamps of the restart.\<close>

definition untimed :: "order \<Rightarrow> order" where
  "untimed ord = ord\<lparr>o_timestamp := 0\<rparr>"

lemma untimed_id [simp]: "o_id (untimed ord) = o_id ord"
  by (simp add: untimed_def)

lemma untimed_row: "untimed (order_of_row t r) = order_of_row 0 r"
  by (simp add: untimed_def order_of_row_def Let_def new_order_def fill_def)

lemma untimed_rows: "map untimed (orders_of_rows now rows) = map (order_of_row 0) rows"
  by (rule nth_equalityI) (simp_all add: orders_of_rows_def untimed_row)

text \<open>
  The order object a restart makes of the row of an order: what was left of it is its new quantity, and
  the status is worked out again.
\<close>

definition restored :: "order \<Rightarrow> order" where
  "restored ord = ord\<lparr>o_quantity := o_remaining ord, o_timestamp := 0,
     o_status := (if o_remaining ord < o_quantity ord then if o_remaining ord = 0 then FILLED else PARTIAL else PENDING)\<rparr>"

definition storable :: "order \<Rightarrow> bool" where
  "storable ord \<longleftrightarrow> CHR 0x00 \<notin> set (o_id ord) \<and> CHR 0x00 \<notin> set (o_client_id ord) \<and>
     CHR 0x00 \<notin> set (o_symbol ord)"

text \<open>The terms of an order, which neither trading nor cancelling changes.\<close>

definition same_terms :: "order \<Rightarrow> order \<Rightarrow> bool" where
  "same_terms a b \<longleftrightarrow> o_id b = o_id a \<and> o_client_id b = o_client_id a \<and> o_symbol b = o_symbol a \<and>
     o_side b = o_side a \<and> o_price b = o_price a \<and> o_stop_price b = o_stop_price a \<and>
     o_quantity b = o_quantity a"

definition current_row :: "time \<Rightarrow> order \<Rightarrow> order \<Rightarrow> order_row" where
  "current_row now ord ord' = (order_row_of now ord)
     \<lparr>r_remaining_quantity := sint (o_remaining ord'), r_status := statusToString (o_status ord'),
      r_order_type := typeToString (o_type ord')\<rparr>"

lemma order_of_current_row:
  assumes "storable ord'" and "same_terms ord ord'"
  shows "order_of_row 0 (current_row now ord ord') = restored ord'"
proof -
  have "c_str (o_id ord) = o_id ord'" "c_str (o_client_id ord) = o_client_id ord'"
    "c_str (o_symbol ord) = o_symbol ord'"
    using assms by (auto simp: storable_def same_terms_def intro!: c_str_id)
  then show ?thesis using assms(2)
    by (cases ord') (simp add: order_of_row_def current_row_def order_row_of_def same_terms_def restored_def
        new_order_def fill_def Let_def)
qed

lemma update_rows:
  "map (updated_row n s ty i) (filter (\<lambda>x. r_id x \<noteq> i) rows @ [r]) =
     filter (\<lambda>x. r_id x \<noteq> i) rows @ [updated_row n s ty i r]"
  by (induction rows) (simp_all add: updated_row_def)

lemma saved_updated_rows:
  assumes ok: "sqlite_ok sq tab" and save: "saveOrder sq now (Some ord) st = (True, st1)"
    and upd: "updateOrder sq (Some ord') st1 = (True, st2)" and i: "o_id ord' = o_id ord"
  obtains d d2 where "os_db st = Some d" "os_db st2 = Some d2"
    "tb_orders (tab d2) =
       filter (\<lambda>x. r_id x \<noteq> c_str (o_id ord)) (tb_orders (tab d)) @ [current_row now ord ord']"
proof -
  obtain d where d: "os_db st = Some d" using save by (cases "os_db st") (simp_all add: saveOrder_def)
  obtain d1 where d1: "insert_order sq (order_row_of now ord) d = (True, d1)" "st1 = st\<lparr>os_db := Some d1\<rparr>"
    using save d by (cases "insert_order sq (order_row_of now ord) d") (auto simp: saveOrder_def)
  let ?u = "update_order sq (sint (o_remaining ord')) (statusToString (o_status ord'))
    (typeToString (o_type ord')) (c_str (o_id ord')) d1"
  obtain d2 where d2: "?u = (True, d2)" "os_db st2 = Some d2"
    using upd d1(2) by (cases ?u) (auto simp: updateOrder_def)
  have t1: "tb_orders (tab d1) = filter (\<lambda>x. r_id x \<noteq> c_str (o_id ord)) (tb_orders (tab d)) @ [order_row_of now ord]"
    using sqlite_okD(1)[OF ok, of "order_row_of now ord" d] d1(1) by (simp add: order_row_of_def)
  have t2: "tb_orders (tab d2) = map (updated_row (sint (o_remaining ord')) (statusToString (o_status ord'))
      (typeToString (o_type ord')) (c_str (o_id ord'))) (tb_orders (tab d1))"
    using sqlite_okD(2)[OF ok, of "sint (o_remaining ord')" "statusToString (o_status ord')"
        "typeToString (o_type ord')" "c_str (o_id ord')" d1] d2(1) by simp
  show thesis
  proof (rule that[OF d d2(2)])
    show "tb_orders (tab d2) =
       filter (\<lambda>x. r_id x \<noteq> c_str (o_id ord)) (tb_orders (tab d)) @ [current_row now ord ord']"
      unfolding t2 t1 i update_rows by (simp add: updated_row_def current_row_def order_row_of_def)
  qed
qed

lemma loaded_rows:
  assumes ok: "sqlite_ok sq tab" and d: "os_db st = Some d"
  shows "mset (filter (\<lambda>x. Q (o_id x)) (map untimed (loadAllActiveOrders sq t st))) =
    mset (map (order_of_row 0) (filter (\<lambda>r. Q (r_id r)) (filter is_active_row (tb_orders (tab d)))))"
proof -
  have m: "mset (select_active sq None d) = mset (filter is_active_row (tb_orders (tab d)))"
    using sqlite_okD(3)[OF ok, of None d] by simp
  have "mset (filter (\<lambda>x. Q (o_id x)) (map untimed (loadAllActiveOrders sq t st))) =
      image_mset (order_of_row 0) (filter_mset (\<lambda>r. Q (r_id r)) (mset (select_active sq None d)))"
    by (simp add: loadAllActiveOrders_def d untimed_rows filter_map comp_def)
  then show ?thesis unfolding m by (simp only: mset_map mset_filter)
qed

text \<open>
  C30. Restoring orders. After an order has been saved and then updated, the restart query returns
  exactly one order object for it while it is active, with the same identity, owner, side,
  type, prices and the current remainder (its time stamps apart), and none once it is filled or cancelled; the objects for
  all other orders are what they would have been before. The original quantity is lost: the
  remainder becomes the quantity of the restored order.
\<close>

theorem save_update_load:
  assumes ok: "sqlite_ok sq tab" and save: "saveOrder sq now (Some ord) st = (True, st1)"
    and upd: "updateOrder sq (Some ord') st1 = (True, st2)" and ord': "storable ord'" "same_terms ord ord'"
  shows "filter (\<lambda>x. o_id x = o_id ord) (map untimed (loadAllActiveOrders sq t st2)) =
           (if active ord' then [restored ord'] else []) \<and>
         mset (filter (\<lambda>x. o_id x \<noteq> o_id ord) (map untimed (loadAllActiveOrders sq t st2))) =
           mset (filter (\<lambda>x. o_id x \<noteq> o_id ord) (map untimed (loadAllActiveOrders sq t st)))"
proof -
  have i: "o_id ord' = o_id ord" "c_str (o_id ord) = o_id ord"
    using ord' c_str_id[of "o_id ord'"] by (auto simp: same_terms_def storable_def)
  obtain d d2 where d: "os_db st = Some d" "os_db st2 = Some d2"
    and rows: "tb_orders (tab d2) = filter (\<lambda>x. r_id x \<noteq> o_id ord) (tb_orders (tab d)) @ [current_row now ord ord']"
    using saved_updated_rows[OF ok save upd i(1)] i(2) by metis
  have cur: "r_id (current_row now ord ord') = o_id ord" "is_active_row (current_row now ord ord') = active ord'"
    using active_row[of "current_row now ord ord'" ord'] i(2) by (simp_all add: current_row_def order_row_of_def)
  have "mset (filter (\<lambda>x. o_id x = o_id ord) (map untimed (loadAllActiveOrders sq t st2))) =
      (if active ord' then {#restored ord'#} else {#})"
    unfolding loaded_rows[OF ok d(2), where Q = "\<lambda>i. i = o_id ord"] rows
    using cur order_of_current_row[OF ord', of now] by (simp add: filter_empty_conv)
  then have "filter (\<lambda>x. o_id x = o_id ord) (map untimed (loadAllActiveOrders sq t st2)) =
      (if active ord' then [restored ord'] else [])"
    by (simp del: mset_filter split: if_splits)
  moreover have "filter (\<lambda>r. r_id r \<noteq> o_id ord) (filter is_active_row (tb_orders (tab d2))) =
      filter (\<lambda>r. r_id r \<noteq> o_id ord) (filter is_active_row (tb_orders (tab d)))"
    unfolding rows using cur by (auto intro: filter_cong)
  ultimately show ?thesis
    unfolding loaded_rows[OF ok d(1), where Q = "\<lambda>i. i \<noteq> o_id ord"]
      loaded_rows[OF ok d(2), where Q = "\<lambda>i. i \<noteq> o_id ord"] by simp
qed

text \<open>A limit order of ten that is saved, fills four, or all, and is updated.\<close>

definition sample_order :: order where
  "sample_order = new_order 7 ''o1'' BUY 100 10 ''AAPL'' ''c1'' LIMIT 0"

definition empty_store :: "tables order_store" where
  "empty_store = \<lparr>os_path = ''x.db'', os_db = Some \<lparr>tb_orders = [], tb_trades = [], tb_users = []\<rparr>\<rparr>"

abbreviation store_filled :: "u32 \<Rightarrow> tables order_store" where
  "store_filled n \<equiv> snd (updateOrder mem_sqlite (Some (snd (fill sample_order n)))
     (snd (saveOrder mem_sqlite 0 (Some sample_order) empty_store)))"

lemma sample_filled:
  "snd (fill sample_order 4) = sample_order\<lparr>o_remaining := 6, o_status := PARTIAL\<rparr>"
  "snd (fill sample_order 10) = sample_order\<lparr>o_remaining := 0, o_status := FILLED\<rparr>"
  by (simp_all add: fill_def sample_order_def new_order_def Let_def)

theorem save_update_load_witness:
  "filter (\<lambda>x. o_id x = ''o1'') (map untimed (loadAllActiveOrders mem_sqlite (\<lambda>k. 9) (store_filled 4))) =
     [sample_order\<lparr>o_quantity := 6, o_remaining := 6, o_status := PARTIAL, o_timestamp := 0\<rparr>] \<and>
   filter (\<lambda>x. o_id x = ''o1'') (map untimed (loadAllActiveOrders mem_sqlite (\<lambda>k. 9) (store_filled 10))) = []"
proof -
  have i: "o_id sample_order = ''o1''" "o_quantity sample_order = 10" by (simp_all add: sample_order_def new_order_def)
  let ?s1 = "snd (saveOrder mem_sqlite 0 (Some sample_order) empty_store)"
  have run: "saveOrder mem_sqlite 0 (Some sample_order) empty_store = (True, ?s1)"
    "updateOrder mem_sqlite (Some (snd (fill sample_order n))) ?s1 = (True, store_filled n)" for n
    by (simp_all add: saveOrder_def updateOrder_def empty_store_def mem_sqlite_def)
  have ok: "storable (snd (fill sample_order n))" "same_terms sample_order (snd (fill sample_order n))" for n
    by (simp_all add: storable_def same_terms_def sample_order_def new_order_def fill_def Let_def)
  note main = save_update_load[OF mem_sqlite_ok run(1) run(2) ok, of "\<lambda>k. 9", unfolded i(1)]
  from main[of 4] main[of 10] show ?thesis
    by (simp add: sample_filled active_def restored_def i)
qed

subsection \<open>Users\<close>

lemma hashPassword_text:
  assumes "\<And>i. draw i < 16"
  shows "c_str (hashPassword draw password) = hashPassword draw password" "hashPassword draw password \<noteq> []"
proof -
  have hex: "CHR 0x00 \<notin> set s" if "set s \<subseteq> set ''0123456789abcdef''" for s
    using that by auto
  have "CHR 0x00 \<notin> set (generateSalt draw 16)"
    by (rule hex) (use generateSalt_shape[where draw = draw, OF assms] in blast)
  moreover have "CHR 0x00 \<notin> set (sha256 (generateSalt draw 16 @ password))"
    by (rule hex) (use sha256_shape in blast)
  ultimately have "CHR 0x00 \<notin> set (hashPassword draw password)" by (simp add: hashPassword_def Let_def)
  then show "c_str (hashPassword draw password) = hashPassword draw password" by (rule c_str_id)
  show "hashPassword draw password \<noteq> []" by (simp add: hashPassword_def Let_def)
qed

definition stored_user :: "(nat \<Rightarrow> nat) \<Rightarrow> UserRecord \<Rightarrow> UserRecord" where
  "stored_user draw u =
     \<lparr>u_username = c_str (u_username u),
      u_password = c_str (if u_password u = [] then [] else hashPassword draw (u_password u)),
      u_permissions = c_str (u_permissions u)\<rparr>"

lemma saveUser_lookup:
  assumes ok: "sqlite_ok sq tab" and save: "saveUser sq draw u st = (True, st')"
  shows "getUser sq v st' = (if c_str v = c_str (u_username u) then Some (stored_user draw u) else getUser sq v st)"
proof -
  obtain d where d: "os_db st = Some d" using save by (cases "os_db st") (simp_all add: saveUser_def)
  obtain d1 where d1: "insert_user sq (stored_user draw u) d = (True, d1)" "os_db st' = Some d1"
    using save d by (cases "insert_user sq (stored_user draw u) d") (auto simp: saveUser_def stored_user_def Let_def)
  have t: "tb_users (tab d1) =
      filter (\<lambda>x. u_username x \<noteq> c_str (u_username u)) (tb_users (tab d)) @ [stored_user draw u]"
    using sqlite_okD(6)[OF ok, of "stored_user draw u" d] d1(1) by (simp add: stored_user_def)
  have rows: "filter (\<lambda>x. u_username x = n) (filter (\<lambda>x. u_username x \<noteq> n) xs) = []"
    "n \<noteq> m \<Longrightarrow> filter (\<lambda>x. u_username x = m) (filter (\<lambda>x. u_username x \<noteq> n) xs) = filter (\<lambda>x. u_username x = m) xs"
    for n m and xs :: "UserRecord list" by (auto simp: filter_empty_conv intro: filter_cong)
  show ?thesis
  proof (cases "c_str v = c_str (u_username u)")
    case True
    then show ?thesis
      using rows(1)[of "c_str (u_username u)"]
      by (simp add: getUser_def d1(2) sqlite_okD(7)[OF ok] t) (simp add: stored_user_def)
  next
    case False
    then have "filter (\<lambda>x. u_username x = c_str v) (tb_users (tab d1)) = filter (\<lambda>x. u_username x = c_str v) (tb_users (tab d))"
      unfolding t filter_append using rows(2)[of "c_str (u_username u)" "c_str v"] by (simp add: stored_user_def)
    with False show ?thesis by (simp add: getUser_def d d1(2) sqlite_okD(7)[OF ok])
  qed
qed

lemma saveUser_accepts:
  assumes ok: "sqlite_ok sq tab" and save: "saveUser sq draw u st = (True, st')" and draw: "\<And>i. draw i < 16"
  shows "authenticateUser sq (u_username u) p st' \<longleftrightarrow>
     (if u_password u = [] then p = []
      else sha256 (generateSalt draw 16 @ p) = sha256 (generateSalt draw 16 @ u_password u))"
proof -
  have c: "CHR '':'' \<notin> set (generateSalt draw 16)"
    using generateSalt_shape[where draw = draw, OF draw] no_colon_hex by blast
  have "verifyPassword p (hashPassword draw (u_password u)) \<longleftrightarrow>
      sha256 (generateSalt draw 16 @ p) = sha256 (generateSalt draw 16 @ u_password u)"
    unfolding hashPassword_def Let_def by (rule verifyPassword_stored[OF _ c]) simp
  then show ?thesis
    using hashPassword_text[where draw = draw, OF draw]
    by (simp add: authenticateUser_def saveUser_lookup[OF ok save] stored_user_def) (simp add: c_str_def)
qed

text \<open>
  C34. Accounts. A user that was saved is accepted with a password exactly when the salted digests
  agree (an account without password only with the empty one), and saving touches no other
  account. Names are compared up to their first null character.
\<close>

theorem saveUser_authenticate:
  assumes "sqlite_ok sq tab" and "saveUser sq draw u st = (True, st')" and "\<And>i. draw i < 16"
  shows "(authenticateUser sq (u_username u) p st' \<longleftrightarrow>
            (if u_password u = [] then p = []
             else sha256 (generateSalt draw 16 @ p) = sha256 (generateSalt draw 16 @ u_password u))) \<and>
         (c_str v \<noteq> c_str (u_username u) \<longrightarrow> authenticateUser sq v p st' = authenticateUser sq v p st)"
  using saveUser_accepts[OF assms] saveUser_lookup[OF assms(1,2), of v] by (simp add: authenticateUser_def)

theorem saveUser_authenticate_witness:
  "authenticateUser mem_sqlite ''bob'' ''s3cret''
     (snd (saveUser mem_sqlite (\<lambda>i. i mod 16) \<lparr>u_username = ''bob'', u_password = ''s3cret'', u_permissions = ''view''\<rparr>
        empty_store)) \<and>
   \<not> authenticateUser mem_sqlite ''eve'' ''s3cret''
     (snd (saveUser mem_sqlite (\<lambda>i. i mod 16) \<lparr>u_username = ''bob'', u_password = ''s3cret'', u_permissions = ''view''\<rparr>
        empty_store))"
proof -
  let ?u = "\<lparr>u_username = ''bob'', u_password = ''s3cret'', u_permissions = ''view''\<rparr>"
  let ?s = "snd (saveUser mem_sqlite (\<lambda>i. i mod 16) ?u empty_store)"
  have s: "saveUser mem_sqlite (\<lambda>i. i mod 16) ?u empty_store = (True, ?s)"
    by (simp add: saveUser_def empty_store_def mem_sqlite_def Let_def)
  have e: "c_str ''eve'' \<noteq> c_str (u_username ?u)" "\<not> authenticateUser mem_sqlite ''eve'' ''s3cret'' empty_store"
    by (simp_all add: c_str_def authenticateUser_def getUser_def empty_store_def mem_sqlite_def)
  show ?thesis
    using saveUser_authenticate[OF mem_sqlite_ok s, of "''s3cret''" "''eve''"] e by simp
qed

end
