(* ===== verification/Server_Theorems.thy ===== *)
theory Server_Theorems
  imports Server_Inv Store_Props
begin

text \<open>
  The properties of the server: it always answers and keeps its books consistent, it lets nobody past
  the permission checks, submissions act on their book exactly as \<^verbatim>\<open>addOrder\<close> does and are recorded under their
  session, only owners cancel, market data goes to the subscribers, accounts work across
  registration and login, and disconnecting cleans up; stopping it with a client connected deadlocks.
\<close>

subsection \<open>A world for the witnesses\<close>

definition sample_world :: "tables world" where
  "sample_world = \<lparr>w_env = utc_env, w_sql = mem_sqlite, w_clock = (\<lambda>k. int k), w_iso = (\<lambda>k. int k),
     w_dis = (\<lambda>i. 1), w_dis2 = 8, w_salt = (\<lambda>k i. i mod 16), w_restore_clock = (\<lambda>k j. 0),
     w_restore_iso = (\<lambda>k j. 0), w_unspecified = 0\<rparr>"

text \<open>A server with one book and one connected client.\<close>

definition sample_server :: "tables server" where
  "sample_server = accept_done sample_world True (snd (createOrderbookTick ''ACME'' 1 new_server))"

lemma sample_server_reachable: "reachable_server sample_server"
proof -
  have "reachable_server (snd (createOrderbookTick ''ACME'' 1 new_server))"
    using reachable_server.init server_step.create by (rule reachable_server.step)
  then show ?thesis
    unfolding sample_server_def using server_step.accept by (rule reachable_server.step)
qed

subsection \<open>Serving\<close>

text \<open>
  C9. In every state the server reaches, under any interleaving of connections, completions, timer
  ticks, generator turns and administration, each of its books is a reachable and consistent
  order book of its own symbol; and every message of every session is handled to the end, as is every
  operation of a session and every posted order.
\<close>

theorem server_serves:
  assumes "reachable_server srv"
  shows "(\<forall>smb b. getOrderbook smb srv = Some b \<longrightarrow> reachable_book b \<and> book_inv b \<and> symbol b = smb) \<and>
    handleMessage w message p srv \<noteq> None \<and>
    session_op w {} (session_run_action (w_env w) a) p srv \<noteq> None \<and>
    run_posted w srv \<noteq> None"
proof (intro conjI allI impI)
  note inv = reachable_server_inv[OF assms]
  fix smb b assume "getOrderbook smb srv = Some b"
  then have "served_book smb b"
    using inv svc.served_find[of "next_order srv" "orderbooks srv" smb b] by (simp add: server_inv_def getOrderbook_def)
  then show "reachable_book b" "book_inv b" "symbol b = smb" by (auto simp: served_book_def intro: reachable_inv)
next
  note inv = reachable_server_inv[OF assms]
  show "handleMessage w message p srv \<noteq> None" using handleMessage_returns[OF inv, of w message p] by auto
  show "session_op w {} (session_run_action (w_env w) a) p srv \<noteq> None"
    using session_op_returns[OF inv, of w "w_env w" a p] by auto
  show "run_posted w srv \<noteq> None" using run_posted_returns[OF inv, of w] by auto
qed

theorem server_serves_witness:
  "handleMessage sample_world (Some (SnapshotRequest \<lparr>req_symbol = ''ACME''\<rparr>)) 0 sample_server \<noteq> None"
  using server_serves[OF sample_server_reachable] by blast

subsection \<open>Authorisation\<close>

fun needed_permission :: "Message \<Rightarrow> string option" where
  "needed_permission (OrderSubmit m) = Some ''trade''"
| "needed_permission (OrderCancel m) = Some ''trade''"
| "needed_permission (OrderStatusMsg m) = Some ''view''"
| "needed_permission (SnapshotRequest m) = Some ''view''"
| "needed_permission _ = None"

text \<open>
  C10. Access control. While authentication is required, a request from a session that has not
  logged in, or lacks the permission the request needs, has no effect but the error sent back:
  no book, owner, subscription, account or other session changes.
\<close>

theorem requests_guarded:
  assumes "auth_required srv" and "needed_permission m = Some perm"
    and "\<not> (s_authenticated (session_heap srv p) \<and> hasPermission perm (session_heap srv p))"
  shows "handleMessage w (Some m) p srv = Some (send_to w p
    (if s_authenticated (session_heap srv p)
     then error_message ''PERMISSION_DENIED'' (''Missing permission: '' @ perm)
     else error_message ''AUTH_REQUIRED'' ''Login required before this operation'') srv)"
  using assms by (cases m) (auto simp: handleMessage_def guarded_def requireAuth_def Let_def)

theorem requests_guarded_witness:
  "handleMessage sample_world (Some (OrderCancel \<lparr>can_order_id = ''x'', can_client_id = []\<rparr>)) 0
     (sample_server\<lparr>auth_required := True\<rparr>) =
   Some (send_to sample_world 0 (error_message ''AUTH_REQUIRED'' ''Login required before this operation'')
     (sample_server\<lparr>auth_required := True\<rparr>))"
proof -
  have "\<not> s_authenticated (session_heap (sample_server\<lparr>auth_required := True\<rparr>) 0)"
    by (simp add: sample_server_def accept_done_def Let_def set_session_def createOrderbookTick_def new_server_def
        start_def doRead_def setDisconnectCallback_def new_session_def)
  then show ?thesis
    using requests_guarded[of "sample_server\<lparr>auth_required := True\<rparr>" "OrderCancel \<lparr>can_order_id = ''x'', can_client_id = []\<rparr>"
        "''trade''" 0 sample_world] by simp
qed

subsection \<open>Submitting\<close>

lemma write_send:
  "write_messages (session_heap (send_to w p m srv) q) =
     write_messages (session_heap srv q) @ (if q = p then [frameMessage (serialize (w_env w) m)] else [])"
  by (simp add: send_to_def set_session_def sendMessage_def doWriteNext_def Let_def split: list.split)

lemma run_books [simp]:
  "orderbooks (run_callbacks w k b evs srv) = orderbooks srv"
  "client_of p (run_callbacks w k b evs srv) = client_of p srv"
  "subscriptions (run_callbacks w k b evs srv) = subscriptions srv"
  "sessions (run_callbacks w k b evs srv) = sessions srv"
  using notifies_run[of srv w k b evs]
    identity_client[of "session_heap (run_callbacks w k b evs srv) p" "session_heap srv p"]
  unfolding notifies_def by blast+

lemma send_books [simp]:
  "orderbooks (send_to w p m srv) = orderbooks srv" "order_owners (send_to w p m srv) = order_owners srv"
  "subscriptions (send_to w p m srv) = subscriptions srv" "sessions (send_to w p m srv) = sessions srv"
  "order_store (send_to w p m srv) = order_store srv" "order_generator (send_to w p m srv) = order_generator srv"
  by (simp_all add: send_to_def set_session_def)

lemma submit_at_id:
  assumes "served_book smb b" and "book_below q b" and "submittable ord"
    and "submit_at now q ord b = Some (ok, evs, b')"
  shows "o_id (heap b' q) = o_id ord"
proof (cases "o_remaining ord = 0")
  case True
  with assms(4) show ?thesis by (auto simp: submit_at_def addOrder_def)
next
  case False
  have c: "book_inv (set_order q ord b)"
    using assms(1) below_not_ran[OF assms(2)] by (auto simp: served_book_def intro: alloc_inv reachable_inv)
  show ?thesis
  proof (rule addOrder_run[OF c, of q now])
    fix b1 assume "process_new now q (enter q (set_order q ord b)) = Some b1" "entered q (enter q (set_order q ord b))"
      "addOrder now (Some q) (set_order q ord b) = Some (True, callbacks q b1, b1)"
    then show ?thesis
      using ledger.R_new[of now q _ b1] assms(4) by (simp add: submit_at_def ledger_def enter_def)
  qed (use assms(3,4) False in \<open>simp_all add: submittable_def submit_at_def\<close>)
qed

definition subscribed :: "string \<Rightarrow> string \<Rightarrow> 'db server \<Rightarrow> bool" where
  "subscribed client_id smb srv \<longleftrightarrow>
     (case map_find (subscriptions srv) client_id of None \<Rightarrow> False | Some syms \<Rightarrow> smb \<in> syms)"

text \<open>The order a submission stands for.\<close>

definition submitted_order :: "'db world \<Rightarrow> OrderSubmitMessage \<Rightarrow> book \<Rightarrow> order" where
  "submitted_order w m b = new_order (w_clock w 0) (uuid w) (sub_side m)
     (if sub_order_type m = MARKET \<or> sub_order_type m = STOP then 0 else submit_price w (sub_price m) b)
     (sub_quantity m) (sub_symbol m) (sub_client_id m) (sub_order_type m) (sub_stop_price m)"

text \<open>
  C4. Submitting, on the server, is submitting to the book. A submission for a known symbol changes
  that book exactly as \<^verbatim>\<open>addOrder\<close> changes it for the order the message stands for, and no other book; the
  session is recorded as the owner of the new id (also when the order is already filled or was
  refused) and subscribed to the symbol, and the last message it is sent is the final status of the order.
\<close>

theorem submit_refines_addOrder:
  assumes "reachable_server srv" and "getOrderbook (sub_symbol m) srv = Some b"
  shows "\<exists>ok evs b' srv'.
    addOrder (\<lambda>k. w_clock w (k + 2)) (Some (next_order srv)) (set_order (next_order srv) (submitted_order w m b) b) =
      Some (ok, evs, b') \<and>
    handleOrderSubmit w m p srv = Some srv' \<and>
    getOrderbook (sub_symbol m) srv' = Some b' \<and>
    (\<forall>smb. smb \<noteq> sub_symbol m \<longrightarrow> getOrderbook smb srv' = getOrderbook smb srv) \<and>
    order_owners srv' (uuid w) = Some (client_of p srv) \<and> subscribed (client_of p srv) (sub_symbol m) srv' \<and>
    last (write_messages (session_heap srv' p)) =
      frameMessage (serialize (w_env w) (status_message (heap b' (next_order srv))))"
proof -
  let ?q = "next_order srv" and ?ord = "submitted_order w m b" and ?now = "\<lambda>k. w_clock w (k + 2)"
  have served: "svc.served ?q (orderbooks srv)" and b: "map_find (orderbooks srv) (sub_symbol m) = Some b"
    using reachable_server_inv[OF assms(1)] assms(2) by (simp_all add: server_inv_def getOrderbook_def)
  note sb = svc.served_find[OF served b]
  have new: "submittable ?ord" unfolding submitted_order_def by (rule submittable_new)
  obtain ok evs b' where run: "submit_at ?now ?q ?ord b = Some (ok, evs, b')"
    using submit_at_returns[of "sub_symbol m" b ?q ?ord ?now] sb new by blast
  have i: "o_id (heap b' ?q) = uuid w"
    using submit_at_id[of "sub_symbol m" b ?q ?ord ?now] sb new run by (simp add: submitted_order_def new_order_def)
  define srv1 where "srv1 = subscribe (client_of p srv) (sub_symbol m) srv"
  define srv2 where "srv2 = srv1\<lparr>order_store := map_option (\<lambda>st. snd (saveOrder (w_sql w) (w_clock w 1) (Some ?ord) st)) (order_store srv1)\<rparr>"
  define srv3 where "srv3 = run_callbacks w 0 b' evs (srv2\<lparr>orderbooks := map_put (sub_symbol m) b' (orderbooks srv2), next_order := Suc ?q\<rparr>)"
  define srv4 where "srv4 = srv3\<lparr>order_owners := (order_owners srv3)(uuid w \<mapsto> client_of p srv)\<rparr>"
  have "next_order srv2 = ?q" by (simp add: srv2_def srv1_def subscribe_def)
  then have "add_to_book w (sub_symbol m) b ?ord srv2 = Some (heap b' ?q, srv3)"
    using run by (simp add: add_to_book_def submit_at_def srv3_def Let_def)
  moreover have cl: "client_of p srv3 = client_of p srv" by (simp add: srv3_def srv2_def srv1_def subscribe_def)
  ultimately have h: "handleOrderSubmit w m p srv = Some (send_to w p (status_message (heap b' ?q)) srv4)"
    using assms(2) i unfolding handleOrderSubmit_def srv4_def srv2_def srv1_def submitted_order_def Let_def by simp
  have books: "orderbooks srv4 = map_put (sub_symbol m) b' (orderbooks srv)"
    "subscriptions srv4 = subscriptions srv1"
    by (simp_all add: srv4_def srv3_def srv2_def srv1_def subscribe_def)
  then have "subscribed (client_of p srv) (sub_symbol m) srv4"
    by (simp add: subscribed_def srv1_def subscribe_def map_find_put)
  then show ?thesis
    using run h books by (intro exI[of _ ok] exI[of _ evs] exI[of _ b'] exI[of _ "send_to w p (status_message (heap b' ?q)) srv4"])
      (auto simp: submit_at_def getOrderbook_def map_find_put write_send srv4_def subscribed_def)
qed

definition sample_submission :: OrderSubmitMessage where
  "sample_submission = \<lparr>sub_client_id = ''me'', sub_symbol = ''ACME'', sub_side = BUY, sub_order_type = LIMIT,
     sub_price = 10, sub_stop_price = 0, sub_quantity = 5\<rparr>"

theorem submit_refines_addOrder_witness:
  "\<exists>srv'. handleOrderSubmit sample_world sample_submission 0 sample_server = Some srv' \<and>
     order_owners srv' (uuid sample_world) = Some (client_of 0 sample_server)"
proof -
  have "\<exists>b. getOrderbook (sub_symbol sample_submission) sample_server = Some b"
    by (simp add: getOrderbook_def sample_server_def accept_done_def Let_def set_session_def createOrderbookTick_def
        new_server_def sample_submission_def map_find_Cons)
  then show ?thesis using submit_refines_addOrder[OF sample_server_reachable, of sample_submission] by blast
qed

subsection \<open>Cancelling\<close>

definition book_of_order :: "string \<Rightarrow> (string, book) std_map \<Rightarrow> (string \<times> book) option" where
  "book_of_order i m = find (\<lambda>(smb, b). getOrder i b \<noteq> None) m"

text \<open>The sweep over the books cancels in the first one that knows the id and changes no other.\<close>

lemma cancel_sweep_lookup:
  assumes "svc.served n m"
  shows "cancel_sweep i m =
    (case book_of_order i m of
       None \<Rightarrow> (None, m)
     | Some (smb, b) \<Rightarrow>
         case cancelOrder i b of (ok, evs, b') \<Rightarrow> (Some (evs, b'), map_put smb b' m))"
  using assms
proof (induction m)
  case (Cons e m)
  obtain smb b where e: "e = (smb, b)" by (cases e)
  have inv: "book_inv b" using svc.served_entry[OF Cons.prems] e by (auto simp: served_book_def intro: reachable_inv)
  note IH = Cons.IH[OF svc.served_Cons[OF Cons.prems[unfolded e]]]
  show ?case
  proof (cases "orders_by_id b i")
    case None
    then have "cancelOrder i b = (False, [], b)" by (simp add: cancelOrder_def)
    moreover have "smb < smb'" if "book_of_order i m = Some (smb', b')" for smb' b'
    proof -
      have "(smb', b') \<in> set m" using that by (auto simp: book_of_order_def find_Some_iff in_set_conv_nth)
      then show ?thesis using svc.served_inv[OF Cons.prems] by (auto simp: e map_inv_Cons)
    qed
    ultimately show ?thesis using IH None
      by (auto simp: e book_of_order_def getOrder_def split: option.split prod.split)
  next
    case (Some p)
    then show ?thesis using cancelOrder_known[OF inv Some] by (simp add: e book_of_order_def getOrder_def)
  qed
qed (simp add: book_of_order_def)

text \<open>
  C13. Only the owner cancels, and only his order. A request for an order that is not recorded for
  the session has no effect but the error sent back. Otherwise the order leaves the one book
  that knows it, marked as cancelled, no other order and no other book changes, its owner entry is erased
  and the owner, if connected, is sent its status; if no book knows it any more an error is sent.
\<close>

theorem cancel_by_owner:
  assumes "reachable_server srv" and "can_order_id m = i"
  shows "if order_owners srv i \<noteq> Some (client_of p srv)
    then handleOrderCancel w m p srv = send_to w p (error_message ''INVALID_ORDER''
           ''Cannot cancel order: not found or not owned by this client'') srv
    else case book_of_order i (orderbooks srv) of
        None \<Rightarrow> handleOrderCancel w m p srv =
          send_to w p (error_message ''INVALID_ORDER'' ''Order not found for cancellation'') srv
      | Some (smb, b) \<Rightarrow> \<exists>q. getOrder i b = Some q \<and>
          orderbooks (handleOrderCancel w m p srv) = map_put smb (withdraw q b) (orderbooks srv) \<and>
          order_owners (handleOrderCancel w m p srv) = (order_owners srv)(i := None) \<and>
          (client_of p srv \<noteq> [] \<and> sessions srv (client_of p srv) = Some p \<longrightarrow>
             write_messages (session_heap (handleOrderCancel w m p srv) p) = write_messages (session_heap srv p) @
               [frameMessage (serialize (w_env w) (status_message ((heap b q)\<lparr>o_status := CANCELED\<rparr>)))])"
proof -
  have served: "svc.served (next_order srv) (orderbooks srv)"
    using reachable_server_inv[OF assms(1)] by (simp add: server_inv_def)
  note sweep = cancel_sweep_lookup[OF served, of i]
  show ?thesis
  proof (cases "order_owners srv i = Some (client_of p srv)")
    case False
    then show ?thesis using assms(2) by (simp add: handleOrderCancel_def)
  next
    case own: True
    show ?thesis
    proof (cases "book_of_order i (orderbooks srv)")
      case None
      then show ?thesis using own assms(2) sweep by (simp add: handleOrderCancel_def)
    next
      case (Some sb)
      obtain smb b where sb: "sb = (smb, b)" by (cases sb)
      have mem: "(smb, b) \<in> set (orderbooks srv)" and "getOrder i b \<noteq> None"
        using Some sb by (auto simp: book_of_order_def find_Some_iff in_set_conv_nth)
      then obtain q where q: "orders_by_id b i = Some q" by (auto simp: getOrder_def)
      have "served_book smb b" using svc.served_entry[OF served mem] by blast
      then have inv: "book_inv b" and cb: "order_callback b" by (auto simp: served_book_def intro: reachable_inv)
      note known = known_order[OF inv q]
      have heap: "heap (withdraw q b) q = (heap b q)\<lparr>o_status := CANCELED\<rparr>"
        using known(3) by (simp add: withdraw_def open_order_def cancel_def active_iff)
      have run: "handleOrderCancel w m p srv =
          onOrderUpdated w ((heap b q)\<lparr>o_status := CANCELED\<rparr>)
            (srv\<lparr>orderbooks := map_put smb (withdraw q b) (orderbooks srv)\<rparr>)"
        using own assms(2) sweep Some sb cancelOrder_known[OF inv q] cb heap by (simp add: handleOrderCancel_def)
      show ?thesis
        unfolding Some sb using own q known(1)
        by (auto simp: run getOrder_def onOrderUpdated_def Let_def write_send split: option.splits)
    qed
  qed
qed

theorem cancel_by_owner_witness:
  "handleOrderCancel sample_world \<lparr>can_order_id = ''x'', can_client_id = ''me''\<rparr> 0 sample_server =
     send_to sample_world 0 (error_message ''INVALID_ORDER''
       ''Cannot cancel order: not found or not owned by this client'') sample_server"
proof -
  have "order_owners sample_server ''x'' = None"
    by (simp add: sample_server_def accept_done_def Let_def set_session_def createOrderbookTick_def new_server_def)
  then show ?thesis
    using cancel_by_owner[OF sample_server_reachable, of "\<lparr>can_order_id = ''x'', can_client_id = ''me''\<rparr>" "''x''" 0 sample_world]
    by simp
qed

subsection \<open>Market data\<close>

lemma write_sends:
  "write_messages (session_heap (fold (\<lambda>p. send_to w p m) ps srv) q) =
     write_messages (session_heap srv q) @ replicate (count_list ps q) (frameMessage (serialize (w_env w) m))"
  by (induction ps arbitrary: srv) (simp_all add: write_send)

lemma count_subscribers:
  assumes "map_inv m" and "\<And>c p. se c = Some p \<Longrightarrow> c = cl p"
  shows "count_list (List.map_filter (\<lambda>(c, syms). if smb \<in> syms then se c else None) m) p =
    (if se (cl p) = Some p \<and> (case map_find m (cl p) of None \<Rightarrow> False | Some syms \<Rightarrow> smb \<in> syms) then 1 else 0)"
  using assms(1)
proof (induction m)
  case (Cons e m)
  obtain c syms where e: "e = (c, syms)" by (cases e)
  have m: "map_inv m" and c: "map_find m c = None"
    using Cons.prems by (auto simp: e map_inv_Cons map_find_def map_of_eq_None_iff)
  show ?case
  proof (cases "se c = Some p")
    case True
    then have "c = cl p" by (rule assms(2))
    with True c Cons.IH[OF m] show ?thesis by (simp add: e map_filter_simps map_find_Cons)
  next
    case False
    then have "cl p = c \<Longrightarrow> se (cl p) \<noteq> Some p" by simp
    with False Cons.IH[OF m] show ?thesis
      by (auto simp: e map_filter_simps map_find_Cons split: option.splits)
  qed
qed (simp add: map_filter_simps)

text \<open>
  C14. Trades are broadcast: each connected session whose client is subscribed to the symbol of a
  trade is sent the notification exactly once, and no other session is sent anything.
\<close>

theorem trade_broadcast:
  assumes "reachable_server srv"
  shows "write_messages (session_heap (onTradeExecuted w now t srv) p) = write_messages (session_heap srv p) @
    (if sessions srv (client_of p srv) = Some p \<and> subscribed (client_of p srv) (t_symbol t) srv
     then [frameMessage (serialize (w_env w) (trade_message t))] else [])"
proof -
  have inv: "map_inv (subscriptions srv)" "\<And>c p. sessions srv c = Some p \<Longrightarrow> c = client_of p srv"
    using reachable_server_inv[OF assms] by (auto simp: server_inv_def sessions_ok_def)
  have n: "count_list (subscribers (t_symbol t) srv) p =
      (if sessions srv (client_of p srv) = Some p \<and> subscribed (client_of p srv) (t_symbol t) srv then 1 else 0)"
    unfolding subscribers_def subscribed_def
    by (rule count_subscribers[OF inv(1), where se = "sessions srv" and cl = "\<lambda>p. client_of p srv"]) (rule inv(2))
  have same: "subscribers smb (srv\<lparr>trade_count := x, order_generator := g, order_store := st\<rparr>) = subscribers smb srv" for smb x g st
    by (simp add: subscribers_def cong: if_cong)
  show ?thesis
    unfolding onTradeExecuted_def Let_def write_sends by (simp add: same n)
qed

text \<open>The sample client has asked for the book.\<close>

definition watching_server :: "tables server" where
  "watching_server = the (session_op sample_world {} (session_run_action utc_env (Inject ''ACME'')) 0 sample_server)"

lemma watching_reachable: "reachable_server watching_server"
proof -
  have e: "w_env sample_world = utc_env" by (simp add: sample_world_def)
  obtain srv where s: "session_op sample_world {} (session_run_action utc_env (Inject ''ACME'')) 0 sample_server = Some srv"
    using session_op_returns[OF reachable_server_inv[OF sample_server_reachable]] by blast
  then have "server_step sample_server srv" using server_step.session[of sample_world "Inject ''ACME''" 0] e by simp
  with sample_server_reachable have "reachable_server srv" by (rule reachable_server.step)
  then show ?thesis unfolding watching_server_def s by simp
qed

lemma watching_facts:
  "sessions watching_server (client_of 0 watching_server) = Some 0"
  "subscribed (client_of 0 watching_server) ''ACME'' watching_server"
  by code_simp+

theorem trade_broadcast_witness:
  "write_messages (session_heap (onTradeExecuted sample_world 0
      \<lparr>t_buy_order_id = ''a'', t_sell_order_id = ''b'', t_symbol = ''ACME'', t_price = 10, t_quantity = 1, t_timestamp = 0\<rparr>
      watching_server) 0) = write_messages (session_heap watching_server 0) @
    [frameMessage (serialize utc_env (trade_message
      \<lparr>t_buy_order_id = ''a'', t_sell_order_id = ''b'', t_symbol = ''ACME'', t_price = 10, t_quantity = 1, t_timestamp = 0\<rparr>))]"
  using trade_broadcast[OF watching_reachable, of sample_world 0
      "\<lparr>t_buy_order_id = ''a'', t_sell_order_id = ''b'', t_symbol = ''ACME'', t_price = 10, t_quantity = 1, t_timestamp = 0\<rparr>" 0]
    watching_facts by (simp add: sample_world_def)

subsection \<open>Accounts\<close>

lemma session_send_identity: "identity (session_heap (send_to w p m srv) q) = identity (session_heap srv q)"
  by (simp add: send_to_def set_session_def)

lemma login_authenticates:
  "s_authenticated (session_heap (handleLogin w m q srv) q) \<longleftrightarrow> s_authenticated (session_heap srv q) \<or>
     (case order_store srv of None \<Rightarrow> True
      | Some st \<Rightarrow> login_username m = ''guest'' \<or> authenticateUser (w_sql w) (login_username m) (login_password m) st)"
proof -
  have a: "s_authenticated s = fst (snd (identity s))" for s by (simp add: identity_def)
  show ?thesis
    by (simp add: handleLogin_def Let_def a session_send_identity set_session_def split: option.split)
      (simp add: identity_def)
qed

text \<open>
  C24. An account that has been registered can be used: after a registration was answered with
  success, a login under that name from any session authenticates it exactly when the password has
  the same salted digest as the registered one (the name \<open>guest\<close>, which needs no password, and
  sessions that were logged in before apart). Names already taken are refused and nothing is stored.
\<close>

theorem register_then_login:
  assumes "sqlite_ok (w_sql w) tab" and "\<And>i. w_salt w 0 i < 16" and "order_store srv = Some st"
    and "reg_username m \<noteq> []" and "length (reg_username m) \<le> 64"
    and "reg_password m \<noteq> []" and "length (reg_password m) \<le> 128" and "reg_username m \<noteq> ''guest''"
    and "w_sql v = w_sql w"
  shows "if getUser (w_sql w) (reg_username m) st \<noteq> None
    then handleRegister w m p srv = send_to w p (register_response (reg_username m) False ''Username already taken'') srv
    else fst (saveUser (w_sql w) (w_salt w 0)
          \<lparr>u_username = reg_username m, u_password = reg_password m, u_permissions = ''trade,view''\<rparr> st) \<longrightarrow>
      (s_authenticated (session_heap (handleLogin v \<lparr>login_username = reg_username m, login_password = pw\<rparr> q
           (handleRegister w m p srv)) q) \<longleftrightarrow>
        s_authenticated (session_heap (handleRegister w m p srv) q) \<or>
        sha256 (generateSalt (w_salt w 0) 16 @ pw) = sha256 (generateSalt (w_salt w 0) 16 @ reg_password m))"
proof (cases "getUser (w_sql w) (reg_username m) st")
  case (Some u)
  then show ?thesis using assms by (simp add: handleRegister_def Let_def)
next
  case None
  let ?u = "\<lparr>u_username = reg_username m, u_password = reg_password m, u_permissions = ''trade,view''\<rparr>"
  show ?thesis
  proof (cases "saveUser (w_sql w) (w_salt w 0) ?u st")
    case (Pair ok st')
    show ?thesis
    proof (cases ok)
      case True
      have "order_store (handleRegister w m p srv) = Some st'"
        using assms None Pair True by (simp add: handleRegister_def Let_def)
      moreover have "authenticateUser (w_sql w) (reg_username m) pw st' \<longleftrightarrow>
          sha256 (generateSalt (w_salt w 0) 16 @ pw) = sha256 (generateSalt (w_salt w 0) 16 @ reg_password m)"
        using saveUser_accepts[OF assms(1), of "w_salt w 0" ?u st st' pw] Pair True assms(2,6) by simp
      ultimately show ?thesis using None assms(8,9) by (simp add: login_authenticates)
    qed (simp add: None Pair)
  qed
qed

theorem register_then_login_witness:
  "s_authenticated (session_heap (handleLogin sample_world \<lparr>login_username = ''bob'', login_password = ''pw''\<rparr> 0
     (handleRegister sample_world \<lparr>reg_username = ''bob'', reg_password = ''pw''\<rparr> 0
        (sample_server\<lparr>order_store := Some empty_store\<rparr>))) 0)"
proof -
  let ?srv = "sample_server\<lparr>order_store := Some empty_store\<rparr>" and ?m = "\<lparr>reg_username = ''bob'', reg_password = ''pw''\<rparr>"
  have w: "sqlite_ok (w_sql sample_world) (\<lambda>d. d)" "\<And>i. w_salt sample_world 0 i < 16"
    by (simp_all add: sample_world_def mem_sqlite_ok)
  have "getUser (w_sql sample_world) ''bob'' empty_store = None"
    "fst (saveUser (w_sql sample_world) (w_salt sample_world 0)
       \<lparr>u_username = ''bob'', u_password = ''pw'', u_permissions = ''trade,view''\<rparr> empty_store)"
    by (simp_all add: getUser_def saveUser_def sample_world_def empty_store_def mem_sqlite_def Let_def)
  then show ?thesis
    using register_then_login[OF w, of ?srv empty_store ?m sample_world 0 "''pw''" 0] by simp
qed

subsection \<open>Disconnecting and stopping\<close>

text \<open>
  C25. When a connection is closed, for whatever reason, the server forgets it: its entry in the
  session map, its subscriptions and its claims to orders are gone, while the books, and so the
  orders it left there, the other sessions and their claims are as before.
\<close>

theorem close_forgets:
  assumes "reachable_server srv" and "disconnect_callback (session_heap srv p)"
  shows "\<exists>srv'. session_op w {} close p srv = Some srv' \<and>
    sessions srv' = (sessions srv)(client_of p srv := None) \<and>
    map_find (subscriptions srv') (client_of p srv) = None \<and>
    order_owners srv' i = (if order_owners srv i = Some (client_of p srv) then None else order_owners srv i) \<and>
    orderbooks srv' = orderbooks srv \<and> \<not> is_open (session_heap srv' p) \<and>
    (q \<noteq> p \<longrightarrow> session_heap srv' q = session_heap srv q)"
proof -
  let ?s = "session_heap srv p"
  have "drop (length (events ?s)) (events (close ?s)) = [Disconnected]" "\<not> is_open (close ?s)"
    "s_client_id (close ?s) = s_client_id ?s"
    using assms(2) by (simp_all add: close_def Let_def)
  then show ?thesis
    by (simp add: session_op_def Let_def removeSession_free set_session_def map_find_erase)
qed

theorem close_forgets_witness:
  "\<exists>srv'. session_op sample_world {} close 0 watching_server = Some srv' \<and>
     map_find (subscriptions srv') (client_of 0 watching_server) = None"
proof -
  have "disconnect_callback (session_heap watching_server 0)" by code_simp
  then show ?thesis using close_forgets[OF watching_reachable, of 0 sample_world] by blast
qed

lemma removeSession_locked: "SessionsMutex \<in> held \<Longrightarrow> removeSession held p srv = None"
  by (simp add: removeSession_def lock_def Let_def)

lemma stop_never_returns:
  "stop_server w ps srv = None \<longleftrightarrow> (\<exists>p \<in> set ps. disconnect_callback (session_heap srv p))"
proof -
  have step: "session_op w {SessionsMutex} close p srv =
      (if disconnect_callback (session_heap srv p) then None
       else Some (set_session p (close (session_heap srv p)) srv))" for p and srv :: "'a server"
    by (simp add: session_op_def Let_def close_def removeSession_locked)
  have "close_all w {SessionsMutex} ps srv = None \<longleftrightarrow> (\<exists>p \<in> set ps. disconnect_callback (session_heap srv p))"
    for srv :: "'a server"
  proof (induction ps arbitrary: srv)
    case (Cons p ps)
    have "disconnect_callback (session_heap (set_session p (close (session_heap srv p)) srv) q) =
        disconnect_callback (session_heap srv q)" if "\<not> disconnect_callback (session_heap srv p)" for q
      using that by (simp add: set_session_def close_def Let_def)
    then show ?case using Cons.IH[of "set_session p (close (session_heap srv p)) srv"] by (auto simp: step)
  qed simp
  from this[of "srv\<lparr>acceptor_open := False\<rparr>"] show ?thesis
    by (cases "close_all w {SessionsMutex} ps (srv\<lparr>acceptor_open := False\<rparr>)") (auto simp: stop_server_def Let_def)
qed

text \<open>
  C27. Stopping the server while a client is connected never returns: the loop closes the sessions
  with the session mutex held, and the disconnect callback locks it again. Without a session
  that has its callback left it returns.
\<close>

theorem stop_deadlocks:
  "stop_server w ps srv = None \<longleftrightarrow> (\<exists>p \<in> set ps. disconnect_callback (session_heap srv p))"
  by (rule stop_never_returns)

theorem stop_deadlocks_witness:
  "stop_server sample_world [0] sample_server = None"
proof -
  have "disconnect_callback (session_heap sample_server 0)"
    by (simp add: sample_server_def accept_done_def Let_def set_session_def start_def doRead_def setDisconnectCallback_def
        createOrderbookTick_def new_server_def)
  then show ?thesis using stop_deadlocks[of sample_world "[0]" sample_server] by simp
qed

end
