(* ===== verification/Durability.thy ===== *)
theory Durability
  imports Quiet_Changes Server_Theorems
begin

text \<open>
  The order table mirrors the books. Every order in a book has its row, with its terms, its
  remainder and its status, and every active row belongs to an order in a book, apart from two kinds of
  rows that the program leaves behind: orders submitted with quantity zero, which are saved before they are refused,
  and stop orders that were triggered and cancelled without a notification. All handlers keep this up, provided
  that the statements succeed and that generated ids are new.
\<close>

subsection \<open>Rows and orders\<close>

definition row_agrees :: "order_row \<Rightarrow> order \<Rightarrow> bool" where
  "row_agrees r x \<longleftrightarrow> r_id r = o_id x \<and> c_str (o_id x) = o_id x \<and> r_client_id r = o_client_id x \<and>
     r_symbol r = o_symbol x \<and> r_side r = sideToString (o_side x) \<and> r_price r = o_price x \<and>
     r_stop_price r = o_stop_price x \<and> r_remaining_quantity r = sint (o_remaining x) \<and>
     r_status r = statusToString (o_status x) \<and>
     (r_order_type r = typeToString (o_type x) \<or> r_order_type r = ''STOP_LIMIT'' \<and> o_type x = LIMIT)"

definition owed :: "order_row \<Rightarrow> bool" where
  "owed r \<longleftrightarrow> is_active_row r \<and> r_order_type r \<noteq> ''STOP'' \<and> r_remaining_quantity r \<noteq> 0"

definition mirrors :: "(string, book) std_map \<Rightarrow> order_row list \<Rightarrow> bool" where
  "mirrors m rs \<longleftrightarrow> distinct (map r_id rs) \<and>
     (\<forall>smb b q. map_find m smb = Some b \<and> in_book b q \<longrightarrow> (\<exists>r \<in> set rs. row_agrees r (heap b q))) \<and>
     (\<forall>r \<in> set rs. owed r \<longrightarrow> (\<exists>smb b q. map_find m smb = Some b \<and> in_book b q \<and> o_id (heap b q) = r_id r)) \<and>
     (\<forall>smb b q smb' b' q'. map_find m smb = Some b \<and> in_book b q \<and> map_find m smb' = Some b' \<and> in_book b' q' \<and>
        o_id (heap b q) = o_id (heap b' q') \<longrightarrow> smb = smb' \<and> q = q')"

lemma mirrorsD:
  assumes "mirrors m rs"
  shows "distinct (map r_id rs)"
    "map_find m smb = Some b \<Longrightarrow> in_book b q \<Longrightarrow> \<exists>r \<in> set rs. row_agrees r (heap b q)"
    "r \<in> set rs \<Longrightarrow> owed r \<Longrightarrow> \<exists>smb b q. map_find m smb = Some b \<and> in_book b q \<and> o_id (heap b q) = r_id r"
    "map_find m smb = Some b \<Longrightarrow> in_book b q \<Longrightarrow> map_find m smb' = Some b' \<Longrightarrow> in_book b' q' \<Longrightarrow>
       o_id (heap b q) = o_id (heap b' q') \<Longrightarrow> smb = smb' \<and> q = q'"
  using assms unfolding mirrors_def by blast+

lemma row_unique: "distinct (map r_id rs) \<Longrightarrow> r \<in> set rs \<Longrightarrow> r' \<in> set rs \<Longrightarrow> r_id r = r_id r' \<Longrightarrow> r = r'"
  by (simp add: distinct_map inj_on_def)

text \<open>The effect of \<^verbatim>\<open>updateOrder\<close> on a row, and of a sequence of notifications.\<close>

definition told :: "order \<Rightarrow> order_row \<Rightarrow> order_row" where
  "told x r = updated_row (sint (o_remaining x)) (statusToString (o_status x)) (typeToString (o_type x)) (c_str (o_id x)) r"

lemma told_id [simp]: "r_id (told x r) = r_id r"
  by (simp add: told_def updated_row_def)

lemma told_other: "c_str (o_id x) \<noteq> r_id r \<Longrightarrow> told x r = r"
  by (simp add: told_def updated_row_def)

lemma told_agrees: "row_agrees r x \<Longrightarrow> same_contract x y \<Longrightarrow> row_agrees (told y r) y"
  by (simp add: row_agrees_def told_def updated_row_def same_contract_def)

lemma told_told: "told x (told x r) = told x r"
  by (simp add: told_def updated_row_def)

definition tell :: "(OrderPtr \<Rightarrow> order) \<Rightarrow> OrderPtr list \<Rightarrow> order_row \<Rightarrow> order_row" where
  "tell h qs r = fold (\<lambda>q. told (h q)) qs r"

lemma tell_id [simp]: "r_id (tell h qs r) = r_id r"
  unfolding tell_def by (induction qs arbitrary: r) simp_all

lemma tell_none: "\<forall>q \<in> set qs. c_str (o_id (h q)) \<noteq> r_id r \<Longrightarrow> tell h qs r = r"
  unfolding tell_def by (induction qs) (simp_all add: told_other)

lemma tell_one:
  assumes "\<forall>q \<in> set qs. c_str (o_id (h q)) = r_id r \<longrightarrow> h q = x"
    and "\<exists>q \<in> set qs. c_str (o_id (h q)) = r_id r"
  shows "tell h qs r = told x r"
proof -
  have "fold (\<lambda>q. told (h q)) qs s \<in> {s, told x s} \<and>
      (s = told x s' \<or> (\<exists>q \<in> set qs. c_str (o_id (h q)) = r_id s) \<longrightarrow> fold (\<lambda>q. told (h q)) qs s = told x s)"
    if "\<forall>q \<in> set qs. c_str (o_id (h q)) = r_id s \<longrightarrow> h q = x" for s s' qs
    using that
  proof (induction qs arbitrary: s s')
    case (Cons q qs)
    show ?case
    proof (cases "c_str (o_id (h q)) = r_id s")
      case True
      then have "h q = x" using Cons.prems by simp
      then show ?thesis using Cons.IH[of "told x s" s] Cons.prems by (auto simp: told_told)
    next
      case False
      then show ?thesis using Cons.IH[of s s'] Cons.prems by (auto simp: told_other)
    qed
  qed (auto simp: told_told)
  from this[of qs r r] assms show ?thesis by (simp add: tell_def)
qed

subsection \<open>Submitting\<close>

text \<open>The facts about an accepted submission of a new order object to a mirrored book.\<close>

definition submission ::
  "(nat \<Rightarrow> time) \<Rightarrow> (string, book) std_map \<Rightarrow> order_row list \<Rightarrow> string \<Rightarrow> book \<Rightarrow> OrderPtr \<Rightarrow> order \<Rightarrow> order_row \<Rightarrow> book \<Rightarrow> bool" where
  "submission now m rs smb b p ord r0 b' \<longleftrightarrow> mirrors m rs \<and> map_find m smb = Some b \<and> book_inv b \<and>
     p \<notin> ran (orders_by_id b) \<and> active ord \<and> wf_order ord \<and> o_id ord \<notin> r_id ` set rs \<and> row_agrees r0 ord \<and>
     (\<exists>evs. addOrder now (Some p) (set_order p ord b) = Some (True, evs, b'))"

definition participants :: "OrderPtr \<Rightarrow> book \<Rightarrow> OrderPtr list" where
  "participants p b' = filter (\<lambda>q. q \<noteq> p) (pending_order_updates b') @ [p]"

lemma submissionD:
  assumes "submission now m rs smb b p ord r0 b'"
  shows "mirrors m rs" "map_find m smb = Some b" "book_inv b" "p \<notin> ran (orders_by_id b)" "active ord" "wf_order ord"
    "o_id ord \<notin> r_id ` set rs" "row_agrees r0 ord"
    "\<exists>evs. addOrder now (Some p) (set_order p ord b) = Some (True, evs, b')"
  using assms unfolding submission_def by simp_all

lemma submission_out:
  assumes "submission now m rs smb b p ord r0 b'"
  shows "\<not> in_book b p"
proof
  assume "in_book b p"
  with in_book_open[OF submissionD(3)[OF assms]] submissionD(4)[OF assms] show False
    by (auto simp: open_order_def indexed_def ran_def)
qed

text \<open>The order objects before the call: the new one, and the ones of the book.\<close>

definition before :: "OrderPtr \<Rightarrow> order \<Rightarrow> book \<Rightarrow> OrderPtr \<Rightarrow> order" where
  "before p ord b = (heap b)(p := ord)"

lemma submission_facts:
  assumes "submission now m rs smb b p ord r0 b'"
  shows "book_inv b'"
    "q \<in> set (participants p b') \<Longrightarrow> q = p \<or> in_book b q"
    "in_book b' q \<Longrightarrow> q = p \<or> in_book b q"
    "q = p \<or> in_book b q \<Longrightarrow> in_book b' q \<or> order_closed (heap b' q)"
    "same_contract (before p ord b q) (heap b' q)"
    "q \<notin> set (participants p b') \<Longrightarrow> quiet_change (heap b q) (heap b' q)"
proof -
  note d = submissionD[OF assms]
  let ?c = "set_order p ord b"
  have c: "book_inv ?c" using d(3,4) by (rule alloc_inv)
  obtain evs where run: "addOrder now (Some p) ?c = Some (True, evs, b')" using d(9) by blast
  have "active (heap ?c p)" "wf_order (heap ?c p)" using d(5,6) by simp_all
  note acc = addOrder_accepted[OF c this run]
  have inb: "in_book ?c r = in_book b r" for r by (simp add: in_book_def)
  show "book_inv b'" by (rule acc(5))
  show "q \<in> set (participants p b') \<Longrightarrow> q = p \<or> in_book b q"
    using accepted_known[OF acc(2,3), of q] by (auto simp: participants_def inb)
  show "in_book b' q \<Longrightarrow> q = p \<or> in_book b q"
    using accepted_life(2)[OF acc(2,3,5), of q] by (auto simp: inb)
  show "q = p \<or> in_book b q \<Longrightarrow> in_book b' q \<or> order_closed (heap b' q)"
    using accepted_life(1)[OF acc(2,3,5), of q] by (auto simp: inb)
  show "same_contract (before p ord b q) (heap b' q)"
    using accepted_recorded(3)[OF acc(2,3), of q] by (simp add: before_def)
  show "q \<notin> set (participants p b') \<Longrightarrow> quiet_change (heap b q) (heap b' q)"
    using accepted_quiet[OF acc(2,3), of q] by (auto simp: participants_def)
qed

lemma submission_rows:
  assumes "submission now m rs smb b p ord r0 b'"
  shows "distinct (map r_id (rs @ [r0]))"
    "q = p \<or> in_book b q \<Longrightarrow> \<exists>r \<in> set (rs @ [r0]). row_agrees r (before p ord b q)"
    "q = p \<or> in_book b q \<Longrightarrow> q' = p \<or> in_book b q' \<Longrightarrow> o_id (before p ord b q) = o_id (before p ord b q') \<Longrightarrow> q = q'"
    "q = p \<or> in_book b q \<Longrightarrow> map_find m smb' = Some b2 \<Longrightarrow> in_book b2 q2 \<Longrightarrow>
       o_id (heap b2 q2) = o_id (before p ord b q) \<Longrightarrow> smb' = smb \<and> q2 = q"
proof -
  note d = submissionD[OF assms] and mir = mirrorsD[OF submissionD(1)[OF assms]]
  have fresh: "o_id (heap b2 q2) \<noteq> o_id ord" if "map_find m smb' = Some b2" "in_book b2 q2" for smb' b2 q2
    using mir(2)[OF that] d(7) by (force simp: row_agrees_def)
  have r0: "r_id r0 = o_id ord" using d(8) by (simp add: row_agrees_def)
  show "distinct (map r_id (rs @ [r0]))" using mir(1) d(7) r0 by simp
  show "q = p \<or> in_book b q \<Longrightarrow> \<exists>r \<in> set (rs @ [r0]). row_agrees r (before p ord b q)"
    using mir(2)[OF d(2), of q] d(8) by (auto simp: before_def)
  show "q = q'" if q: "q = p \<or> in_book b q" "q' = p \<or> in_book b q'"
    and i: "o_id (before p ord b q) = o_id (before p ord b q')"
  proof (cases "q = p \<or> q' = p")
    case True
    then show ?thesis using q i fresh[OF d(2), of q] fresh[OF d(2), of q'] by (auto simp: before_def split: if_splits)
  next
    case False
    then have "in_book b q" "in_book b q'" "o_id (heap b q) = o_id (heap b q')" using q i by (simp_all add: before_def)
    then show ?thesis using mir(4)[OF d(2) _ d(2)] by blast
  qed
  show "smb' = smb \<and> q2 = q" if q: "q = p \<or> in_book b q" and b2: "map_find m smb' = Some b2" "in_book b2 q2"
    and i: "o_id (heap b2 q2) = o_id (before p ord b q)"
  proof (cases "q = p")
    case True
    then show ?thesis using i fresh[OF b2] by (simp add: before_def)
  next
    case False
    then have "in_book b q" "o_id (heap b2 q2) = o_id (heap b q)" using q i by (simp_all add: before_def)
    then show ?thesis using mir(4)[OF b2 d(2)] by blast
  qed
qed

text \<open>What the notifications of the call do to a row.\<close>

lemma submission_tell:
  assumes sub: "submission now m rs smb b p ord r0 b'"
  shows "q \<in> set (participants p b') \<Longrightarrow> r_id r = o_id (before p ord b q) \<Longrightarrow>
      tell (heap b') (participants p b') r = told (heap b' q) r"
    "\<forall>q \<in> set (participants p b'). r_id r \<noteq> o_id (before p ord b q) \<Longrightarrow> tell (heap b') (participants p b') r = r"
proof -
  note f = submission_facts[OF sub] and w = submission_rows[OF sub]
  have ids: "c_str (o_id (heap b' u)) = o_id (before p ord b u)" if "u \<in> set (participants p b')" for u
    using w(2)[OF f(2)[OF that]] f(5)[of u] by (auto simp: row_agrees_def same_contract_def)
  show "tell (heap b') (participants p b') r = told (heap b' q) r"
    if "q \<in> set (participants p b')" "r_id r = o_id (before p ord b q)"
  proof (rule tell_one)
    show "\<forall>u \<in> set (participants p b'). c_str (o_id (heap b' u)) = r_id r \<longrightarrow> heap b' u = heap b' q"
      using ids that w(3)[OF f(2) f(2)[OF that(1)]] by metis
    show "\<exists>u \<in> set (participants p b'). c_str (o_id (heap b' u)) = r_id r" using ids that by metis
  qed
  show "tell (heap b') (participants p b') r = r"
    if "\<forall>q \<in> set (participants p b'). r_id r \<noteq> o_id (before p ord b q)"
    by (rule tell_none) (use that ids in metis)
qed

lemma closed_inactive: "order_closed x \<Longrightarrow> \<not> is_active_row (told x r)" if "r_id r = o_id x" "c_str (o_id x) = o_id x"
  using that by (auto simp: order_closed_def is_active_row_def told_def updated_row_def)

lemma quiet_agrees:
  assumes "row_agrees r x" and "quiet_change x y" and "active y" and "o_type y \<noteq> MARKET"
  shows "row_agrees r y"
  using assms by (auto simp: row_agrees_def quiet_change_def same_contract_def active_def)

text \<open>An order that is closed without a notification was a stop order.\<close>

lemma quiet_closed:
  assumes "row_agrees r x" and "quiet_change x y" and "order_closed y" and "active x" and "o_type x \<noteq> MARKET"
  shows "r_order_type r = ''STOP''"
  using assms by (auto simp: row_agrees_def quiet_change_def order_closed_def active_def)

lemma submission_id: "submission now m rs smb b p ord r0 b' \<Longrightarrow> o_id (heap b' q) = o_id (before p ord b q)"
  using submission_facts(5)[of now m rs smb b p ord r0 b' q] by (simp add: same_contract_def)

lemma submission_has_row:
  assumes sub: "submission now m rs smb b p ord r0 b'"
    and b2: "map_find (map_put smb b' m) smb' = Some b2" "in_book b2 q"
  shows "\<exists>r \<in> set (map (tell (heap b') (participants p b')) (rs @ [r0])). row_agrees r (heap b2 q)"
    (is "\<exists>r \<in> set (map ?T ?rs). _")
proof -
  note d = submissionD[OF sub] and f = submission_facts[OF sub] and w = submission_rows[OF sub]
    and t = submission_tell[OF sub] and mir = mirrorsD[OF submissionD(1)[OF sub]]
  let ?qs = "participants p b'"
  have p: "p \<in> set ?qs" by (simp add: participants_def)
  show ?thesis
  proof (cases "smb' = smb")
    case True
    then have q: "in_book b' q" "b2 = b'" using b2 by (simp_all add: map_find_put)
    note kn = f(3)[OF q(1)]
    obtain r where r: "r \<in> set ?rs" "row_agrees r (before p ord b q)" using w(2)[OF kn] by blast
    have "row_agrees (?T r) (heap b' q)"
    proof (cases "q \<in> set ?qs")
      case True
      then show ?thesis using t(1)[OF True, of r] told_agrees[OF r(2) f(5)] r(2) by (simp add: row_agrees_def)
    next
      case False
      have "r_id r \<noteq> o_id (before p ord b u)" if "u \<in> set ?qs" for u
        using w(3)[OF kn f(2)[OF that]] that False r(2) by (auto simp: row_agrees_def)
      then have "?T r = r" by (intro t(2)) blast
      moreover have "before p ord b q = heap b q" using False p by (auto simp: before_def)
      ultimately show ?thesis
        using quiet_agrees[OF r(2), of "heap b' q"] f(6)[OF False] in_book_type[OF f(1) q(1)] by simp
    qed
    then show ?thesis using r(1) q(2) by auto
  next
    case False
    then have q: "map_find m smb' = Some b2" using b2 by (simp add: map_find_put)
    obtain r where r: "r \<in> set rs" "row_agrees r (heap b2 q)" using mir(2)[OF q b2(2)] by blast
    have "r_id r \<noteq> o_id (before p ord b u)" if "u \<in> set ?qs" for u
      using w(4)[OF f(2)[OF that] q b2(2)] False r(2) by (auto simp: row_agrees_def)
    then have "?T r = r" by (intro t(2)) blast
    then show ?thesis using r by force
  qed
qed

lemma submission_owed:
  assumes sub: "submission now m rs smb b p ord r0 b'" and r: "r \<in> set (rs @ [r0])"
    and ow: "owed (tell (heap b') (participants p b') r)" (is "owed (?T r)")
  shows "\<exists>smb' b2 q. map_find (map_put smb b' m) smb' = Some b2 \<and> in_book b2 q \<and> o_id (heap b2 q) = r_id r"
proof -
  note d = submissionD[OF sub] and f = submission_facts[OF sub] and w = submission_rows[OF sub]
    and t = submission_tell[OF sub] and mir = mirrorsD[OF submissionD(1)[OF sub]] and id' = submission_id[OF sub]
  let ?qs = "participants p b'"
  have p: "p \<in> set ?qs" by (simp add: participants_def)
  show ?thesis
  proof (cases "\<exists>q \<in> set ?qs. r_id r = o_id (before p ord b q)")
    case True
    then obtain q where q: "q \<in> set ?qs" "r_id r = o_id (before p ord b q)" by blast
    have "c_str (o_id (heap b' q)) = o_id (heap b' q)"
      using w(2)[OF f(2)[OF q(1)]] by (auto simp: row_agrees_def id')
    then have "\<not> order_closed (heap b' q)"
      using closed_inactive[of r "heap b' q"] q ow t(1)[OF q] by (auto simp: owed_def id')
    then have "in_book b' q" using f(4)[OF f(2)[OF q(1)]] by blast
    then show ?thesis using q(2) id' by (intro exI[of _ smb] exI[of _ b'] exI[of _ q]) (simp add: map_find_put)
  next
    case False
    then have same: "?T r = r" by (intro t(2)) blast
    have "r \<noteq> r0" using False p d(8) by (auto simp: before_def row_agrees_def)
    then obtain smb2 b2 q where q: "map_find m smb2 = Some b2" "in_book b2 q" "o_id (heap b2 q) = r_id r"
      using mir(3)[of r] r ow same by auto
    show ?thesis
    proof (cases "smb2 = smb")
      case smb: True
      then have b: "in_book b q" "b2 = b" using q d(2) by simp_all
      have qp: "q \<noteq> p" using submission_out[OF sub] b(1) by blast
      have out: "q \<notin> set ?qs" using False q(3) b qp by (auto simp: before_def)
      obtain r' where "r' \<in> set rs" "row_agrees r' (heap b q)" using mir(2)[OF d(2) b(1)] by blast
      moreover from this have "r' = r" using row_unique[OF w(1), of r' r] r q(3) b(2) by (auto simp: row_agrees_def)
      ultimately have "\<not> order_closed (heap b' q)"
        using quiet_closed[of r "heap b q" "heap b' q"] f(6)[OF out] in_book_type[OF d(3) b(1)] ow same
        by (auto simp: owed_def)
      then have "in_book b' q" using f(4)[of q] b(1) by blast
      then show ?thesis using q(3) id'[of q] qp b(2)
        by (intro exI[of _ smb] exI[of _ b'] exI[of _ q]) (simp add: map_find_put before_def)
    next
      case False
      then show ?thesis using q by (intro exI[of _ smb2] exI[of _ b2] exI[of _ q]) (simp add: map_find_put)
    qed
  qed
qed

lemma submission_unique:
  assumes sub: "submission now m rs smb b p ord r0 b'"
    and b1: "map_find (map_put smb b' m) smb1 = Some b1" "in_book b1 q1"
    and b2: "map_find (map_put smb b' m) smb2 = Some b2" "in_book b2 q2"
    and i: "o_id (heap b1 q1) = o_id (heap b2 q2)"
  shows "smb1 = smb2 \<and> q1 = q2"
proof -
  note f = submission_facts[OF sub] and w = submission_rows[OF sub]
    and mir = mirrorsD[OF submissionD(1)[OF sub]] and id' = submission_id[OF sub]
  consider "smb1 = smb" "smb2 = smb" | "smb1 = smb" "smb2 \<noteq> smb" | "smb1 \<noteq> smb" "smb2 = smb" | "smb1 \<noteq> smb" "smb2 \<noteq> smb"
    by blast
  then show ?thesis
  proof cases
    case 1
    then have "in_book b' q1" "in_book b' q2" "b1 = b'" "b2 = b'" using b1 b2 by (simp_all add: map_find_put)
    then show ?thesis using 1 i w(3)[OF f(3) f(3)] by (simp add: id')
  next
    case 2
    then have q: "in_book b' q1" "map_find m smb2 = Some b2" "b1 = b'" using b1 b2 by (simp_all add: map_find_put)
    show ?thesis using 2 w(4)[OF f(3)[OF q(1)] q(2) b2(2)] i q(3) by (simp add: id')
  next
    case 3
    then have q: "in_book b' q2" "map_find m smb1 = Some b1" "b2 = b'" using b1 b2 by (simp_all add: map_find_put)
    show ?thesis using 3 w(4)[OF f(3)[OF q(1)] q(2) b1(2)] i q(3) by (simp add: id')
  next
    case 4
    then have "map_find m smb1 = Some b1" "map_find m smb2 = Some b2" using b1 b2 by (simp_all add: map_find_put)
    then show ?thesis using mir(4) b1(2) b2(2) i by blast
  qed
qed

lemma mirrors_submission:
  assumes sub: "submission now m rs smb b p ord r0 b'"
  shows "mirrors (map_put smb b' m) (map (tell (heap b') (participants p b')) (rs @ [r0]))"
    (is "mirrors ?m ?rs")
proof -
  have "distinct (map r_id ?rs)" using submission_rows(1)[OF sub] by (simp add: comp_def)
  moreover have "\<exists>smb' b2 q. map_find ?m smb' = Some b2 \<and> in_book b2 q \<and> o_id (heap b2 q) = r_id r"
    if "r \<in> set ?rs" "owed r" for r
  proof -
    from that(1) obtain r' where r': "r' \<in> set (rs @ [r0])" "r = tell (heap b') (participants p b') r'" by auto
    then show ?thesis using submission_owed[OF sub r'(1)] that(2) by simp
  qed
  ultimately show ?thesis
    unfolding mirrors_def using submission_has_row[OF sub] submission_unique[OF sub] by blast
qed

subsection \<open>Other changes of a book\<close>

lemma mirrors_replace:
  assumes mir: "mirrors m rs" and "\<And>b. map_find m smb = Some b \<Longrightarrow> \<forall>q. in_book b' q \<longrightarrow> in_book b q \<and> heap b' q = heap b q"
    and "map_find m smb = None \<Longrightarrow> \<forall>q. \<not> in_book b' q"
    and "\<And>b q. map_find m smb = Some b \<Longrightarrow> in_book b q \<Longrightarrow> in_book b' q"
  shows "mirrors (map_put smb b' m) rs"
proof -
  note d = mirrorsD[OF mir]
  have old: "\<exists>b0. map_find m smb' = Some b0 \<and> in_book b0 q \<and> heap b0 q = heap b2 q"
    if "map_find (map_put smb b' m) smb' = Some b2" "in_book b2 q" for smb' b2 q
    using that assms(2,3) by (cases "map_find m smb") (auto simp: map_find_put split: if_splits)
  have new: "\<exists>b2. map_find (map_put smb b' m) smb' = Some b2 \<and> in_book b2 q \<and> heap b2 q = heap b0 q"
    if "map_find m smb' = Some b0" "in_book b0 q" for smb' b0 q
    using that assms(2,4) by (auto simp: map_find_put)
  have "\<exists>r \<in> set rs. row_agrees r (heap b2 q)" if "map_find (map_put smb b' m) smb' = Some b2" "in_book b2 q" for smb' b2 q
    using old[OF that] d(2) by metis
  moreover have "\<exists>smb b q. map_find (map_put smb' b' m) smb = Some b \<and> in_book b q \<and> o_id (heap b q) = r_id r"
    if "r \<in> set rs" "owed r" "smb' = smb" for r smb'
    using d(3)[OF that(1,2)] new that(3) by metis
  moreover have "smb1 = smb2 \<and> q1 = q2" if b1: "map_find (map_put smb b' m) smb1 = Some b1" "in_book b1 q1"
    and b2: "map_find (map_put smb b' m) smb2 = Some b2" "in_book b2 q2"
    and i: "o_id (heap b1 q1) = o_id (heap b2 q2)" for smb1 b1 q1 smb2 b2 q2
  proof -
    obtain c1 c2 where "map_find m smb1 = Some c1" "in_book c1 q1" "heap c1 q1 = heap b1 q1"
      "map_find m smb2 = Some c2" "in_book c2 q2" "heap c2 q2 = heap b2 q2"
      using old[OF b1] old[OF b2] by blast
    then show ?thesis using d(4) i by metis
  qed
  ultimately show ?thesis unfolding mirrors_def using d(1) by blast
qed

lemma mirrors_extra_row:
  assumes "mirrors m rs" and "r_id r0 \<notin> r_id ` set rs" and "r_remaining_quantity r0 = 0"
  shows "mirrors m (rs @ [r0])"
  unfolding mirrors_def
proof (intro conjI allI impI ballI)
  note d = mirrorsD[OF assms(1)]
  show "distinct (map r_id (rs @ [r0]))" using d(1) assms(2) by simp
  fix smb b q assume "map_find m smb = Some b \<and> in_book b q"
  then show "\<exists>r \<in> set (rs @ [r0]). row_agrees r (heap b q)" using d(2)[of smb b q] by auto
next
  note d = mirrorsD[OF assms(1)]
  fix r assume "r \<in> set (rs @ [r0])" "owed r"
  then show "\<exists>smb b q. map_find m smb = Some b \<and> in_book b q \<and> o_id (heap b q) = r_id r"
    using d(3)[of r] assms(3) by (auto simp: owed_def)
qed (use mirrorsD(4)[OF assms(1)] in blast)+

lemma withdraw_heap: "heap (withdraw p b) q = (if q = p then snd (cancel (heap b p)) else heap b q)"
  by (simp add: withdraw_def)

text \<open>Cancelling marks the row of the order and no other.\<close>

lemma mirrors_cancel:
  assumes mir: "mirrors m rs" and find: "map_find m smb = Some b" and inv: "book_inv b" and i: "orders_by_id b i = Some p"
  shows "mirrors (map_put smb (withdraw p b) m) (map (told (heap (withdraw p b) p)) rs)"
proof -
  note d = mirrorsD[OF mir] and kn = known_order[OF inv i]
  let ?x = "heap (withdraw p b) p" and ?m = "map_put smb (withdraw p b) m"
  obtain rp where rp: "rp \<in> set rs" "row_agrees rp (heap b p)" using d(2)[OF find kn(2)] by blast
  have x: "o_id ?x = o_id (heap b p)" "c_str (o_id ?x) = o_id ?x" "o_status ?x = CANCELED"
    using rp(2) kn(3) by (simp_all add: withdraw_heap row_agrees_def open_order_def cancel_def active_iff)
  have old: "\<exists>b0. map_find m smb' = Some b0 \<and> in_book b0 q \<and> heap b0 q = heap b2 q \<and> (smb', q) \<noteq> (smb, p)"
    if "map_find ?m smb' = Some b2" "in_book b2 q" for smb' b2 q
    using that find withdraw_in_book[OF inv, of p q]
    by (auto simp: map_find_put withdraw_heap split: if_splits)
  have other: "told ?x r = r" if "r \<in> set rs" "row_agrees r (heap b0 q)" "map_find m smb' = Some b0" "in_book b0 q"
    "(smb', q) \<noteq> (smb, p)" for r smb' b0 q
    using d(4)[OF that(3,4) find kn(2)] that(2,5) x(1,2) by (intro told_other) (auto simp: row_agrees_def)
  have "\<exists>r \<in> set (map (told ?x) rs). row_agrees r (heap b2 q)"
    if b2: "map_find ?m smb' = Some b2" "in_book b2 q" for smb' b2 q
  proof -
    obtain b0 where b0: "map_find m smb' = Some b0" "in_book b0 q" "heap b0 q = heap b2 q" "(smb', q) \<noteq> (smb, p)"
      using old[OF b2] by blast
    obtain r where r: "r \<in> set rs" "row_agrees r (heap b0 q)" using d(2)[OF b0(1,2)] by blast
    then show ?thesis using other[OF r b0(1,2,4)] b0(3) by force
  qed
  moreover have "\<exists>smb' b2 q. map_find ?m smb' = Some b2 \<and> in_book b2 q \<and> o_id (heap b2 q) = r_id r"
    if r: "r \<in> set rs" and ow: "owed (told ?x r)" for r
  proof -
    have nid: "r_id r \<noteq> o_id ?x"
      using ow x by (auto simp: owed_def is_active_row_def told_def updated_row_def)
    then have "owed r" using ow x(2) told_other[of ?x r] by auto
    from d(3)[OF r this] obtain smb' b0 q where q: "map_find m smb' = Some b0" "in_book b0 q" "o_id (heap b0 q) = r_id r"
      by blast
    have "(smb', q) \<noteq> (smb, p)" using q nid x(1) find by auto
    then show ?thesis using q find withdraw_in_book[OF inv, of p q]
      by (intro exI[of _ smb'] exI[of _ "if smb' = smb then withdraw p b else b0"] exI[of _ q])
        (auto simp: map_find_put withdraw_heap)
  qed
  moreover have "smb1 = smb2 \<and> q1 = q2" if b1: "map_find ?m smb1 = Some b1" "in_book b1 q1"
    and b2: "map_find ?m smb2 = Some b2" "in_book b2 q2"
    and i: "o_id (heap b1 q1) = o_id (heap b2 q2)" for smb1 b1 q1 smb2 b2 q2
    using old[OF b1] old[OF b2] d(4) i by metis
  moreover have "distinct (map r_id (map (told ?x) rs))" using d(1) by (simp add: comp_def)
  ultimately show ?thesis unfolding mirrors_def by (intro conjI allI impI ballI) auto
qed

end
