(* ===== verification/Durable_Server.thy ===== *)
theory Durable_Server
  imports Durability
begin

text \<open>
  The server keeps its order table in step with its books. The store's rows after every handler are
  computed from the rows before it; together with the facts about single books this gives an invariant of
  the server: as long as the database accepts the statements and identifiers are new, the rows
  mirror the books.
\<close>

subsection \<open>The rows of the server\<close>

definition orders_table :: "('db \<Rightarrow> tables) \<Rightarrow> 'db server \<Rightarrow> order_row list option" where
  "orders_table tab srv =
     (case order_store srv of None \<Rightarrow> None | Some st \<Rightarrow> map_option (\<lambda>d. tb_orders (tab d)) (os_db st))"

text \<open>A database that behaves as documented and that accepts the statements on orders.\<close>

definition durable_sql :: "'db sqlite \<Rightarrow> ('db \<Rightarrow> tables) \<Rightarrow> bool" where
  "durable_sql sq tab \<longleftrightarrow> sqlite_ok sq tab \<and> (\<forall>r d. fst (insert_order sq r d)) \<and>
     (\<forall>n s ty i d. fst (update_order sq n s ty i d))"

lemma durable_sqlD:
  assumes "durable_sql sq tab"
  shows "tb_orders (tab (snd (insert_order sq r d))) = filter (\<lambda>x. r_id x \<noteq> r_id r) (tb_orders (tab d)) @ [r]"
    "tb_orders (tab (snd (update_order sq n s ty i d))) = map (updated_row n s ty i) (tb_orders (tab d))"
    "tb_orders (tab (snd (insert_trade sq t d))) = tb_orders (tab d)"
    "tb_orders (tab (snd (insert_user sq u d))) = tb_orders (tab d)"
proof -
  have ok: "sqlite_ok sq tab" "fst (insert_order sq r d)" "fst (update_order sq n s ty i d)"
    using assms by (simp_all add: durable_sql_def)
  show "tb_orders (tab (snd (insert_order sq r d))) = filter (\<lambda>x. r_id x \<noteq> r_id r) (tb_orders (tab d)) @ [r]"
    "tb_orders (tab (snd (update_order sq n s ty i d))) = map (updated_row n s ty i) (tb_orders (tab d))"
    using ok by (simp_all add: sqlite_okD(1,2)[OF ok(1)])
  show "tb_orders (tab (snd (insert_trade sq t d))) = tb_orders (tab d)"
    "tb_orders (tab (snd (insert_user sq u d))) = tb_orders (tab d)"
    by (simp_all add: sqlite_okD(5,6)[OF ok(1)])
qed

lemma orders_table_cong: "order_store a = order_store b \<Longrightarrow> orders_table tab a = orders_table tab b"
  by (simp add: orders_table_def)

lemma orders_table_fields [simp]:
  "orders_table tab (srv\<lparr>orderbooks := m\<rparr>) = orders_table tab srv"
  "orders_table tab (srv\<lparr>orderbooks := m, next_order := n\<rparr>) = orders_table tab srv"
  "orders_table tab (srv\<lparr>order_owners := ow\<rparr>) = orders_table tab srv"
  "orders_table tab (set_session p s srv) = orders_table tab srv"
  "orders_table tab (send_to w p msg srv) = orders_table tab srv"
  "orders_table tab (subscribe c smb srv) = orders_table tab srv"
  by (simp_all add: orders_table_def set_session_def subscribe_def)

lemma table_saveOrder:
  assumes "durable_sql sq tab" and "orders_table tab srv = Some rs" and "c_str (o_id ord) \<notin> r_id ` set rs"
  shows "orders_table tab (srv\<lparr>order_store := map_option (\<lambda>st. snd (saveOrder sq now (Some ord) st)) (order_store srv)\<rparr>) =
    Some (rs @ [order_row_of now ord])"
proof -
  obtain st d where st: "order_store srv = Some st" "os_db st = Some d" "rs = tb_orders (tab d)"
    using assms(2) by (auto simp: orders_table_def split: option.splits)
  have "filter (\<lambda>x. r_id x \<noteq> r_id (order_row_of now ord)) rs = rs"
    using assms(3) by (auto simp: order_row_of_def filter_id_conv intro: rev_image_eqI)
  then show ?thesis
    using st durable_sqlD(1)[OF assms(1), of "order_row_of now ord" d]
    by (simp add: orders_table_def saveOrder_def case_prod_beta Let_def)
qed

lemma table_updateOrder:
  assumes "durable_sql sq tab" and "orders_table tab srv = Some rs"
  shows "orders_table tab (srv\<lparr>order_store := map_option (\<lambda>st. snd (updateOrder sq (Some ord) st)) (order_store srv)\<rparr>) =
    Some (map (told ord) rs)"
proof -
  obtain st d where st: "order_store srv = Some st" "os_db st = Some d" "rs = tb_orders (tab d)"
    using assms(2) by (auto simp: orders_table_def split: option.splits)
  let ?u = "update_order sq (sint (o_remaining ord)) (statusToString (o_status ord)) (typeToString (o_type ord)) (c_str (o_id ord)) d"
  have "tb_orders (tab (snd ?u)) = map (told ord) rs"
    using durable_sqlD(2)[OF assms(1)] st(3) by (simp add: told_def fun_eq_iff)
  then show ?thesis using st by (simp add: orders_table_def updateOrder_def case_prod_beta Let_def)
qed

lemma table_order:
  assumes "durable_sql (w_sql w) tab" and "orders_table tab srv = Some rs"
  shows "orders_table tab (onOrderUpdated w ord srv) = Some (map (told ord) rs)"
proof -
  let ?s = "srv\<lparr>order_store := map_option (\<lambda>st. snd (updateOrder (w_sql w) (Some ord) st)) (order_store srv)\<rparr>"
  have "orders_table tab (onOrderUpdated w ord srv) = orders_table tab ?s"
    by (rule orders_table_cong) (simp add: onOrderUpdated_def Let_def split: option.split)
  then show ?thesis using table_updateOrder[OF assms] by simp
qed

lemma store_sends [simp]: "order_store (fold (\<lambda>p. send_to w p m) ps srv) = order_store srv"
  by (induction ps arbitrary: srv) simp_all

lemma table_trade:
  assumes "durable_sql (w_sql w) tab" and "orders_table tab srv = Some rs"
  shows "orders_table tab (onTradeExecuted w now t srv) = Some rs"
proof -
  obtain st d where st: "order_store srv = Some st" "os_db st = Some d" "rs = tb_orders (tab d)"
    using assms(2) by (auto simp: orders_table_def split: option.splits)
  then show ?thesis
    using durable_sqlD(3)[OF assms(1)]
    by (simp add: orders_table_def onTradeExecuted_def saveTrade_def Let_def case_prod_beta)
qed

fun event_orders :: "event list \<Rightarrow> OrderPtr list" where
  "event_orders [] = []"
| "event_orders (TradeEvent t # evs) = event_orders evs"
| "event_orders (OrderEvent p # evs) = p # event_orders evs"

lemma event_orders_append: "event_orders (xs @ ys) = event_orders xs @ event_orders ys"
  by (induction xs rule: event_orders.induct) simp_all

lemma event_orders_map [simp]: "event_orders (map TradeEvent ts) = []" "event_orders (map OrderEvent ps) = ps"
proof -
  show "event_orders (map TradeEvent ts) = []" by (induction ts) simp_all
  show "event_orders (map OrderEvent ps) = ps" by (induction ps) simp_all
qed

lemma event_orders_callbacks: "order_callback b \<Longrightarrow> event_orders (callbacks p b) = participants p b"
  by (simp add: callbacks_def participants_def event_orders_append)

lemma table_callbacks:
  assumes "durable_sql (w_sql w) tab" and "orders_table tab srv = Some rs"
  shows "orders_table tab (run_callbacks w k b evs srv) = Some (map (tell (heap b) (event_orders evs)) rs)"
  using assms
proof (induction w k b evs srv arbitrary: rs rule: run_callbacks.induct)
  case (2 w k b t evs srv)
  then show ?case using table_trade[OF 2(2,3), of "w_iso w k" t] by simp
next
  case (3 w k b p evs srv)
  then show ?case using table_order[OF 3(2,3), of "heap b p"] by (simp add: tell_def comp_def)
qed (simp add: tell_def map_idI)

subsection \<open>Orders are in the book of their symbol\<close>

definition at_home :: "(string, book) std_map \<Rightarrow> bool" where
  "at_home m \<longleftrightarrow> (\<forall>smb b q. map_find m smb = Some b \<and> in_book b q \<longrightarrow> o_symbol (heap b q) = smb)"

lemma at_home_put:
  assumes "at_home m" and "\<And>q. in_book b' q \<Longrightarrow> o_symbol (heap b' q) = smb"
  shows "at_home (map_put smb b' m)"
  using assms by (auto simp: at_home_def map_find_put)

lemma at_home_replace:
  assumes "at_home m" and "map_find m smb = Some b"
    and "\<And>q. in_book b' q \<Longrightarrow> in_book b q \<and> o_symbol (heap b' q) = o_symbol (heap b q)"
  shows "at_home (map_put smb b' m)"
  using assms(1) by (rule at_home_put) (use assms in \<open>auto simp: at_home_def\<close>)

lemma at_home_submission:
  assumes sub: "submission now m rs smb b p ord r0 b'" and "at_home m" and "o_symbol ord = smb"
  shows "at_home (map_put smb b' m)"
  using assms(2)
proof (rule at_home_put)
  fix q assume "in_book b' q"
  then have "q = p \<or> in_book b q" by (rule submission_facts(3)[OF sub])
  then have "o_symbol (before p ord b q) = smb"
    using assms(2,3) submissionD(2)[OF sub] by (auto simp: before_def at_home_def)
  then show "o_symbol (heap b' q) = smb" using submission_facts(5)[OF sub, of q] by (simp add: same_contract_def)
qed

text \<open>The server's rows mirror its books.\<close>

definition mirrored :: "('db \<Rightarrow> tables) \<Rightarrow> 'db server \<Rightarrow> bool" where
  "mirrored tab srv \<longleftrightarrow> at_home (orderbooks srv) \<and>
     (\<exists>rs. orders_table tab srv = Some rs \<and> mirrors (orderbooks srv) rs)"

lemma mirroredI:
  "at_home (orderbooks srv) \<Longrightarrow> orders_table tab srv = Some rs \<Longrightarrow> mirrors (orderbooks srv) rs \<Longrightarrow> mirrored tab srv"
  by (auto simp: mirrored_def)

lemma mirrored_cong:
  "orderbooks a = orderbooks b \<Longrightarrow> orders_table tab a = orders_table tab b \<Longrightarrow> mirrored tab a = mirrored tab b"
  by (simp add: mirrored_def)

subsection \<open>Submitting\<close>

text \<open>What the program needs of a submission: an identifier that is new, and texts that SQLite stores whole.\<close>

definition plain_submission :: "('db \<Rightarrow> tables) \<Rightarrow> 'db world \<Rightarrow> OrderSubmitMessage \<Rightarrow> 'db server \<Rightarrow> bool" where
  "plain_submission tab w m srv \<longleftrightarrow> c_str (uuid w) = uuid w \<and> c_str (sub_client_id m) = sub_client_id m \<and>
     c_str (sub_symbol m) = sub_symbol m \<and>
     (\<forall>rs. orders_table tab srv = Some rs \<longrightarrow> uuid w \<notin> r_id ` set rs)"

lemma submitted_fields [simp]:
  "o_id (submitted_order w m b) = uuid w" "o_symbol (submitted_order w m b) = sub_symbol m"
  "o_client_id (submitted_order w m b) = sub_client_id m" "o_remaining (submitted_order w m b) = sub_quantity m"
  by (simp_all add: submitted_order_def new_order_def)

lemma submitted_row_agrees:
  "plain_submission tab w m srv \<Longrightarrow> row_agrees (order_row_of now (submitted_order w m b)) (submitted_order w m b)"
  by (simp add: plain_submission_def row_agrees_def order_row_of_def)

lemma handleOrderSubmit_rows:
  assumes inv: "server_inv srv" and book: "getOrderbook (sub_symbol m) srv = Some b"
    and sql: "durable_sql (w_sql w) tab" and rows: "orders_table tab srv = Some rs" and plain: "plain_submission tab w m srv"
  obtains ok evs b' srv' where
    "addOrder (\<lambda>k. w_clock w (k + 2)) (Some (next_order srv)) (set_order (next_order srv) (submitted_order w m b) b) =
      Some (ok, evs, b')"
    "handleOrderSubmit w m p srv = Some srv'" "orderbooks srv' = map_put (sub_symbol m) b' (orderbooks srv)"
    "orders_table tab srv' = Some (map (tell (heap b') (event_orders evs))
       (rs @ [order_row_of (w_clock w 1) (submitted_order w m b)]))"
proof -
  let ?q = "next_order srv" and ?ord = "submitted_order w m b"
  have served: "svc.served ?q (orderbooks srv)" and b: "map_find (orderbooks srv) (sub_symbol m) = Some b"
    using inv book by (simp_all add: server_inv_def getOrderbook_def)
  have new: "submittable ?ord" unfolding submitted_order_def by (rule submittable_new)
  obtain ok evs b' where run: "submit_at (\<lambda>k. w_clock w (k + 2)) ?q ?ord b = Some (ok, evs, b')"
    using svc.served_add[OF served b new, where t = "\<lambda>k. w_clock w (k + 2)"] by blast
  define srv1 where "srv1 = subscribe (client_of p srv) (sub_symbol m) srv"
  define srv2 where "srv2 = srv1\<lparr>order_store := map_option (\<lambda>st. snd (saveOrder (w_sql w) (w_clock w 1) (Some ?ord) st)) (order_store srv1)\<rparr>"
  define srv3 where "srv3 = srv2\<lparr>orderbooks := map_put (sub_symbol m) b' (orderbooks srv2), next_order := Suc ?q\<rparr>"
  define srv4 where "srv4 = run_callbacks w 0 b' evs srv3"
  have "next_order srv2 = ?q" by (simp add: srv2_def srv1_def subscribe_def)
  then have "add_to_book w (sub_symbol m) b ?ord srv2 = Some (heap b' ?q, srv4)"
    using run by (simp add: add_to_book_def submit_at_def srv3_def srv4_def Let_def)
  then obtain srv' where h: "handleOrderSubmit w m p srv = Some srv'"
    "orderbooks srv' = orderbooks srv4" "orders_table tab srv' = orders_table tab srv4"
    using book unfolding handleOrderSubmit_def srv2_def srv1_def submitted_order_def Let_def by simp
  have "orders_table tab srv1 = Some rs" using rows by (simp add: srv1_def)
  then have "orders_table tab srv3 = Some (rs @ [order_row_of (w_clock w 1) ?ord])"
    using table_saveOrder[OF sql, of srv1 rs ?ord] plain rows by (simp add: srv3_def srv2_def plain_submission_def)
  from table_callbacks[OF sql this] have "orders_table tab srv4 =
      Some (map (tell (heap b') (event_orders evs)) (rs @ [order_row_of (w_clock w 1) ?ord]))"
    unfolding srv4_def .
  moreover have "orderbooks srv4 = map_put (sub_symbol m) b' (orderbooks srv)"
    by (simp add: srv4_def srv3_def srv2_def srv1_def subscribe_def)
  ultimately show thesis using that run h by (simp add: submit_at_def)
qed

lemma mirrors_unknown:
  assumes "mirrors m rs" and "map_find m smb = Some b" and "book_inv b" and "i \<notin> r_id ` set rs"
  shows "orders_by_id b i = None"
proof (rule ccontr)
  assume "orders_by_id b i \<noteq> None"
  then obtain q where "orders_by_id b i = Some q" by blast
  note known = known_order[OF assms(3) this]
  obtain r where "r \<in> set rs" "row_agrees r (heap b q)" using mirrorsD(2)[OF assms(1,2) known(2)] by blast
  then have "i \<in> r_id ` set rs" using known(1) by (intro rev_image_eqI[of r]) (simp_all add: row_agrees_def)
  then show False using assms(4) by blast
qed

lemma mirrored_submit:
  assumes inv: "server_inv srv" and mir: "mirrored tab srv"
    and sql: "durable_sql (w_sql w) tab" and plain: "plain_submission tab w m srv"
    and run: "handleOrderSubmit w m p srv = Some srv'"
  shows "mirrored tab srv'"
proof (cases "getOrderbook (sub_symbol m) srv")
  case None
  then show ?thesis using run mir by (auto simp: handleOrderSubmit_def mirrored_def)
next
  case (Some b)
  let ?q = "next_order srv" and ?ord = "submitted_order w m b" and ?now = "\<lambda>k. w_clock w (k + 2)"
  let ?r = "order_row_of (w_clock w 1) ?ord"
  obtain rs where home: "at_home (orderbooks srv)" and rows: "orders_table tab srv = Some rs"
    and mrs: "mirrors (orderbooks srv) rs" using mir by (auto simp: mirrored_def)
  obtain ok evs b' where add: "addOrder ?now (Some ?q) (set_order ?q ?ord b) = Some (ok, evs, b')"
    and books: "orderbooks srv' = map_put (sub_symbol m) b' (orderbooks srv)"
    and rows': "orders_table tab srv' = Some (map (tell (heap b') (event_orders evs)) (rs @ [?r]))"
    by (rule handleOrderSubmit_rows[OF inv Some sql rows plain, of p]) (use run in simp)
  have find: "map_find (orderbooks srv) (sub_symbol m) = Some b" using Some by (simp add: getOrderbook_def)
  have sb: "served_book (sub_symbol m) b" "book_below ?q b"
    using svc.served_find[OF _ find] inv by (auto simp: server_inv_def)
  have bi: "book_inv b" and new: "?q \<notin> ran (orders_by_id b)" and cb: "order_callback b"
    using sb below_not_ran by (auto simp: served_book_def intro: reachable_inv)
  have fresh: "uuid w \<notin> r_id ` set rs" using plain rows by (simp add: plain_submission_def)
  have agrees: "row_agrees ?r ?ord" using plain by (rule submitted_row_agrees)
  show ?thesis
  proof (cases "sub_quantity m = 0")
    case True
    then have b': "evs = []" "b' = set_order ?q ?ord b" using add by (simp_all add: addOrder_def)
    have same: "in_book b' q = in_book b q" "in_book b q \<Longrightarrow> heap b' q = heap b q" for q
      using new in_book_open[OF bi, of q] by (auto simp: b' in_book_def open_order_def indexed_def ran_def)
    have "mirrors (orderbooks srv) (rs @ [?r])"
      using mrs by (rule mirrors_extra_row) (use fresh agrees True in \<open>simp_all add: row_agrees_def\<close>)
    then have "mirrors (orderbooks srv') (rs @ [?r])"
      unfolding books by (rule mirrors_replace) (use find same in auto)
    moreover have "at_home (orderbooks srv')"
      unfolding books using home find by (rule at_home_replace) (use same in auto)
    ultimately show ?thesis using rows' b'(1) by (auto intro: mirroredI simp: tell_def map_idI)
  next
    case False
    have ord: "active ?ord" "wf_order ?ord"
      using submittable_new False by (auto simp: submitted_order_def wf_new_order active_new_order)
    have c: "book_inv (set_order ?q ?ord b)" using bi new by (rule alloc_inv)
    have "acceptable ?q (set_order ?q ?ord b)"
      using False mirrors_unknown[OF mrs find bi fresh] by (simp add: acceptable_def)
    then have ok: "ok" using addOrder_run[OF c, of ?q ?now] ord add by auto
    have sub: "submission ?now (orderbooks srv) rs (sub_symbol m) b ?q ?ord ?r b'"
      unfolding submission_def using mrs find bi new ord fresh agrees add ok by simp
    have evs: "evs = callbacks ?q b'" "order_callback b'"
      using addOrder_accepted[OF c, of ?q ?now evs b'] ord add ok cb accepted_recorded(4)[of ?q "set_order ?q ?ord b" ?now b']
      by (auto simp: same_settings_def)
    then have "orders_table tab srv' = Some (map (tell (heap b') (participants ?q b')) (rs @ [?r]))"
      using rows' event_orders_callbacks by simp
    then show ?thesis using mirrors_submission[OF sub] at_home_submission[OF sub home] books
      by (intro mirroredI) simp_all
  qed
qed

subsection \<open>Other requests\<close>

lemma mirrored_cancel:
  assumes inv: "server_inv srv" and mir: "mirrored tab srv" and sql: "durable_sql (w_sql w) tab"
  shows "mirrored tab (handleOrderCancel w m p srv)"
proof -
  have served: "svc.served (next_order srv) (orderbooks srv)" using inv by (simp add: server_inv_def)
  note sweep = cancel_sweep_lookup[OF served, of "can_order_id m"]
  consider (Own) "order_owners srv (can_order_id m) \<noteq> Some (client_of p srv)"
    | (None) "book_of_order (can_order_id m) (orderbooks srv) = None"
    | (Some) smb b where "order_owners srv (can_order_id m) = Some (client_of p srv)"
        "book_of_order (can_order_id m) (orderbooks srv) = Some (smb, b)"
    by (cases "book_of_order (can_order_id m) (orderbooks srv)") auto
  then show ?thesis
  proof cases
    case Own
    then show ?thesis using mir by (simp add: handleOrderCancel_def mirrored_def)
  next
    case None
    then show ?thesis using mir sweep by (simp add: handleOrderCancel_def mirrored_def)
  next
    case Some
    have mem: "(smb, b) \<in> set (orderbooks srv)" and "getOrder (can_order_id m) b \<noteq> None"
      using Some(2) by (auto simp: book_of_order_def find_Some_iff in_set_conv_nth)
    then obtain q where q: "orders_by_id b (can_order_id m) = Some q" by (auto simp: getOrder_def)
    have find: "map_find (orderbooks srv) smb = Some b" using svc.served_inv[OF served] mem by (rule in_map_find)
    have bi: "book_inv b" and cb: "order_callback b"
      using svc.served_entry[OF served mem] by (auto simp: served_book_def intro: reachable_inv)
    let ?b = "withdraw q b" and ?srv = "srv\<lparr>orderbooks := map_put smb (withdraw q b) (orderbooks srv)\<rparr>"
    have run: "handleOrderCancel w m p srv = onOrderUpdated w (heap ?b q) ?srv"
      using Some sweep cancelOrder_known[OF bi q] cb by (simp add: handleOrderCancel_def)
    obtain rs where home: "at_home (orderbooks srv)" and rows: "orders_table tab srv = Some rs"
      and mrs: "mirrors (orderbooks srv) rs" using mir by (auto simp: mirrored_def)
    have "orderbooks (onOrderUpdated w (heap ?b q) ?srv) = map_put smb ?b (orderbooks srv)"
      using notifies_order[of ?srv w "heap ?b q"] by (simp add: notifies_def)
    moreover have "orders_table tab (onOrderUpdated w (heap ?b q) ?srv) = Some (map (told (heap ?b q)) rs)"
      using sql by (rule table_order) (simp add: rows)
    moreover have "at_home (map_put smb ?b (orderbooks srv))"
      using home find by (rule at_home_replace) (auto simp: withdraw_in_book[OF bi] withdraw_heap)
    ultimately show ?thesis unfolding run using mirrors_cancel[OF mrs find bi q] by (auto intro: mirroredI)
  qed
qed

lemma empty_new_book [simp]: "\<not> in_book (setTradeCallback (setOrderCallback (new_book smb tick h))) q"
  by (simp add: in_book_def in_levels_def setTradeCallback_def setOrderCallback_def new_book_def)

lemma mirrored_create: "mirrored tab srv \<Longrightarrow> mirrored tab (snd (createOrderbookTick smb tick srv))"
  by (auto simp: createOrderbookTick_def Let_def mirrored_def intro!: at_home_put mirrors_replace)

lemma mirrored_tick: "mirrored tab srv \<Longrightarrow> mirrored tab (snd (setOrderbookTickSize smb tick srv))"
  by (auto simp: setOrderbookTickSize_def mirrored_def setTickSize_def in_book_def
      intro!: mirrors_replace split: option.splits intro: at_home_replace)

lemma mirrored_snapshot:
  assumes "mirrored tab srv"
  shows "mirrored tab (handleSnapshotRequest w m p srv)"
proof -
  let ?s = "subscribe (client_of p srv) (req_symbol m) srv"
  have s: "mirrored tab ?s"
    using assms mirrored_cong[of ?s srv tab] by (simp add: subscribe_def orders_table_def)
  obtain ok srv2 where c: "createOrderbook (req_symbol m) ?s = (ok, srv2)" by (cases "createOrderbook (req_symbol m) ?s")
  then have "mirrored tab srv2" using mirrored_create[OF s] by (metis createOrderbook_def snd_conv)
  with s c show ?thesis by (auto simp: handleSnapshotRequest_def Let_def mirrored_def split: option.splits)
qed

lemma books_session [simp]: "orderbooks (set_session p s srv) = orderbooks srv"
  by (simp add: set_session_def)

lemma mirrored_session [simp]: "mirrored tab (set_session p s srv) = mirrored tab srv"
  by (simp add: mirrored_def)

lemma mirrored_send [simp]: "mirrored tab (send_to w p msg srv) = mirrored tab srv"
  by (simp add: mirrored_def)

lemma mirrored_login: "mirrored tab srv \<Longrightarrow> mirrored tab (handleLogin w m p srv)"
  by (simp add: handleLogin_def Let_def split: option.split)

lemma mirrored_status: "mirrored tab srv \<Longrightarrow> mirrored tab (handleOrderStatus w m p srv)"
  by (simp add: handleOrderStatus_def Let_def split: option.split)

lemma mirrored_register:
  assumes "mirrored tab srv" and "durable_sql (w_sql w) tab"
  shows "mirrored tab (handleRegister w m p srv)"
proof -
  have "mirrored tab (srv\<lparr>order_store := Some (snd (saveUser (w_sql w) draw user st))\<rparr>)" if st: "order_store srv = Some st" for draw user st
  proof -
    obtain d where d: "os_db st = Some d" using assms(1) st by (auto simp: mirrored_def orders_table_def)
    then have "orders_table tab (srv\<lparr>order_store := Some (snd (saveUser (w_sql w) draw user st))\<rparr>) = orders_table tab srv"
      using durable_sqlD(4)[OF assms(2)] st by (simp add: orders_table_def saveUser_def Let_def case_prod_beta)
    then show ?thesis using assms(1) by (simp add: mirrored_def)
  qed
  then show ?thesis using assms(1) by (simp add: handleRegister_def Let_def case_prod_beta split: option.split)
qed

lemma mirrored_requireAuth: "mirrored tab srv \<Longrightarrow> mirrored tab (snd (requireAuth w p perm srv))"
  by (simp add: requireAuth_def Let_def)

lemma table_requireAuth [simp]: "orders_table tab (snd (requireAuth w p perm srv)) = orders_table tab srv"
  by (simp add: requireAuth_def Let_def)

lemma mirrored_guarded:
  assumes "guarded w p perm h srv = Some srv'" and "server_inv srv" and "mirrored tab srv"
    and "\<And>s s'. server_inv s \<Longrightarrow> mirrored tab s \<Longrightarrow> orders_table tab s = orders_table tab srv \<Longrightarrow> h s = Some s' \<Longrightarrow> mirrored tab s'"
  shows "mirrored tab srv'"
proof -
  obtain ok srv1 where r: "requireAuth w p perm srv = (ok, srv1)" by (cases "requireAuth w p perm srv")
  have "server_inv srv1" "mirrored tab srv1" "orders_table tab srv1 = orders_table tab srv"
    using server_inv_requireAuth[OF assms(2), of w p perm] mirrored_requireAuth[OF assms(3), of w p perm]
      table_requireAuth[of tab w p perm srv] r by simp_all
  then show ?thesis using assms(1,4) r by (auto simp: guarded_def split: if_splits)
qed

lemma mirrored_handle:
  assumes inv: "server_inv srv" and mir: "mirrored tab srv" and sql: "durable_sql (w_sql w) tab"
    and plain: "\<And>m. msg = OrderSubmit m \<Longrightarrow> plain_submission tab w m srv"
    and run: "handleMessage w (Some msg) p srv = Some srv'"
  shows "mirrored tab srv'"
proof (cases msg)
  case (OrderSubmit m)
  then have "guarded w p ''trade'' (handleOrderSubmit w m p) srv = Some srv'" using run by (simp add: handleMessage_def)
  then show ?thesis using inv mir
  proof (rule mirrored_guarded)
    fix s s' assume s: "server_inv s" "mirrored tab s" "orders_table tab s = orders_table tab srv" "handleOrderSubmit w m p s = Some s'"
    have "plain_submission tab w m s" using plain[OF OrderSubmit] s(3) by (simp add: plain_submission_def)
    then show "mirrored tab s'" using mirrored_submit[OF s(1,2) sql] s(4) by blast
  qed
next
  case (OrderCancel m)
  with run have "guarded w p ''trade'' (\<lambda>s. Some (handleOrderCancel w m p s)) srv = Some srv'" by (simp add: handleMessage_def)
  then show ?thesis using inv mir by (rule mirrored_guarded) (auto intro: mirrored_cancel[OF _ _ sql])
next
  case (OrderStatusMsg m)
  with run have "guarded w p ''view'' (\<lambda>s. Some (handleOrderStatus w m p s)) srv = Some srv'" by (simp add: handleMessage_def)
  then show ?thesis using inv mir by (rule mirrored_guarded) (auto intro: mirrored_status)
next
  case (SnapshotRequest m)
  with run have "guarded w p ''view'' (\<lambda>s. Some (handleSnapshotRequest w m p s)) srv = Some srv'" by (simp add: handleMessage_def)
  then show ?thesis using inv mir by (rule mirrored_guarded) (auto intro: mirrored_snapshot)
qed (use run mir mirrored_login mirrored_register[OF mir sql] in \<open>auto simp: handleMessage_def\<close>)

subsection \<open>Steps\<close>

lemma action_events: "\<exists>evs. events (session_run_action e a s) = events s @ evs \<and> length evs \<le> 1"
proof -
  have cl: "\<exists>evs. events (close t) = events t @ evs \<and> length evs \<le> 1" for t
    by (simp add: close_def Let_def)
  show ?thesis
  proof (cases a)
    case (HeaderDone c)
    then show ?thesis
      using cl[of "s\<lparr>pending_read := None\<rparr>"] cl[of "s\<lparr>pending_read := None, length_buffer := bs\<rparr>" for bs]
      by (cases c) (auto simp: header_done_def Let_def)
  next
    case (ContentDone c)
    then show ?thesis using cl[of "s\<lparr>pending_read := None\<rparr>"]
      by (cases c) (auto simp: content_done_def doRead_def Let_def)
  next
    case (WriteDone ok)
    then show ?thesis using cl[of "s\<lparr>pending_writes := ws\<rparr>" for ws]
      by (auto simp: write_done_def doWriteNext_def Let_def split: list.split)
  qed (use cl in \<open>auto simp: injectTestMessage_def\<close>)
qed

lemma mirrored_remove: "mirrored tab srv \<Longrightarrow> removeSession {} p srv = Some srv' \<Longrightarrow> mirrored tab srv'"
  by (auto simp: removeSession_free mirrored_def orders_table_def)

text \<open>The messages that an operation of a session hands to the server.\<close>

definition delivers :: "'db world \<Rightarrow> session_action \<Rightarrow> nat \<Rightarrow> 'db server \<Rightarrow> session_event list" where
  "delivers w a p srv =
     drop (length (events (session_heap srv p))) (events (session_run_action (w_env w) a (session_heap srv p)))"

lemma mirrored_op:
  assumes inv: "server_inv srv" and mir: "mirrored tab srv" and sql: "durable_sql (w_sql w) tab"
    and plain: "\<And>m. Delivered (OrderSubmit m) \<in> set (delivers w a p srv) \<Longrightarrow> plain_submission tab w m srv"
    and run: "session_op w {} (session_run_action (w_env w) a) p srv = Some srv'"
  shows "mirrored tab srv'"
proof -
  let ?s = "session_run_action (w_env w) a (session_heap srv p)"
  let ?srv = "set_session p ?s srv"
  have inv1: "server_inv ?srv" using inv by (rule server_inv_session) (rule identity_client, simp)
  have mir1: "mirrored tab ?srv" using mir by simp
  have d: "dispatch w {} p (delivers w a p srv) ?srv = Some srv'" using run by (simp add: session_op_def delivers_def Let_def)
  have len: "length (delivers w a p srv) \<le> 1" using action_events[of "w_env w" a "session_heap srv p"] by (auto simp: delivers_def)
  show ?thesis
  proof (cases "delivers w a p srv")
    case Nil
    then show ?thesis using d mir1 by simp
  next
    case (Cons ev evs)
    with len have nil: "evs = []" by simp
    show ?thesis
    proof (cases ev)
      case (Delivered msg)
      then have h: "handleMessage w (Some msg) p ?srv = Some srv'"
        using d Cons nil by (cases "handleMessage w (Some msg) p ?srv") simp_all
      have "plain_submission tab w m ?srv" if "msg = OrderSubmit m" for m
        using plain[of m] Cons Delivered that by (simp add: plain_submission_def)
      then show ?thesis by (rule mirrored_handle[OF inv1 mir1 sql _ h])
    next
      case Disconnected
      then have "removeSession {} p ?srv = Some srv'" using d Cons nil by (cases "removeSession {} p ?srv") simp_all
      then show ?thesis by (rule mirrored_remove[OF mir1])
    qed
  qed
qed

lemma mirrored_snapshots: "mirrored tab srv \<Longrightarrow> mirrored tab (sendOrderbookSnapshots w srv)"
proof -
  have "order_store (fold (\<lambda>(smb, message) srv1. fold (\<lambda>p. send_to w p message) (subscribers smb srv) srv1) snaps srv1) =
      order_store srv1" for snaps srv1
    by (induction snaps arbitrary: srv1) (simp_all add: case_prod_beta)
  then have "orders_table tab (sendOrderbookSnapshots w srv) = orders_table tab srv"
    by (intro orders_table_cong) (simp add: sendOrderbookSnapshots_def)
  then show "mirrored tab srv \<Longrightarrow> ?thesis"
    using notifies_snapshots[of srv w] mirrored_cong[of "sendOrderbookSnapshots w srv" srv] by (simp add: notifies_def)
qed

text \<open>
  The steps of a running server without a generator. The submissions that a client's bytes deliver
  get new identifiers and have no null characters in their texts.
\<close>

inductive durable_step :: "'db sqlite \<Rightarrow> ('db \<Rightarrow> tables) \<Rightarrow> 'db server \<Rightarrow> 'db server \<Rightarrow> bool" for sq tab where
  create: "durable_step sq tab srv (snd (createOrderbookTick smb tick srv))"
| tick: "durable_step sq tab srv (snd (setOrderbookTickSize smb tick srv))"
| auth: "durable_step sq tab srv (srv\<lparr>auth_required := f\<rparr>)"
| path: "durable_step sq tab srv (srv\<lparr>db_path := name\<rparr>)"
| interval: "durable_step sq tab srv (srv\<lparr>snapshot_interval_ms := n\<rparr>)"
| accept: "durable_step sq tab srv (accept_done w ok srv)"
| timer: "durable_step sq tab srv (timer_done w ok srv)"
| session: "w_sql w = sq \<Longrightarrow> session_op w {} (session_run_action (w_env w) a) p srv = Some srv' \<Longrightarrow>
    (\<And>m. Delivered (OrderSubmit m) \<in> set (delivers w a p srv) \<Longrightarrow> plain_submission tab w m srv) \<Longrightarrow>
    durable_step sq tab srv srv'"

lemma durable_server_step: "durable_step sq tab srv srv' \<Longrightarrow> server_step srv srv'"
  by (induction rule: durable_step.induct) (auto intro: server_step.intros)

lemma durable_step_mirrored:
  assumes sql: "durable_sql sq tab" and "durable_step sq tab srv srv'" and "server_inv srv" and "mirrored tab srv"
  shows "mirrored tab srv'"
  using assms(2-)
proof (induction rule: durable_step.induct)
  case (accept srv w ok)
  then show ?case by (simp add: accept_done_def Let_def mirrored_def orders_table_def set_session_def)
next
  case (timer srv w ok)
  have "mirrored tab (srv\<lparr>snapshot_timer := False\<rparr>)" using timer by (simp add: mirrored_def orders_table_def)
  from mirrored_snapshots[OF this, of w] this show ?case
    by (simp add: timer_done_def Let_def startSnapshotTimer_def mirrored_def orders_table_def)
next
  case (session w a p srv srv')
  then show ?case using sql by (intro mirrored_op[of srv tab w a p srv']) simp_all
qed (auto simp: mirrored_create mirrored_tick, auto simp: mirrored_def orders_table_def)

end
