(* ===== verification/Server_Main.thy ===== *)
theory Server_Main
  imports Server_Theorems
begin

text \<open>
  The main program of the server (\<^verbatim>\<open>server/src/main.cpp\<close>): parsing of the command line and the set-up
  that composes the components, and the signal handler that ends it. \<^verbatim>\<open>io_context.run()\<close>, what runs after the
  set-up, is the step relation of the server; the usage text is left out.
\<close>

record options =
  opt_port :: "16 word"
  opt_symbols :: "string list"
  opt_interval :: int
  opt_generator :: bool
  opt_benchmark :: bool
  opt_auth :: bool
  opt_db_path :: string

definition default_options :: options where
  "default_options = \<lparr>opt_port = 8080, opt_symbols = [''AAPL''], opt_interval = 1000, opt_generator = False,
     opt_benchmark = False, opt_auth = False, opt_db_path = ''orderbook.db''\<rparr>"

datatype outcome = Run options | Exit int

text \<open>The loop that splits at commas and keeps what is not empty; \<open>prev\<close> is the text since \<^verbatim>\<open>prev_pos\<close>.\<close>

fun split_symbols :: "string \<Rightarrow> string \<Rightarrow> string list" where
  "split_symbols prev [] = (if prev = [] then [] else [prev])"
| "split_symbols prev (c # s) =
     (if c = CHR '','' then (if prev = [] then split_symbols [] s else prev # split_symbols [] s)
      else split_symbols (prev @ [c]) s)"

fun parse_args :: "string list \<Rightarrow> options \<Rightarrow> outcome" where
  "parse_args [] opts = Run opts"
| "parse_args (arg # args) opts =
     (if arg = ''-h'' \<or> arg = ''--help'' then Exit 0
      else if arg = ''-p'' \<or> arg = ''--port'' then
        (case args of
           [] \<Rightarrow> Exit 1
         | value # rest \<Rightarrow>
             (case stoi value of
                None \<Rightarrow> Exit 1
              | Some port \<Rightarrow> parse_args rest (opts\<lparr>opt_port := word_of_int port\<rparr>)))
      else if arg = ''-s'' \<or> arg = ''--symbols'' then
        (case args of
           [] \<Rightarrow> Exit 1
         | value # rest \<Rightarrow>
             let syms = split_symbols [] value
             in parse_args rest (opts\<lparr>opt_symbols := (if syms = [] then [''AAPL''] else syms)\<rparr>))
      else if arg = ''-i'' \<or> arg = ''--interval'' then
        (case args of
           [] \<Rightarrow> Exit 1
         | value # rest \<Rightarrow>
             (case stoi value of
                None \<Rightarrow> Exit 1
              | Some ms \<Rightarrow> parse_args rest (opts\<lparr>opt_interval := (if ms < 100 then 100 else ms)\<rparr>)))
      else if arg = ''-g'' \<or> arg = ''--generator'' then parse_args args (opts\<lparr>opt_generator := True\<rparr>)
      else if arg = ''-b'' \<or> arg = ''--benchmark'' then
        (let opts1 = opts\<lparr>opt_generator := True, opt_benchmark := True\<rparr>
         in case args of
              [] \<Rightarrow> parse_args args opts1
            | value # rest \<Rightarrow>
                if take 1 value \<noteq> ''-''
                then (case stoi value of None \<Rightarrow> Exit 1 | Some n \<Rightarrow> parse_args rest opts1)
                else parse_args args opts1)
      else if arg = ''-a'' \<or> arg = ''--auth'' then parse_args args (opts\<lparr>opt_auth := True\<rparr>)
      else if arg = ''-d'' \<or> arg = ''--db-path'' then
        (case args of [] \<Rightarrow> Exit 1 | value # rest \<Rightarrow> parse_args rest (opts\<lparr>opt_db_path := value\<rparr>))
      else Exit 1)"

fun create_books :: "string list \<Rightarrow> 'db server \<Rightarrow> 'db server" where
  "create_books [] srv = srv"
| "create_books (smb # syms) srv = create_books syms (snd (createOrderbook smb srv))"

definition main_config :: "string \<Rightarrow> double \<Rightarrow> gen_config" where
  "main_config smb tick =
     \<lparr>c_symbol = smb, c_price_range = fl (3 / 100), c_tick_size = tick, c_min_quantity = 1, c_max_quantity = 100,
      c_min_interval_ms = 1, c_max_interval_ms = 10, c_buy_probability = fl (55 / 100),
      c_cancel_probability = fl (3 / 10), c_spread_factor = fl (5 / 1000), c_max_tracked_orders = 500\<rparr>"

text \<open>The book of the first symbol is dereferenced without a check: with no such book the program ends there.\<close>

definition setup_generator :: "options \<Rightarrow> 'db server \<Rightarrow> 'db server option" where
  "setup_generator opts srv =
     (if \<not> opt_generator opts then Some srv
      else let smb = hd (opt_symbols opts)
           in case getOrderbook smb srv of
                None \<Rightarrow> None
              | Some b \<Rightarrow> Some (configureOrderGenerator (main_config smb (getTickSize b)) srv))"

text \<open>
  How the program goes on after the command line: it serves, from the given state, or it has caught an exception
  and returns with a code. \<open>Stuck\<close> is a set-up that does not come to its end (the missing book above, or an
  order restored into a book that never stops matching).
\<close>

datatype 'db main_result = Serves "'db server" | Returns int | Stuck

text \<open>
  \<open>w\<close> and \<open>v\<close> are the worlds of the call of \<^verbatim>\<open>initPersistence\<close> and of \<^verbatim>\<open>start\<close>, which may call it again; \<open>binds\<close> are the
  ports the system grants. The constructor of the server throws when it does not get its port; the exception is
  caught at the end of \<^verbatim>\<open>main\<close>, which returns 1.
\<close>

definition set_up :: "'db world \<Rightarrow> 'db world \<Rightarrow> options \<Rightarrow> 'db server \<Rightarrow> 'db server option" where
  "set_up w v opts srv =
     do {
       let srv1 = setDatabasePath (opt_db_path opts) (setAuthRequired (opt_auth opts)
                    (setSnapshotInterval (opt_interval opts) srv));
       let srv2 = create_books (opt_symbols opts) srv1;
       (ok, srv3) \<leftarrow> initPersistence w srv2;
       srv4 \<leftarrow> setup_generator opts srv3;
       start_server v srv4
     }"

definition run_main :: "(16 word \<Rightarrow> bool) \<Rightarrow> 'db world \<Rightarrow> 'db world \<Rightarrow> options \<Rightarrow> 'db main_result" where
  "run_main binds w v opts =
     (case construct_server binds (opt_port opts) of
        None \<Rightarrow> Returns 1
      | Some srv \<Rightarrow> (case set_up w v opts srv of None \<Rightarrow> Stuck | Some srv' \<Rightarrow> Serves srv'))"

lemma run_main_served:
  "set_up w v opts new_server = Some srv \<Longrightarrow>
   run_main binds w v opts = (if binds (opt_port opts) then Serves srv else Returns 1)"
  by (simp add: run_main_def construct_server_def)

subsection \<open>Shutdown\<close>

text \<open>The numbers of the benchmark report; the ratio is printed only when there were orders.\<close>

record benchmark =
  bm_duration :: int
  bm_orders :: "64 word"
  bm_orders_per_sec :: double
  bm_trades :: "64 word"
  bm_trades_per_sec :: double
  bm_ratio :: "double option"

definition u64_double :: "64 word \<Rightarrow> double" where
  "u64_double n = fl (of_nat (unat n))"

text \<open>\<open>None\<close> when nothing is printed, \<open>Some None\<close> when less than a second has passed.\<close>

definition final_results :: "int \<Rightarrow> 64 word \<Rightarrow> 64 word \<Rightarrow> benchmark option option" where
  "final_results elapsed n_orders n_trades =
     (if n_orders > 0 \<or> n_trades > 0 then
        Some (if elapsed > 0 then
                Some \<lparr>bm_duration = elapsed, bm_orders = n_orders,
                      bm_orders_per_sec = fl (u64_double n_orders / fl (of_int elapsed)),
                      bm_trades = n_trades,
                      bm_trades_per_sec = fl (u64_double n_trades / fl (of_int elapsed)),
                      bm_ratio = (if n_orders > 0
                        then Some (fl (fl (u64_double n_trades / u64_double n_orders) * 100)) else None)\<rparr>
              else None)
      else None)"

text \<open>
  The handler of \<^verbatim>\<open>SIGINT\<close> and \<^verbatim>\<open>SIGTERM\<close>: what it prints, and the state in which it stops the \<^verbatim>\<open>io_context\<close>, \<open>None\<close> when
  it never gets there. The readings are those of the steady clock, which does not go back.
\<close>

definition signal_handler ::
  "'db world \<Rightarrow> nat list \<Rightarrow> time \<Rightarrow> time \<Rightarrow> 'db server option \<Rightarrow> benchmark option option \<times> 'db server option option" where
  "signal_handler w ps start_time now server =
     (let n_orders = (case server of Some srv \<Rightarrow> getOrderCount srv | None \<Rightarrow> 0);
          n_trades = (case server of Some srv \<Rightarrow> getTradeCount srv | None \<Rightarrow> 0);
          elapsed = (now - start_time) div 10 ^ 9
      in (final_results elapsed n_orders n_trades,
          case server of
            None \<Rightarrow> Some None
          | Some srv \<Rightarrow> map_option Some (stop_server w ps srv)))"

text \<open>With a connected client the handler hangs, before the \<^verbatim>\<open>io_context\<close> is stopped.\<close>

lemma signal_handler_hangs:
  "snd (signal_handler w ps t0 t (Some srv)) = None \<longleftrightarrow> (\<exists>p \<in> set ps. disconnect_callback (session_heap srv p))"
  using stop_never_returns[of w ps srv] by (simp add: signal_handler_def Let_def)

subsection \<open>Set-up\<close>

definition options_ok :: "options \<Rightarrow> bool" where
  "options_ok opts \<longleftrightarrow> opt_symbols opts \<noteq> [] \<and> 100 \<le> opt_interval opts \<and> [] \<notin> set (opt_symbols opts)"

lemma split_symbols_nonempty: "[] \<notin> set (split_symbols prev s)"
  by (induction prev s rule: split_symbols.induct) auto

lemma options_ok_updates [simp]:
  "options_ok (opts\<lparr>opt_port := p\<rparr>) = options_ok opts"
  "options_ok (opts\<lparr>opt_generator := g\<rparr>) = options_ok opts"
  "options_ok (opts\<lparr>opt_benchmark := g\<rparr>) = options_ok opts"
  "options_ok (opts\<lparr>opt_generator := g, opt_benchmark := h\<rparr>) = options_ok opts"
  "options_ok (opts\<lparr>opt_auth := a\<rparr>) = options_ok opts"
  "options_ok (opts\<lparr>opt_db_path := d\<rparr>) = options_ok opts"
  "options_ok opts \<Longrightarrow> options_ok (opts\<lparr>opt_interval := (if n < 100 then 100 else n)\<rparr>)"
  "options_ok opts \<Longrightarrow> options_ok (opts\<lparr>opt_symbols := (if split_symbols [] v = [] then [''AAPL''] else split_symbols [] v)\<rparr>)"
  using split_symbols_nonempty[of "[]" v] by (simp_all add: options_ok_def)

declare parse_args.simps(2) [simp del]

text \<open>One turn of the loop ends the program or goes on with fewer arguments and good options.\<close>

definition goes_on :: "nat \<Rightarrow> outcome \<Rightarrow> bool" where
  "goes_on n x \<longleftrightarrow> (\<exists>k. x = Exit k) \<or> (\<exists>rest opts. x = parse_args rest opts \<and> options_ok opts \<and> length rest \<le> n)"

lemma goes_on_exit: "goes_on n (Exit k)"
  by (simp add: goes_on_def)

lemma goes_on_rest: "options_ok opts \<Longrightarrow> length rest \<le> n \<Longrightarrow> goes_on n (parse_args rest opts)"
  by (auto simp: goes_on_def)

lemma goes_on_run: "options_ok opts \<Longrightarrow> goes_on n (Run opts)"
  using goes_on_rest[of opts "[]"] by simp

lemma parse_turn: "options_ok opts \<Longrightarrow> goes_on (length args) (parse_args (arg # args) opts)"
  unfolding parse_args.simps(2) Let_def
  by (simp add: goes_on_exit goes_on_rest goes_on_run split: list.split option.split)

lemma parse_args_ok: "options_ok opts \<Longrightarrow> parse_args args opts = Run opts' \<Longrightarrow> options_ok opts'"
proof (induction "length args" arbitrary: args opts rule: less_induct)
  case less
  show ?case
  proof (cases args)
    case Nil
    then show ?thesis using less(2,3) by simp
  next
    case (Cons arg rest)
    from parse_turn[OF less(2), of rest arg] less(3) obtain rest' o' where
      "parse_args rest' o' = Run opts'" "options_ok o'" "length rest' \<le> length rest"
      by (auto simp: Cons goes_on_def)
    then show ?thesis using less(1)[of rest' o'] by (simp add: Cons)
  qed
qed

lemma default_options_ok: "options_ok default_options"
  by (simp add: options_ok_def default_options_def)

text \<open>Books, once created, stay.\<close>

definition has_book :: "string \<Rightarrow> 'db server \<Rightarrow> bool" where
  "has_book s srv \<longleftrightarrow> getOrderbook s srv \<noteq> None"

lemma has_book_orderbooks: "has_book s srv \<longleftrightarrow> map_find (orderbooks srv) s \<noteq> None"
  by (simp add: has_book_def getOrderbook_def)

lemma create_known: "has_book smb (snd (createOrderbook smb srv))"
  by (simp add: has_book_orderbooks createOrderbook_def createOrderbookTick_def map_find_put Let_def)

lemma create_keeps: "has_book s srv \<Longrightarrow> has_book s (snd (createOrderbook smb srv))"
  by (simp add: has_book_orderbooks createOrderbook_def createOrderbookTick_def map_find_put Let_def)

lemma create_books_keeps: "has_book s srv \<Longrightarrow> has_book s (create_books syms srv)"
  by (induction syms arbitrary: srv) (simp_all add: create_keeps)

lemma create_books_known: "smb \<in> set syms \<Longrightarrow> has_book smb (create_books syms srv)"
  by (induction syms arbitrary: srv) (auto simp: create_books_keeps create_known)

lemma create_books_reachable: "reachable_server srv \<Longrightarrow> reachable_server (create_books syms srv)"
proof (induction syms arbitrary: srv)
  case (Cons s syms)
  have "reachable_server (snd (createOrderbook s srv))"
    unfolding createOrderbook_def using Cons.prems server_step.create by (rule reachable_server.step)
  then show ?case using Cons.IH by simp
qed simp

lemma create_books_interval: "snapshot_interval_ms (create_books syms srv) = snapshot_interval_ms srv"
  by (induction syms arbitrary: srv) (simp_all add: createOrderbook_def createOrderbookTick_def Let_def)

lemma add_to_book_keeps:
  "add_to_book w smb b ord srv = Some (ord', srv') \<Longrightarrow> has_book s srv \<Longrightarrow> has_book s srv'"
  by (auto simp: add_to_book_def has_book_orderbooks map_find_put Let_def split: option.splits)

lemma restore_keeps: "restore_orders w k ords srv = Some srv' \<Longrightarrow> has_book s srv \<Longrightarrow> has_book s srv'"
proof (induction ords arbitrary: k srv)
  case (Cons ord ords)
  then show ?case by (auto dest: add_to_book_keeps split: option.splits prod.splits)
qed simp

lemma initPersistence_keeps:
  "initPersistence w srv = Some (ok, srv') \<Longrightarrow> has_book s srv \<Longrightarrow> has_book s srv'"
  by (auto simp: initPersistence_def Let_def has_book_orderbooks[of s "srv\<lparr>order_store := x\<rparr>" for x]
        has_book_orderbooks[of s srv] split: prod.splits if_splits option.splits dest!: restore_keeps[of _ _ _ _ _ s])

lemma start_keeps:
  assumes "start_server w srv = Some srv'" and "has_book s srv"
  shows "has_book s srv'"
proof -
  obtain srv1 where s1: "has_book s srv1" and
    "(if order_store srv = None then map_option snd (initPersistence w srv) else Some srv) = Some srv1"
    using assms initPersistence_keeps[of w srv _ _ s]
    by (cases "initPersistence w srv") (auto simp: start_server_def split: if_splits)
  then show ?thesis using assms(1)
    by (auto simp: start_server_def startSnapshotTimer_def has_book_orderbooks Let_def)
qed

lemma setup_generator_returns:
  assumes "reachable_server srv" and "options_ok opts" and "list_all (\<lambda>s. has_book s srv) (opt_symbols opts)"
  shows "\<exists>srv'. setup_generator opts srv = Some srv' \<and> reachable_server srv' \<and>
    list_all (\<lambda>s. has_book s srv') (opt_symbols opts)"
proof (cases "opt_generator opts")
  case True
  obtain b where "getOrderbook (hd (opt_symbols opts)) srv = Some b"
    using assms(2,3) by (cases "opt_symbols opts") (auto simp: options_ok_def has_book_def)
  then show ?thesis
    using True assms(3) reachable_server.step[OF assms(1) server_step.configure]
    by (auto simp: setup_generator_def Let_def configureOrderGenerator_def has_book_orderbooks)
qed (use assms in \<open>simp add: setup_generator_def\<close>)

text \<open>
  C26. Start-up. Whatever command line is accepted, the main program returns 1 when the system does not grant
  the port, and otherwise its set-up completes, with or without a database, and leaves a
  server in a reachable state, so that everything proved of reachable servers holds of it: every
  configured symbol has its order book, restored orders included, and there is at least one.
\<close>

theorem main_starts:
  assumes "parse_args args default_options = Run opts"
  shows "\<exists>srv. run_main binds w v opts = (if binds (opt_port opts) then Serves srv else Returns 1) \<and> reachable_server srv \<and> opt_symbols opts \<noteq> [] \<and>
    100 \<le> opt_interval opts \<and> list_all (\<lambda>smb. getOrderbook smb srv \<noteq> None) (opt_symbols opts)"
proof -
  have opts: "options_ok opts" using default_options_ok assms by (rule parse_args_ok)
  define srv1 :: "'a server" where "srv1 = new_server\<lparr>snapshot_interval_ms := opt_interval opts,
    auth_required := opt_auth opts, db_path := opt_db_path opts\<rparr>"
  have "reachable_server srv1"
    unfolding srv1_def
    by (rule reachable_server.step[OF reachable_server.step[OF reachable_server.step[OF reachable_server.init
            server_step.interval] server_step.auth] server_step.path])
  then have r2: "reachable_server (create_books (opt_symbols opts) srv1)" by (rule create_books_reachable)
  obtain ok srv3 where i3: "initPersistence w (create_books (opt_symbols opts) srv1) = Some (ok, srv3)"
    using initPersistence_returns[OF reachable_server_inv[OF r2]] by blast
  have r3: "reachable_server srv3" using reachable_server.step[OF r2 server_step.persist[OF i3]] .
  have k3: "list_all (\<lambda>s. has_book s srv3) (opt_symbols opts)"
    using initPersistence_keeps[OF i3 create_books_known] by (simp add: list_all_iff)
  obtain srv4 where g: "setup_generator opts srv3 = Some srv4"
    and r4: "reachable_server srv4" and k4: "list_all (\<lambda>s. has_book s srv4) (opt_symbols opts)"
    using setup_generator_returns[OF r3 opts k3] by blast
  obtain srv where s: "start_server v srv4 = Some srv"
    using start_server_returns[OF reachable_server_inv[OF r4]] by blast
  have "reachable_server srv" using reachable_server.step[OF r4 server_step.launch[OF s]] .
  moreover have "run_main binds w v opts = (if binds (opt_port opts) then Serves srv else Returns 1)"
    using i3 g s by (intro run_main_served) (simp add: set_up_def srv1_def Let_def)
  moreover have "list_all (\<lambda>smb. getOrderbook smb srv \<noteq> None) (opt_symbols opts)"
    using start_keeps[OF s] k4 unfolding list_all_iff has_book_def by blast
  ultimately show ?thesis using opts by (auto simp: options_ok_def)
qed

theorem main_starts_witness:
  "\<exists>opts. parse_args [''-s'', ''A,,B'', ''-i'', ''5'', ''-a'', ''-g'', ''-p'', ''81''] default_options = Run opts \<and>
     opt_symbols opts = [''A'', ''B''] \<and> opt_interval opts = 100 \<and>
     (\<exists>srv. run_main (\<lambda>p. p \<noteq> 80) sample_world sample_world opts = Serves srv \<and> getOrderbook ''B'' srv \<noteq> None) \<and>
     run_main (\<lambda>p. 1024 \<le> p) sample_world sample_world opts = Returns 1"
proof -
  let ?args = "[''-s'', ''A,,B'', ''-i'', ''5'', ''-a'', ''-g'', ''-p'', ''81'']"
  obtain opts where o: "parse_args ?args default_options = Run opts"
    "opt_symbols opts = [''A'', ''B'']" "opt_interval opts = 100" "opt_port opts = 81"
  proof -
    have "case parse_args ?args default_options of
        Run opts \<Rightarrow> opt_symbols opts = [''A'', ''B''] \<and> opt_interval opts = 100 \<and> opt_port opts = 81 | Exit n \<Rightarrow> False" by code_simp
    then show thesis using that by (auto split: outcome.splits)
  qed
  have "\<exists>srv. run_main (\<lambda>p. p \<noteq> 80) sample_world sample_world opts = Serves srv \<and> getOrderbook ''B'' srv \<noteq> None"
    using main_starts[OF o(1), of "\<lambda>p. p \<noteq> 80" sample_world sample_world] o(2,4) by auto
  moreover have "run_main (\<lambda>p. 1024 \<le> p) sample_world sample_world opts = Returns 1"
    using main_starts[OF o(1), of "\<lambda>p. 1024 \<le> p" sample_world sample_world] o(4) by auto
  ultimately show ?thesis using o by blast
qed

end
