(* ===== verification/Recovery.thy ===== *)
theory Recovery
  imports Durable_Server Server_Main
begin

text \<open>
  A restart brings the books back. The rows that mirror the books of one run are loaded by the next one and
  submitted one after the other. Since the old books were not crossed, none of them trades, and
  every order ends up where it was, with what it had left.
\<close>

subsection \<open>Submitting an order that trades with nothing\<close>

lemma match_nothing:
  assumes inv: "book_inv_upto X b"
    and cross: "\<And>q. in_book b q \<Longrightarrow> o_type (heap b q) = LIMIT \<Longrightarrow> o_side (heap b q) \<noteq> o_side (heap b p) \<Longrightarrow>
      no_match (heap b p) (o_price (heap b q))"
  shows "matchOrder now p b = Some b"
proof (cases "best_level (o_side (heap b p)) (opposite (o_side (heap b p)) b)")
  case None
  then show ?thesis by (simp add: matchOrder.simps[of now p b])
next
  case (Some e)
  obtain k qs where e: "e = (k, qs)" by (cases e)
  note ok = opposite_ok[OF inv, of "o_side (heap b p)"]
  have find: "map_find (opposite (o_side (heap b p)) b) k = Some qs"
    using ok Some e by (intro best_level_find[of _ "o_side (heap b p)"]) (simp_all add: levels_ok_def)
  obtain q where q: "q \<in> set qs" using levels_okD(1)[OF ok find] by (cases qs) auto
  have "rests b (other_side (o_side (heap b p))) k q" using levels_okD(3)[OF ok find q] .
  moreover have "in_book b q" using find q by (cases "o_side (heap b p)") (auto simp: in_book_def in_levels_def opposite_def)
  ultimately have "no_match (heap b p) k" using cross[of q] by (cases "o_side (heap b p)") (auto simp: rests_def)
  then show ?thesis using Some e by (simp add: matchOrder.simps[of now p b])
qed

lemma in_book_enter [simp]: "in_book (enter p b) q = in_book b q" "heap (enter p b) = heap b"
  by (simp_all add: in_book_def enter_def)

lemma quiet_add:
  assumes inv: "book_inv b" and new: "p \<notin> ran (orders_by_id b)" and ord: "active ord" "wf_order ord"
    and rest: "o_remaining ord \<noteq> 0" "o_type ord \<noteq> MARKET" and unknown: "orders_by_id b (o_id ord) = None"
    and cross: "\<And>q. in_book b q \<Longrightarrow> o_type ord = LIMIT \<Longrightarrow> o_type (heap b q) = LIMIT \<Longrightarrow>
      o_side (heap b q) \<noteq> o_side ord \<Longrightarrow> no_match ord (o_price (heap b q))"
  obtains b' where "addOrder now (Some p) (set_order p ord b) = Some (True, callbacks p b', b')"
    "book_inv b'" "heap b' = (heap b)(p := ord)" "\<And>q. in_book b' q \<longleftrightarrow> q = p \<or> in_book b q"
    "pending_order_updates b' = []" "pending_trades b' = []" "order_callback b' = order_callback b"
proof -
  let ?c = "set_order p ord b"
  let ?e = "enter p ?c"
  have c: "book_inv ?c" using inv new by (rule alloc_inv)
  have out: "q \<noteq> p" if "in_book b q" for q
    using in_book_open[OF inv that] new by (auto simp: open_order_def indexed_def ran_def)
  have inb: "in_book ?c q = in_book b q" for q by (simp add: in_book_def)
  have acc: "acceptable p ?c" using rest unknown by (simp add: acceptable_def)
  have ent: "entered p ?e" using c acc by (rule enter_entered) (use ord in simp_all)
  obtain b' where b': "addOrder now (Some p) ?c = Some (True, callbacks p b', b')" "process_new now p ?e = Some b'" "book_inv b'"
    using process_new_inv[OF ent, of now] addOrder_accept[OF acc, of now] by auto
  have shape: "b' = (if isStopOrder ord then addStopOrder p ?e else addOrderToBook p ?e)"
  proof (cases "isStopOrder ord")
    case True
    then show ?thesis using b'(2) by (simp add: process_new_def)
  next
    case False
    then have lim: "o_type ord = LIMIT" using rest(2) by (cases "o_type ord") (simp_all add: isStopOrder_def)
    have "matchOrder now p ?e = Some ?e"
    proof (rule match_nothing)
      show "book_inv_upto {p} ?e" using entered_match_pre[OF ent] by (simp add: match_pre_def)
      fix q assume "in_book ?e q" "o_type (heap ?e q) = LIMIT" "o_side (heap ?e q) \<noteq> o_side (heap ?e p)"
      then show "no_match (heap ?e p) (o_price (heap ?e q))"
        using cross[of q] lim out[of q] by (simp add: inb)
    qed
    moreover have "settle p ?e = addOrderToBook p ?e" "pending_trades (addOrderToBook p ?e) = []"
      using rest lim ord(1) by (auto simp: settle_def active_iff u32_positive_iff addOrderToBook_def enter_def split: OrderSide.splits)
    ultimately show ?thesis using False b'(2) by (simp add: process_new_def Let_def)
  qed
  show thesis
    by (rule that[OF b'(1,3)])
      (use inb in \<open>auto simp: shape addStopOrder_def addOrderToBook_def in_book_def in_levels_push enter_def fun_eq_iff split: OrderSide.splits\<close>)
qed

subsection \<open>Rows that can be restored\<close>

abbreviation live_row :: "order_row \<Rightarrow> bool" where
  "live_row r \<equiv> o_remaining (order_of_row 0 r) \<noteq> 0"

text \<open>Rows of different orders that have a book and do not trade with each other.\<close>

definition peaceful :: "(string, book) std_map \<Rightarrow> order_row list \<Rightarrow> bool" where
  "peaceful m rows \<longleftrightarrow>
     (\<forall>r \<in> set rows. live_row r \<longrightarrow> c_str (r_id r) = r_id r \<and> o_type (order_of_row 0 r) \<noteq> MARKET \<and>
        map_find m (r_symbol r) \<noteq> None) \<and>
     (\<forall>r \<in> set rows. \<forall>r' \<in> set rows. live_row r \<and> live_row r' \<and> r_symbol r = r_symbol r' \<and>
        o_type (order_of_row 0 r) = LIMIT \<and> o_type (order_of_row 0 r') = LIMIT \<and>
        o_side (order_of_row 0 r') \<noteq> o_side (order_of_row 0 r) \<longrightarrow> no_match (order_of_row 0 r) (r_price r'))"

text \<open>The books hold exactly the orders of some rows.\<close>

definition brought_back :: "(string, book) std_map \<Rightarrow> order_row set \<Rightarrow> bool" where
  "brought_back m L \<longleftrightarrow>
     (\<forall>smb b q. map_find m smb = Some b \<and> in_book b q \<longrightarrow>
        (\<exists>r \<in> L. live_row r \<and> r_symbol r = smb \<and> untimed (heap b q) = order_of_row 0 r)) \<and>
     (\<forall>r \<in> L. live_row r \<longrightarrow>
        (\<exists>b q. map_find m (r_symbol r) = Some b \<and> in_book b q \<and> untimed (heap b q) = order_of_row 0 r))"

lemma brought_backD:
  assumes "brought_back m L"
  shows "map_find m smb = Some b \<Longrightarrow> in_book b q \<Longrightarrow>
      \<exists>r \<in> L. live_row r \<and> r_symbol r = smb \<and> untimed (heap b q) = order_of_row 0 r"
    "r \<in> L \<Longrightarrow> live_row r \<Longrightarrow>
      \<exists>b q. map_find m (r_symbol r) = Some b \<and> in_book b q \<and> untimed (heap b q) = order_of_row 0 r"
  using assms unfolding brought_back_def by blast+

text \<open>The rows after the callbacks of the restored orders.\<close>

definition touch :: "order_row \<Rightarrow> order_row" where
  "touch r = told (order_of_row 0 r) r"

definition touched :: "order_row set \<Rightarrow> order_row \<Rightarrow> order_row" where
  "touched L r = (if r \<in> L \<and> live_row r then touch r else r)"

lemma touched_id [simp]: "r_id (touched L r) = r_id r"
  by (simp add: touched_def touch_def)

lemma untimed_fields:
  assumes "untimed x = untimed y"
  shows "o_id x = o_id y" "o_symbol x = o_symbol y" "o_client_id x = o_client_id y" "o_side x = o_side y"
    "o_type x = o_type y" "o_price x = o_price y" "o_stop_price x = o_stop_price y"
    "o_remaining x = o_remaining y" "o_quantity x = o_quantity y" "o_status x = o_status y"
  using assms by (cases x; cases y; simp add: untimed_def)+

lemma untimed_order_of_row [simp]: "untimed (order_of_row 0 r) = order_of_row 0 r"
  by (simp add: untimed_row)

lemma order_of_row_fields [simp]:
  "o_symbol (order_of_row t r) = r_symbol r" "o_price (order_of_row t r) = r_price r"
  by (simp_all add: order_of_row_def new_order_def fill_def Let_def)

lemma restored_fields:
  assumes "untimed x = order_of_row 0 r"
  shows "o_id x = r_id r" "o_symbol x = r_symbol r" "o_price x = r_price r"
    "o_type x = o_type (order_of_row 0 r)" "o_side x = o_side (order_of_row 0 r)"
    "o_remaining x = o_remaining (order_of_row 0 r)" "told x = told (order_of_row 0 r)"
proof -
  note f = untimed_fields[of x "order_of_row 0 r"]
  have u: "untimed x = untimed (order_of_row 0 r)" using assms by simp
  show "o_id x = r_id r" "o_symbol x = r_symbol r" "o_price x = r_price r"
    "o_type x = o_type (order_of_row 0 r)" "o_side x = o_side (order_of_row 0 r)"
    "o_remaining x = o_remaining (order_of_row 0 r)"
    using f[OF u] by simp_all
  show "told x = told (order_of_row 0 r)" using f[OF u] by (simp add: fun_eq_iff told_def)
qed

lemma touched_step:
  assumes "distinct (map r_id rows)" and "set rows \<supseteq> insert r L" and "live_row r" and "c_str (r_id r) = r_id r"
    and "r \<notin> L" and "untimed ord = order_of_row 0 r"
  shows "map (told ord) (map (touched L) rows) = map (touched (insert r L)) rows"
proof -
  have "told ord (touched L r') = touched (insert r L) r'" if "r' \<in> set rows" for r'
  proof (cases "r' = r")
    case True
    then show ?thesis using assms(3,5) restored_fields(7)[OF assms(6)] by (simp add: touched_def touch_def)
  next
    case False
    then have "r_id r' \<noteq> r_id r" using row_unique[OF assms(1) that, of r] assms(2) by auto
    then have "c_str (o_id ord) \<noteq> r_id (touched L r')" using restored_fields(1)[OF assms(6)] assms(4) by simp
    then show ?thesis using False told_other by (simp add: touched_def)
  qed
  then show ?thesis by simp
qed

subsection \<open>One order\<close>

lemma add_to_book_rows:
  assumes "addOrder (\<lambda>k. w_clock w (k + 2)) (Some (next_order srv)) (set_order (next_order srv) ord b) = Some (ok, evs, b')"
    and "durable_sql (w_sql w) tab" and "orders_table tab srv = Some rows"
    and "add_to_book w smb b ord srv = Some (ord', srv1)"
  shows "orderbooks srv1 = map_put smb b' (orderbooks srv)"
    "orders_table tab srv1 = Some (map (tell (heap b') (event_orders evs)) rows)"
proof -
  let ?s = "srv\<lparr>orderbooks := map_put smb b' (orderbooks srv), next_order := Suc (next_order srv)\<rparr>"
  have "srv1 = run_callbacks w 0 b' evs ?s" using assms(1,4) by (simp add: add_to_book_def Let_def)
  then show "orderbooks srv1 = map_put smb b' (orderbooks srv)"
    "orders_table tab srv1 = Some (map (tell (heap b') (event_orders evs)) rows)"
    using table_callbacks[OF assms(2), of ?s rows 0 b' evs] assms(3) by simp_all
qed

lemma brought_back_put:
  assumes bk: "brought_back m L" and find: "map_find m smb = Some b"
    and inb: "\<And>q. in_book b' q \<longleftrightarrow> q \<in> P \<or> in_book b q" and old: "\<And>q. in_book b q \<Longrightarrow> heap b' q = heap b q"
    and new: "\<And>q. q \<in> P \<Longrightarrow> live_row r \<and> r_symbol r = smb \<and> untimed (heap b' q) = order_of_row 0 r"
    and row: "live_row r \<Longrightarrow> P \<noteq> {} \<and> r_symbol r = smb"
  shows "brought_back (map_put smb b' m) (insert r L)"
  unfolding brought_back_def
proof (intro conjI allI impI ballI)
  note d = brought_backD[OF bk]
  fix s c q assume c: "map_find (map_put smb b' m) s = Some c \<and> in_book c q"
  show "\<exists>r \<in> insert r L. live_row r \<and> r_symbol r = s \<and> untimed (heap c q) = order_of_row 0 r"
  proof (cases "s = smb \<and> q \<in> P")
    case True
    then show ?thesis using c new by (auto simp: map_find_put)
  next
    case False
    show ?thesis
    proof (cases "s = smb")
      case True
      then have "in_book b q" "heap c q = heap b q" using False c inb old by (auto simp: map_find_put)
      then show ?thesis using d(1)[OF find, of q] True by auto
    next
      case False
      then show ?thesis using c d(1)[of s c q] by (auto simp: map_find_put)
    qed
  qed
next
  note d = brought_backD[OF bk]
  fix r' assume r': "r' \<in> insert r L" "live_row r'"
  show "\<exists>c q. map_find (map_put smb b' m) (r_symbol r') = Some c \<and> in_book c q \<and> untimed (heap c q) = order_of_row 0 r'"
  proof (cases "r' = r")
    case True
    then show ?thesis using row r'(2) new inb by (force simp: map_find_put)
  next
    case False
    then obtain c q where q: "map_find m (r_symbol r') = Some c" "in_book c q" "untimed (heap c q) = order_of_row 0 r'"
      using d(2)[of r'] r' by auto
    then show ?thesis using find inb old
      by (intro exI[of _ "if r_symbol r' = smb then b' else c"] exI[of _ q]) (auto simp: map_find_put)
  qed
qed

lemma submittable_restored:
  assumes "untimed ord = order_of_row 0 r"
  shows "submittable ord"
proof -
  have u: "untimed ord = untimed (order_of_row 0 r)" using assms by simp
  have "submittable (order_of_row 0 r)" by (rule submittable_row)
  then show ?thesis using untimed_fields[OF u] by (simp add: submittable_def wf_order_def active_def)
qed

text \<open>The state of the loop: the rows in \<open>L\<close> have been restored.\<close>

definition restoring :: "('db \<Rightarrow> tables) \<Rightarrow> order_row list \<Rightarrow> order_row list \<Rightarrow> order_row set \<Rightarrow> 'db server \<Rightarrow> bool" where
  "restoring tab rows act L srv \<longleftrightarrow> server_inv srv \<and> orders_table tab srv = Some (map (touched L) rows) \<and>
     brought_back (orderbooks srv) L \<and> peaceful (orderbooks srv) act \<and> L \<subseteq> set act \<and> set act \<subseteq> set rows \<and>
     distinct (map r_id rows)"

lemma restoringD:
  assumes "restoring tab rows act L srv"
  shows "server_inv srv" "orders_table tab srv = Some (map (touched L) rows)" "brought_back (orderbooks srv) L"
    "peaceful (orderbooks srv) act" "L \<subseteq> set act" "set act \<subseteq> set rows" "distinct (map r_id rows)"
  using assms unfolding restoring_def by simp_all

lemma peaceful_put: "peaceful m act \<Longrightarrow> peaceful (map_put smb b m) act"
  by (fastforce simp: peaceful_def map_find_put)

lemma restore_skip:
  assumes st: "restoring tab rows act L srv" and "r \<in> set act" and "\<not> live_row r"
  shows "restoring tab rows act (insert r L) srv"
proof -
  have "touched (insert r L) = touched L" using assms(3) by (auto simp: touched_def fun_eq_iff)
  moreover have "brought_back (orderbooks srv) (insert r L)"
    using restoringD(3)[OF st] assms(3) by (auto simp: brought_back_def)
  ultimately show ?thesis using st assms(2) by (simp add: restoring_def)
qed

lemma restore_quiet:
  assumes st: "restoring tab rows act L srv" and r: "r \<in> set act" "r \<notin> L" "live_row r"
    and ord: "untimed ord = order_of_row 0 r" and find: "map_find (orderbooks srv) (r_symbol r) = Some b"
  obtains b' where "addOrder now (Some (next_order srv)) (set_order (next_order srv) ord b) =
      Some (True, [OrderEvent (next_order srv)], b')"
    "heap b' = (heap b)(next_order srv := ord)" "\<And>q. in_book b' q \<longleftrightarrow> q = next_order srv \<or> in_book b q"
proof -
  let ?p = "next_order srv"
  note d = restoringD[OF st] and f = restored_fields[OF ord]
  have sb: "served_book (r_symbol r) b" "book_below ?p b"
    using svc.served_find[OF _ find] d(1) by (auto simp: server_inv_def)
  have inv: "book_inv b" and new: "?p \<notin> ran (orders_by_id b)" and cb: "order_callback b"
    using sb below_not_ran by (auto simp: served_book_def intro: reachable_inv)
  have ok: "active ord" "wf_order ord" using submittable_restored[OF ord] r(3) f(6) by (simp_all add: submittable_def)
  have from_row: "\<exists>r' \<in> L. live_row r' \<and> r_symbol r' = r_symbol r \<and> untimed (heap b q) = order_of_row 0 r'" if "in_book b q" for q
    using brought_backD(1)[OF d(3) find that] .
  have "orders_by_id b (o_id ord) = None"
  proof (rule ccontr)
    assume "orders_by_id b (o_id ord) \<noteq> None"
    then obtain q where "orders_by_id b (o_id ord) = Some q" by blast
    note known = known_order[OF inv this]
    obtain r' where r': "r' \<in> L" "untimed (heap b q) = order_of_row 0 r'" using from_row[OF known(2)] by blast
    then have "r_id r' = r_id r" using known(1) restored_fields(1)[OF r'(2)] f(1) by simp
    then show False using row_unique[OF d(7), of r' r] r r' d(5,6) by auto
  qed
  moreover have "no_match ord (o_price (heap b q))"
    if q: "in_book b q" "o_type ord = LIMIT" "o_type (heap b q) = LIMIT" "o_side (heap b q) \<noteq> o_side ord" for q
  proof -
    obtain r' where r': "r' \<in> L" "live_row r'" "r_symbol r' = r_symbol r" "untimed (heap b q) = order_of_row 0 r'"
      using from_row[OF q(1)] by blast
    note g = restored_fields[OF r'(4)]
    have "no_match (order_of_row 0 r) (r_price r')"
      using d(4,5) r r'(1-3) q(2-4) f(4,5) g(4,5) unfolding peaceful_def by auto
    then show ?thesis using f g by (simp add: no_match_def split: OrderSide.splits)
  qed
  moreover have "o_remaining ord \<noteq> 0" "o_type ord \<noteq> MARKET" using d(4) r f by (auto simp: peaceful_def)
  ultimately obtain b' where b': "addOrder now (Some ?p) (set_order ?p ord b) = Some (True, callbacks ?p b', b')"
    "heap b' = (heap b)(?p := ord)" "\<And>q. in_book b' q \<longleftrightarrow> q = ?p \<or> in_book b q"
    "pending_order_updates b' = []" "pending_trades b' = []" "order_callback b' = order_callback b"
    using quiet_add[OF inv new ok, of now] by metis
  then have "callbacks ?p b' = [OrderEvent ?p]" using cb by (simp add: callbacks_def)
  then show thesis using that b' by simp
qed

lemma restore_one:
  assumes st: "restoring tab rows act L srv" and sql: "durable_sql (w_sql w) tab"
    and r: "r \<in> set act" "r \<notin> L" and ord: "untimed ord = order_of_row 0 r"
    and find: "map_find (orderbooks srv) (r_symbol r) = Some b"
  obtains ord' srv1 where "add_to_book w (r_symbol r) b ord srv = Some (ord', srv1)"
    "restoring tab rows act (insert r L) srv1"
proof -
  let ?p = "next_order srv"
  note d = restoringD[OF st] and f = restored_fields[OF ord]
  obtain ord' srv1 where add: "add_to_book w (r_symbol r) b ord srv = Some (ord', srv1)" "server_inv srv1"
    using add_to_book_returns[OF d(1) _ submittable_restored[OF ord]] find by (metis getOrderbook_def)
  have below: "book_below ?p b" and inv: "book_inv b"
    using svc.served_find[OF _ find] d(1) by (auto simp: server_inv_def served_book_def intro: reachable_inv)
  have out: "q \<noteq> ?p" if "in_book b q" for q
    using in_book_open[OF inv that] below_not_ran[OF below] by (auto simp: open_order_def indexed_def ran_def)
  have "restoring tab rows act (insert r L) srv1"
  proof (cases "live_row r")
    case True
    obtain b' where b': "addOrder (\<lambda>k. w_clock w (k + 2)) (Some ?p) (set_order ?p ord b) = Some (True, [OrderEvent ?p], b')"
      "heap b' = (heap b)(?p := ord)" "\<And>q. in_book b' q \<longleftrightarrow> q = ?p \<or> in_book b q"
      using restore_quiet[OF st r True ord find, of "\<lambda>k. w_clock w (k + 2)"] by blast
    note new = add_to_book_rows[OF b'(1) sql d(2) add(1)]
    have "brought_back (orderbooks srv1) (insert r L)" unfolding new(1)
      by (rule brought_back_put[OF d(3) find, where P = "{?p}"]) (use b' out ord True in auto)
    moreover have "c_str (r_id r) = r_id r" using d(4) r(1) True by (simp add: peaceful_def)
    then have "map (told ord) (map (touched L) rows) = map (touched (insert r L)) rows"
      using touched_step[OF d(7) _ True _ r(2) ord] d(5,6) r(1) by blast
    then have "orders_table tab srv1 = Some (map (touched (insert r L)) rows)"
      using new(2) b'(2) by (simp add: tell_def)
    ultimately show ?thesis using d r(1) add(2) new(1) by (simp add: restoring_def peaceful_put)
  next
    case False
    let ?c = "set_order ?p ord b"
    have "addOrder (\<lambda>k. w_clock w (k + 2)) (Some ?p) ?c = Some (False, [], ?c)"
      using False f(6) by (simp add: addOrder_def)
    note new = add_to_book_rows[OF this sql d(2) add(1)]
    have "brought_back (orderbooks srv1) (insert r L)" unfolding new(1)
      by (rule brought_back_put[OF d(3) find, where P = "{}"]) (use out False in \<open>auto simp: in_book_def\<close>)
    moreover have "touched (insert r L) = touched L" using False by (auto simp: touched_def fun_eq_iff)
    ultimately show ?thesis using d r(1) add(2) new by (simp add: restoring_def peaceful_put tell_def map_idI)
  qed
  then show thesis using that add(1) by blast
qed

lemma restore_all:
  assumes "restoring tab rows act L srv" and "durable_sql (w_sql w) tab"
    and "list_all2 (\<lambda>ord r. untimed ord = order_of_row 0 r) ords rs" and "distinct rs" and "set rs \<subseteq> set act - L"
  shows "\<exists>srv'. restore_orders w k ords srv = Some srv' \<and> restoring tab rows act (L \<union> set rs) srv'"
  using assms(3,1,4,5)
proof (induction ords rs arbitrary: L srv k rule: list_all2_induct)
  case (Cons ord ords r rs)
  have r: "r \<in> set act" "r \<notin> L" and rest: "distinct rs" "set rs \<subseteq> set act - insert r L" using Cons.prems by auto
  have sym: "o_symbol ord = r_symbol r" using restored_fields(2)[OF Cons.hyps(1)] .
  let ?w = "w\<lparr>w_clock := w_restore_clock w k, w_iso := w_restore_iso w k\<rparr>"
  show ?case
  proof (cases "map_find (orderbooks srv) (r_symbol r)")
    case None
    then have "\<not> live_row r" using restoringD(4)[OF Cons.prems(1)] r(1) by (auto simp: peaceful_def)
    from Cons.IH[OF restore_skip[OF Cons.prems(1) r(1) this] rest, of "Suc k"] show ?thesis
      using None sym by (simp add: getOrderbook_def)
  next
    case (Some b)
    obtain ord' srv1 where s: "add_to_book ?w (r_symbol r) b ord srv = Some (ord', srv1)" "restoring tab rows act (insert r L) srv1"
      using restore_one[OF Cons.prems(1) _ r Cons.hyps(1) Some, of ?w] assms(2) by auto
    from Cons.IH[OF s(2) rest, of "Suc k"] show ?thesis using Some sym s(1) by (simp add: getOrderbook_def)
  qed
qed simp

subsection \<open>The rows a run leaves\<close>

text \<open>What a client sees of an open order, and the open orders of a book by their ids.\<close>

definition open_view :: "order \<Rightarrow> string \<times> OrderSide \<times> OrderType \<times> double \<times> double \<times> u32" where
  "open_view x = (o_client_id x, o_side x, o_type x, o_price x, o_stop_price x, o_remaining x)"

definition open_orders :: "book \<Rightarrow> string \<Rightarrow> (string \<times> OrderSide \<times> OrderType \<times> double \<times> double \<times> u32) option" where
  "open_orders b i = map_option (\<lambda>p. open_view (heap b p)) (getOrder i b)"

text \<open>
  Every active row belongs to an order that is in its book with the recorded type: no stop order
  has been triggered without a notification.
\<close>

definition exact_rows :: "('db \<Rightarrow> tables) \<Rightarrow> 'db server \<Rightarrow> bool" where
  "exact_rows tab srv \<longleftrightarrow> (\<forall>rs. orders_table tab srv = Some rs \<longrightarrow>
     (\<forall>r \<in> set rs. is_active_row r \<and> r_remaining_quantity r \<noteq> 0 \<longrightarrow>
        (\<exists>b q. getOrderbook (r_symbol r) srv = Some b \<and> in_book b q \<and> o_id (heap b q) = r_id r \<and>
           r_order_type r = typeToString (o_type (heap b q)))))"

definition left_by :: "('db \<Rightarrow> tables) \<Rightarrow> order_row list \<Rightarrow> 'db server \<Rightarrow> bool" where
  "left_by tab rs srv \<longleftrightarrow> server_inv srv \<and> mirrored tab srv \<and> exact_rows tab srv \<and> orders_table tab srv = Some rs"

lemma left_byD:
  assumes "left_by tab rs srv"
  shows "server_inv srv" "mirrors (orderbooks srv) rs" "at_home (orderbooks srv)" "exact_rows tab srv"
    "orders_table tab srv = Some rs"
  using assms by (auto simp: left_by_def mirrored_def)

lemma left_by_book:
  assumes "left_by tab rs srv" and "map_find (orderbooks srv) smb = Some b"
  shows "book_inv b"
  using svc.served_find[OF _ assms(2)] left_byD(1)[OF assms(1)]
  by (auto simp: server_inv_def served_book_def intro: reachable_inv)

lemma agreeing_row:
  assumes "row_agrees r x" and "r_order_type r = typeToString (o_type x)"
  shows "open_view (order_of_row 0 r) = open_view x" "o_remaining (order_of_row 0 r) = o_remaining x"
    "o_type (order_of_row 0 r) = o_type x" "o_side (order_of_row 0 r) = o_side x"
  using assms by (simp_all add: row_agrees_def order_of_row_def new_order_def fill_def open_view_def Let_def)

text \<open>An active row that is live is the row of an order in the book of its symbol.\<close>

lemma order_of_row_remaining: "o_remaining (order_of_row t r) = word_of_int (r_remaining_quantity r)"
  by (simp add: order_of_row_def new_order_def fill_def Let_def)

lemma live_row_nonzero: "live_row r \<Longrightarrow> r_remaining_quantity r \<noteq> 0"
  by (auto simp: order_of_row_remaining)

lemma left_row:
  assumes lf: "left_by tab rs srv" and r: "r \<in> set rs" "is_active_row r" "r_remaining_quantity r \<noteq> 0"
  obtains b q where "map_find (orderbooks srv) (r_symbol r) = Some b" "in_book b q" "row_agrees r (heap b q)"
    "r_order_type r = typeToString (o_type (heap b q))"
proof -
  note d = left_byD[OF lf] and m = mirrorsD[OF left_byD(2)[OF lf]]
  obtain b q where q: "map_find (orderbooks srv) (r_symbol r) = Some b" "in_book b q" "o_id (heap b q) = r_id r"
    "r_order_type r = typeToString (o_type (heap b q))"
    using d(4,5) r unfolding exact_rows_def getOrderbook_def by blast
  obtain r' where r': "r' \<in> set rs" "row_agrees r' (heap b q)" using m(2)[OF q(1,2)] by blast
  then have "r' = r" using row_unique[OF m(1), of r' r] r(1) q(3) by (simp add: row_agrees_def)
  then show thesis using that q r' by blast
qed

lemma left_order:
  assumes lf: "left_by tab rs srv" and b: "map_find (orderbooks srv) smb = Some b" "in_book b q"
  obtains r where "r \<in> set rs" "is_active_row r" "live_row r" "r_symbol r = smb" "row_agrees r (heap b q)"
    "r_order_type r = typeToString (o_type (heap b q))"
proof -
  note d = left_byD[OF lf] and m = mirrorsD[OF left_byD(2)[OF lf]]
  obtain r where r: "r \<in> set rs" "row_agrees r (heap b q)" using m(2)[OF b] by blast
  have op: "active (heap b q)" "rem_qty b q \<noteq> 0"
    using in_book_open[OF left_by_book[OF lf b(1)] b(2)] by (simp_all add: open_order_def)
  have act: "is_active_row r" using r(2) op(1) active_row[of r "heap b q"] by (simp add: row_agrees_def)
  have "sint (rem_qty b q) \<noteq> 0" using op(2) by (simp add: signed_eq_0_iff)
  then have nz: "r_remaining_quantity r \<noteq> 0" using r(2) by (simp add: row_agrees_def)
  obtain b' q' where q': "map_find (orderbooks srv) (r_symbol r) = Some b'" "in_book b' q'" "row_agrees r (heap b' q')"
    "r_order_type r = typeToString (o_type (heap b' q'))" by (rule left_row[OF lf r(1) act nz])
  then have "r_symbol r = smb \<and> q' = q" using m(4)[OF q'(1,2) b] r(2) by (simp add: row_agrees_def)
  moreover from this have "b' = b" using q'(1) b(1) by simp
  moreover have "live_row r" using agreeing_row(2)[OF q'(3,4)] op(2) calculation by simp
  ultimately show thesis using that r act q' by blast
qed

lemma resting_apart:
  assumes inv: "book_inv b" and q: "in_book b q" "o_type (heap b q) = LIMIT" and q': "in_book b q'" "o_type (heap b q') = LIMIT"
    and sd: "o_side (heap b q') \<noteq> o_side (heap b q)"
  shows "no_match (heap b q) (o_price (heap b q'))"
proof -
  have lvl: "\<exists>qs. map_find (if o_side (heap b u) = BUY then bids b else asks b) (o_price (heap b u)) = Some qs"
    if "in_book b u" "o_type (heap b u) = LIMIT" for u
  proof -
    have "\<not> waits b sd' k u" for sd' k using that(2) by (simp add: waits_def isStopOrder_def)
    then have "in_levels (bids b) u \<or> in_levels (asks b) u"
      using that(1) book_invD(3,4)[OF inv] by (auto simp: in_book_def dest: levels_ok_in)
    then show ?thesis
      using levels_okD(3)[OF book_invD(1)[OF inv]] levels_okD(3)[OF book_invD(2)[OF inv]]
      by (fastforce simp: in_levels_def rests_def)
  qed
  have "uncrossed b" using inv by (simp add: book_inv_upto_def)
  then show ?thesis using lvl[OF q] lvl[OF q'] sd q(2)
    by (cases "o_side (heap b q)"; cases "o_side (heap b q')") (auto simp: uncrossed_def no_match_def)
qed

lemma left_peaceful:
  assumes lf: "left_by tab rs srv" and act: "\<And>r. r \<in> set act \<Longrightarrow> r \<in> set rs \<and> is_active_row r"
    and books: "\<And>smb. map_find (orderbooks srv) smb \<noteq> None \<Longrightarrow> map_find m smb \<noteq> None"
  shows "peaceful m act"
  unfolding peaceful_def
proof (intro conjI ballI impI)
  fix r assume r: "r \<in> set act" "live_row r"
  obtain b q where q: "map_find (orderbooks srv) (r_symbol r) = Some b" "in_book b q" "row_agrees r (heap b q)"
    "r_order_type r = typeToString (o_type (heap b q))"
    using left_row[OF lf] act[OF r(1)] live_row_nonzero[OF r(2)] by blast
  show "c_str (r_id r) = r_id r" using q(3) by (simp add: row_agrees_def)
  show "o_type (order_of_row 0 r) \<noteq> MARKET"
    using agreeing_row(3)[OF q(3,4)] in_book_type[OF left_by_book[OF lf q(1)] q(2)] by simp
  show "map_find m (r_symbol r) \<noteq> None" using books q(1) by simp
next
  fix r r' assume r: "r \<in> set act" "r' \<in> set act"
    and c: "live_row r \<and> live_row r' \<and> r_symbol r = r_symbol r' \<and> o_type (order_of_row 0 r) = LIMIT \<and>
      o_type (order_of_row 0 r') = LIMIT \<and> o_side (order_of_row 0 r') \<noteq> o_side (order_of_row 0 r)"
  obtain b q where q: "map_find (orderbooks srv) (r_symbol r) = Some b" "in_book b q" "row_agrees r (heap b q)"
    "r_order_type r = typeToString (o_type (heap b q))"
    using left_row[OF lf] act[OF r(1)] live_row_nonzero[of r] c by blast
  obtain b' q' where q': "map_find (orderbooks srv) (r_symbol r') = Some b'" "in_book b' q'" "row_agrees r' (heap b' q')"
    "r_order_type r' = typeToString (o_type (heap b' q'))"
    using left_row[OF lf] act[OF r(2)] live_row_nonzero[of r'] c by blast
  have b': "b' = b" using q(1) q'(1) c by simp
  have "no_match (heap b q) (o_price (heap b q'))"
    using c agreeing_row[OF q(3,4)] agreeing_row[OF q'(3,4)] q q' b'
    by (intro resting_apart[OF left_by_book[OF lf q(1)]]) simp_all
  then show "no_match (order_of_row 0 r) (r_price r')"
    using agreeing_row[OF q(3,4)] q(3) q'(3) b' by (simp add: no_match_def row_agrees_def split: OrderSide.splits)
qed

subsection \<open>The restart\<close>

lemma saveUser_orders:
  assumes "durable_sql sq tab" and "os_db st = Some d"
  shows "\<exists>d'. os_db (snd (saveUser sq draw u st)) = Some d' \<and> tb_orders (tab d') = tb_orders (tab d)"
  using durable_sqlD(4)[OF assms(1)] assms(2) by (simp add: saveUser_def Let_def case_prod_beta)

lemma save_users_orders:
  assumes "durable_sql sq tab" and "os_db st = Some d"
  shows "\<exists>d'. os_db (save_users sq draws k us st) = Some d' \<and> tb_orders (tab d') = tb_orders (tab d)"
  using assms(2)
proof (induction us arbitrary: k st d)
  case (Cons u us)
  then show ?case using saveUser_orders[OF assms(1) Cons.prems, of "draws k" u] by fastforce
qed simp

lemma seed_orders:
  assumes "durable_sql sq tab" and "os_db st = Some d"
  shows "\<exists>d'. os_db (seedDefaultUsers sq draws st) = Some d' \<and> tb_orders (tab d') = tb_orders (tab d)"
  using save_users_orders[OF assms] assms(2) by (simp add: seedDefaultUsers_def Let_def split: option.split list.split)

lemma loaded_from_rows:
  assumes "os_db st = Some d"
  shows "list_all2 (\<lambda>ord r. untimed ord = order_of_row 0 r) (loadAllActiveOrders sq now st) (select_active sq None d)"
  using assms by (auto simp: loadAllActiveOrders_def orders_of_rows_def list_all2_conv_all_nth untimed_row)

lemma selected_rows:
  assumes "durable_sql sq tab"
  shows "set (select_active sq None d) = {r \<in> set (tb_orders (tab d)). is_active_row r}"
    "distinct (map r_id (tb_orders (tab d))) \<Longrightarrow> distinct (select_active sq None d)"
proof -
  have m: "mset (select_active sq None d) = mset (filter is_active_row (tb_orders (tab d)))"
    using assms sqlite_okD(3)[of sq tab None d] by (simp add: durable_sql_def)
  then show "set (select_active sq None d) = {r \<in> set (tb_orders (tab d)). is_active_row r}"
    by (metis set_filter set_mset_mset)
  assume "distinct (map r_id (tb_orders (tab d)))"
  then have "distinct (filter is_active_row (tb_orders (tab d)))" by (simp add: distinct_map)
  then show "distinct (select_active sq None d)" using m mset_eq_imp_distinct_iff by blast
qed

text \<open>A server that has just been set up: its books are empty.\<close>

definition empty_books :: "'db server \<Rightarrow> bool" where
  "empty_books srv \<longleftrightarrow> (\<forall>smb b. getOrderbook smb srv = Some b \<longrightarrow> (\<forall>q. \<not> in_book b q))"

lemma restart_runs:
  assumes lf: "left_by tab rs srv" and sql: "durable_sql (w_sql w) tab"
    and fresh: "server_inv srv1" "empty_books srv1"
    and books: "\<And>smb. getOrderbook smb srv \<noteq> None \<Longrightarrow> getOrderbook smb srv1 \<noteq> None"
    and op: "open_store (w_sql w) (new_store (db_path srv1)) = (True, st)" "os_db st = Some d" "tb_orders (tab d) = rs"
  obtains srv2 act where "initPersistence w srv1 = Some (True, srv2)" "set act = {r \<in> set rs. is_active_row r}"
    "restoring tab rs act (set act) srv2"
proof -
  let ?st = "seedDefaultUsers (w_sql w) (w_salt w) st" and ?srv = "srv1\<lparr>order_store := Some (seedDefaultUsers (w_sql w) (w_salt w) st)\<rparr>"
  note m = mirrorsD[OF left_byD(2)[OF lf]]
  obtain d1 where d1: "os_db ?st = Some d1" "tb_orders (tab d1) = rs" using seed_orders[OF sql op(2)] op(3) by blast
  let ?act = "select_active (w_sql w) None d1"
  have act: "set ?act = {r \<in> set rs. is_active_row r}" "distinct ?act"
    using selected_rows[OF sql, of d1] d1(2) m(1) by simp_all
  have "peaceful (orderbooks srv1) ?act"
    using lf by (rule left_peaceful) (use act books in \<open>auto simp: getOrderbook_def\<close>)
  moreover have "brought_back (orderbooks srv1) {}"
    using fresh(2) by (auto simp: brought_back_def empty_books_def getOrderbook_def)
  moreover have "map (touched {}) rs = rs" by (simp add: touched_def map_idI)
  ultimately have "restoring tab rs ?act {} ?srv"
    using fresh(1) m(1) act d1 by (auto simp: restoring_def orders_table_def)
  from restore_all[OF this sql loaded_from_rows[OF d1(1), of "w_sql w" "w_clock w"] act(2), of 0] obtain srv2 where
    "restore_orders w 0 (loadAllActiveOrders (w_sql w) (w_clock w) ?st) ?srv = Some srv2" "restoring tab rs ?act (set ?act) srv2"
    by auto
  then show thesis using that[of srv2 ?act] op(1) act(1) by (simp add: initPersistence_def Let_def)
qed

lemma getOrder_in_book: "book_inv b \<Longrightarrow> getOrder i b = Some q \<longleftrightarrow> in_book b q \<and> o_id (heap b q) = i"
  using known_order[of b i q] in_book_open[of "{}" b q] by (auto simp: getOrder_def open_order_def indexed_def)

text \<open>The table after the restart mirrors the new books.\<close>

lemma restored_agrees:
  assumes "untimed x = order_of_row 0 r" and "row_agrees r y" and "r_order_type r = typeToString (o_type y)"
  shows "row_agrees (touch r) x" "open_view x = open_view y" "o_id x = o_id y"
proof -
  have u: "untimed x = untimed (order_of_row 0 r)" using assms(1) by simp
  note f = untimed_fields[OF u] and g = restored_fields[OF assms(1)] and a = agreeing_row[OF assms(2,3)]
  have "open_view x = open_view (order_of_row 0 r)" using f by (simp add: open_view_def)
  then show v: "open_view x = open_view y" using a(1) by simp
  show i: "o_id x = o_id y" using g(1) assms(2) by (simp add: row_agrees_def)
  have "touch r = told x r" using g(7) by (simp add: touch_def)
  then show "row_agrees (touch r) x"
    using v i g(2) assms(2) by (simp add: row_agrees_def told_def updated_row_def open_view_def)
qed

lemma restored_order:
  assumes lf: "left_by tab rs srv" and act: "set act = {r \<in> set rs. is_active_row r}"
    and st: "restoring tab rs act (set act) srv2"
    and b2: "map_find (orderbooks srv2) smb = Some b2" "in_book b2 q2"
  obtains r b q where "r \<in> set rs" "is_active_row r" "live_row r" "r_symbol r = smb" "row_agrees (touch r) (heap b2 q2)"
    "map_find (orderbooks srv) smb = Some b" "in_book b q" "open_view (heap b2 q2) = open_view (heap b q)"
    "o_id (heap b2 q2) = o_id (heap b q)" "o_symbol (heap b2 q2) = smb" "r_id r = o_id (heap b q)"
proof -
  obtain r where r: "r \<in> set act" "live_row r" "r_symbol r = smb" "untimed (heap b2 q2) = order_of_row 0 r"
    using brought_backD(1)[OF restoringD(3)[OF st] b2] by blast
  then have ra: "r \<in> set rs" "is_active_row r" using act by auto
  obtain b q where q: "map_find (orderbooks srv) (r_symbol r) = Some b" "in_book b q" "row_agrees r (heap b q)"
    "r_order_type r = typeToString (o_type (heap b q))"
    by (rule left_row[OF lf ra live_row_nonzero[OF r(2)]])
  then show thesis
    using that[OF ra r(2,3) restored_agrees(1)[OF r(4) q(3,4)] _ q(2) restored_agrees(2,3)[OF r(4) q(3,4)]]
      restored_fields(2)[OF r(4)] r(3) by (simp add: row_agrees_def)
qed

lemma restored_mirrored:
  assumes lf: "left_by tab rs srv" and act: "set act = {r \<in> set rs. is_active_row r}"
    and st: "restoring tab rs act (set act) srv2"
  shows "mirrored tab srv2"
proof (rule mirroredI)
  note d = restoringD[OF st]
  let ?T = "touched (set act)"
  show "at_home (orderbooks srv2)" unfolding at_home_def using restored_order[OF lf act st] by blast
  show "orders_table tab srv2 = Some (map ?T rs)" by (rule d(2))
  have "\<exists>r \<in> set (map ?T rs). row_agrees r (heap b2 q2)"
    if b2: "map_find (orderbooks srv2) smb = Some b2" "in_book b2 q2" for smb b2 q2
  proof -
    obtain r where "r \<in> set rs" "is_active_row r" "live_row r" "row_agrees (touch r) (heap b2 q2)"
      using restored_order[OF lf act st b2] by blast
    then show ?thesis using act by (intro bexI[of _ "?T r"]) (auto simp: touched_def)
  qed
  moreover have "\<exists>smb b2 q2. map_find (orderbooks srv2) smb = Some b2 \<and> in_book b2 q2 \<and> o_id (heap b2 q2) = r_id r"
    if r: "r \<in> set rs" and ow: "owed (?T r)" for r
  proof -
    have "live_row r" if a: "is_active_row r" "r_remaining_quantity r \<noteq> 0"
    proof -
      obtain b q where q: "map_find (orderbooks srv) (r_symbol r) = Some b" "in_book b q" "row_agrees r (heap b q)"
        "r_order_type r = typeToString (o_type (heap b q))" by (rule left_row[OF lf r a])
      show ?thesis using agreeing_row(2)[OF q(3,4)] in_book_open[OF left_by_book[OF lf q(1)] q(2)] by (simp add: open_order_def)
    qed
    then have "r \<in> set act" "live_row r" using ow act r by (auto simp: touched_def owed_def split: if_splits)
    from brought_backD(2)[OF d(3) this] show ?thesis using restored_fields(1) by blast
  qed
  moreover have "smb = smb' \<and> q = q'" if b: "map_find (orderbooks srv2) smb = Some b" "in_book b q"
    and b': "map_find (orderbooks srv2) smb' = Some b'" "in_book b' q'" and i: "o_id (heap b q) = o_id (heap b' q')" for smb b q smb' b' q'
  proof -
    obtain c u where c: "map_find (orderbooks srv) smb = Some c" "in_book c u" "o_id (heap b q) = o_id (heap c u)"
      using restored_order[OF lf act st b] by metis
    obtain c' u' where c': "map_find (orderbooks srv) smb' = Some c'" "in_book c' u'" "o_id (heap b' q') = o_id (heap c' u')"
      using restored_order[OF lf act st b'] by metis
    have "smb = smb'" using mirrorsD(4)[OF left_byD(2)[OF lf] c(1,2) c'(1,2)] c(3) c'(3) i by simp
    moreover from this have "b' = b" using b b' by simp
    moreover have "book_inv b" using svc.served_find[OF _ b(1)] d(1) by (auto simp: server_inv_def served_book_def intro: reachable_inv)
    ultimately show ?thesis using getOrder_in_book[of b "o_id (heap b q)"] b b' i by (metis option.inject)
  qed
  ultimately show "mirrors (orderbooks srv2) (map ?T rs)"
    unfolding mirrors_def using d(7) by (intro conjI allI impI ballI) (auto simp: comp_def)
qed

lemma restored_book:
  assumes lf: "left_by tab rs srv" and act: "set act = {r \<in> set rs. is_active_row r}"
    and st: "restoring tab rs act (set act) srv2"
    and b: "map_find (orderbooks srv) smb = Some b" and b2: "map_find (orderbooks srv2) smb = Some b2"
  shows "open_orders b2 = open_orders b"
proof
  fix i
  have inv: "book_inv b" using lf b by (rule left_by_book)
  have inv2: "book_inv b2"
    using svc.served_find[OF _ b2] restoringD(1)[OF st] by (auto simp: server_inv_def served_book_def intro: reachable_inv)
  have to_old: "open_orders b i = Some v" if v: "open_orders b2 i = Some v" for v
  proof -
    obtain q2 where q2: "in_book b2 q2" "o_id (heap b2 q2) = i" "v = open_view (heap b2 q2)"
      using v getOrder_in_book[OF inv2] by (auto simp: open_orders_def)
    obtain q where "in_book b q" "open_view (heap b2 q2) = open_view (heap b q)" "o_id (heap b2 q2) = o_id (heap b q)"
      using restored_order[OF lf act st b2 q2(1)] b by (metis option.inject)
    then show ?thesis using q2 getOrder_in_book[OF inv, of i q] by (simp add: open_orders_def)
  qed
  have to_new: "open_orders b2 i = Some v" if v: "open_orders b i = Some v" for v
  proof -
    obtain q where q: "in_book b q" "o_id (heap b q) = i" "v = open_view (heap b q)"
      using v getOrder_in_book[OF inv] by (auto simp: open_orders_def)
    obtain r where r: "r \<in> set rs" "is_active_row r" "live_row r" "r_symbol r = smb" "row_agrees r (heap b q)"
      "r_order_type r = typeToString (o_type (heap b q))" by (rule left_order[OF lf b q(1)])
    then obtain q2 where q2: "in_book b2 q2" "untimed (heap b2 q2) = order_of_row 0 r"
      using brought_backD(2)[OF restoringD(3)[OF st], of r] act b2 by auto
    then show ?thesis
      using restored_agrees(2,3)[OF q2(2) r(5,6)] q getOrder_in_book[OF inv2, of i q2] by (simp add: open_orders_def)
  qed
  show "open_orders b2 i = open_orders b i" using to_old to_new by (cases "open_orders b2 i"; cases "open_orders b i") auto
qed

lemma restart_books:
  assumes lf: "left_by tab rs srv" and sql: "durable_sql (w_sql w) tab"
    and fresh: "server_inv srv1" "empty_books srv1"
    and books: "\<And>smb. getOrderbook smb srv \<noteq> None \<Longrightarrow> getOrderbook smb srv1 \<noteq> None"
    and op: "open_store (w_sql w) (new_store (db_path srv1)) = (True, st)" "os_db st = Some d" "tb_orders (tab d) = rs"
  obtains srv2 where "initPersistence w srv1 = Some (True, srv2)" "mirrored tab srv2"
    "\<And>smb b. getOrderbook smb srv = Some b \<Longrightarrow> \<exists>b2. getOrderbook smb srv2 = Some b2 \<and> open_orders b2 = open_orders b"
proof -
  obtain srv2 act where run: "initPersistence w srv1 = Some (True, srv2)" and act: "set act = {r \<in> set rs. is_active_row r}"
    and st: "restoring tab rs act (set act) srv2"
    using restart_runs[OF lf sql fresh books op] by blast
  show thesis
  proof (rule that[OF run restored_mirrored[OF lf act st]])
    fix smb b assume b: "getOrderbook smb srv = Some b"
    then have "has_book smb srv2" using initPersistence_keeps[OF run] books by (simp add: has_book_def)
    then obtain b2 where "getOrderbook smb srv2 = Some b2" by (auto simp: has_book_def)
    then show "\<exists>b2. getOrderbook smb srv2 = Some b2 \<and> open_orders b2 = open_orders b"
      using restored_book[OF lf act st] b by (auto simp: getOrderbook_def)
  qed
qed

subsection \<open>The main program after a restart\<close>

lemma create_books_empty: "empty_books srv \<Longrightarrow> empty_books (create_books syms srv)"
proof (induction syms arbitrary: srv)
  case (Cons smb syms)
  have "empty_books (snd (createOrderbook smb srv))"
    using Cons.prems
    by (auto simp: empty_books_def getOrderbook_def createOrderbook_def createOrderbookTick_def map_find_put Let_def
        split: if_splits)
  then show ?case using Cons.IH by simp
qed simp

lemma create_books_path [simp]: "db_path (create_books syms srv) = db_path srv"
  by (induction syms arbitrary: srv) (simp_all add: createOrderbook_def createOrderbookTick_def Let_def)

lemma setup_same:
  assumes "setup_generator opts srv = Some srv'"
  shows "orderbooks srv' = orderbooks srv" "order_store srv' = order_store srv"
  using assms by (auto simp: setup_generator_def configureOrderGenerator_def Let_def split: if_splits option.splits)

lemma start_same:
  assumes "start_server w srv = Some srv'" and "order_store srv \<noteq> None"
  shows "orderbooks srv' = orderbooks srv" "order_store srv' = order_store srv"
  using assms by (auto simp: start_server_def startSnapshotTimer_def Let_def)

end
