(* ===== verification/Durable_Theorems.thy ===== *)
theory Durable_Theorems
  imports Recovery
begin

text \<open>
  The properties of persistence that span the server, the store and the main program: the order table
  mirrors the books at all times, and a restart recovers the books from it.
\<close>

subsection \<open>The store mirrors the books\<close>

text \<open>
  C11. The store mirrors the books. Start from a reachable server whose order table mirrors its books, for instance
  with both empty, and let clients connect, submit, cancel, query and disconnect in any order: after
  every step each order in a book has a row with its terms, its remainder and its status (up to the type of a triggered
  stop-limit order), and each active row with a remainder, unless it is the one of a stop
  order, belongs to an order in the book of its symbol.
\<close>

theorem orders_durable:
  assumes "durable_sql sq tab" and "reachable_server srv0" and "mirrored tab srv0"
    and "(durable_step sq tab)\<^sup>*\<^sup>* srv0 srv"
  shows "\<exists>rs. orders_table tab srv = Some rs \<and> distinct (map r_id rs) \<and>
    (\<forall>smb b q. getOrderbook smb srv = Some b \<and> in_book b q \<longrightarrow>
       o_symbol (heap b q) = smb \<and> (\<exists>r \<in> set rs. row_agrees r (heap b q))) \<and>
    (\<forall>r \<in> set rs. is_active_row r \<and> r_remaining_quantity r \<noteq> 0 \<and> r_order_type r \<noteq> ''STOP'' \<longrightarrow>
       (\<exists>b q. getOrderbook (r_symbol r) srv = Some b \<and> in_book b q \<and> row_agrees r (heap b q)))"
proof -
  have "mirrored tab srv \<and> reachable_server srv" using assms(4)
  proof (induction rule: rtranclp_induct)
    case (step a b)
    then show ?case
      using durable_step_mirrored[OF assms(1)] reachable_server_inv durable_server_step reachable_server.step by metis
  qed (use assms in simp)
  then obtain rs where rs: "orders_table tab srv = Some rs" "mirrors (orderbooks srv) rs" "at_home (orderbooks srv)"
    by (auto simp: mirrored_def)
  note d = mirrorsD[OF rs(2)]
  have "\<exists>b q. getOrderbook (r_symbol r) srv = Some b \<and> in_book b q \<and> row_agrees r (heap b q)"
    if r: "r \<in> set rs" "owed r" for r
  proof -
    obtain smb b q where q: "map_find (orderbooks srv) smb = Some b" "in_book b q" "o_id (heap b q) = r_id r"
      using d(3)[OF r] by blast
    obtain r' where r': "r' \<in> set rs" "row_agrees r' (heap b q)" using d(2)[OF q(1,2)] by blast
    then have "r' = r" using row_unique[OF d(1), of r' r] r q(3) by (simp add: row_agrees_def)
    moreover have "r_symbol r' = smb" using rs(3) q r'(2) by (auto simp: at_home_def row_agrees_def)
    ultimately show ?thesis using q r' by (auto simp: getOrderbook_def)
  qed
  then show ?thesis using rs(1,3) d(1,2) by (auto simp: getOrderbook_def owed_def at_home_def)
qed

text \<open>A server with one book, one client and an empty database.\<close>

definition stored_server :: "tables server" where
  "stored_server = sample_server\<lparr>order_store := Some (seedDefaultUsers mem_sqlite (w_salt sample_world)
     (snd (open_store mem_sqlite (new_store ''orderbook.db''))))\<rparr>"

lemma mem_durable: "durable_sql mem_sqlite (\<lambda>d. d)"
  using mem_sqlite_ok by (simp add: durable_sql_def mem_sqlite_def)

lemma mem_open:
  "open_store mem_sqlite (new_store name) =
     (True, \<lparr>os_path = name, os_db = Some \<lparr>tb_orders = [], tb_trades = [], tb_users = []\<rparr>\<rparr>)"
  by (simp add: open_store_def new_store_def mem_sqlite_def executeSQL_def createSchema_def Let_def)

lemma stored_db:
  obtains d where "os_db (seedDefaultUsers mem_sqlite draws (snd (open_store mem_sqlite (new_store name)))) = Some d"
    "tb_orders d = []"
  using seed_orders[OF mem_durable, of "snd (open_store mem_sqlite (new_store name))"
      "\<lparr>tb_orders = [], tb_trades = [], tb_users = []\<rparr>" draws] by (auto simp: mem_open)

lemma sample_server_fields:
  "orderbooks sample_server = [(''ACME'', setTradeCallback (setOrderCallback (new_book ''ACME'' 1 (\<lambda>_. blank_order))))]"
  "message_callback (session_heap sample_server 0)" "\<not> auth_required sample_server" "db_path sample_server = ''orderbook.db''"
  by (simp_all add: sample_server_def accept_done_def set_session_def createOrderbookTick_def new_server_def Let_def
      new_session_def setDisconnectCallback_def start_def doRead_def)

lemma stored_table: "orders_table (\<lambda>d. d) stored_server = Some []"
  by (rule stored_db[of "w_salt sample_world" "''orderbook.db''"]) (simp add: orders_table_def stored_server_def)

lemma stored_server_reachable: "reachable_server stored_server"
proof (rule stored_db[of "w_salt sample_world" "''orderbook.db''"])
  fix d let ?st = "seedDefaultUsers mem_sqlite (w_salt sample_world) (snd (open_store mem_sqlite (new_store ''orderbook.db'')))"
  assume d: "os_db ?st = Some d" "tb_orders d = []"
  then have "loadAllActiveOrders mem_sqlite now ?st = []" for now
    by (simp add: loadAllActiveOrders_def orders_of_rows_def mem_sqlite_def)
  then have "initPersistence sample_world sample_server = Some (True, stored_server)"
    using mem_open[of "''orderbook.db''"]
    by (simp add: initPersistence_def sample_server_fields stored_server_def sample_world_def Let_def)
  then show ?thesis using reachable_server.step[OF sample_server_reachable server_step.persist] by blast
qed

lemma stored_mirrored: "mirrored (\<lambda>d. d) stored_server"
proof (rule mirroredI[OF _ stored_table])
  have "orderbooks stored_server = orderbooks sample_server" by (simp add: stored_server_def)
  then show "at_home (orderbooks stored_server)" "mirrors (orderbooks stored_server) []"
    by (simp_all add: at_home_def mirrors_def sample_server_fields map_find_Cons)
qed

text \<open>The bytes of a submission arrive at the server.\<close>

definition sample_arrival :: session_action where
  "sample_arrival = ContentDone (Done (bytes_of (serialize utc_env (OrderSubmit sample_submission))))"

lemma sample_parsed: "parseMessage utc_env (serialize utc_env (OrderSubmit sample_submission)) = OrderSubmit sample_submission"
proof -
  have "sendable utc_env (OrderSubmit sample_submission)" by code_simp
  from message_roundtrip[OF this, of utc_env] show ?thesis by simp
qed

lemma sample_delivers: "delivers sample_world sample_arrival 0 stored_server = [Delivered (OrderSubmit sample_submission)]"
  using sample_server_fields(2) sample_parsed
  by (simp add: delivers_def sample_arrival_def content_done_def doRead_def stored_server_def sample_world_def Let_def)

lemma sample_plain: "plain_submission (\<lambda>d. d) sample_world sample_submission stored_server"
  unfolding plain_submission_def stored_table by (simp add: uuid_def) (code_simp)

lemma sample_step:
  obtains srv where "session_op sample_world {} (session_run_action (w_env sample_world) sample_arrival) 0 stored_server = Some srv"
    "durable_step mem_sqlite (\<lambda>d. d) stored_server srv"
proof -
  obtain srv where run: "session_op sample_world {} (session_run_action (w_env sample_world) sample_arrival) 0 stored_server = Some srv"
    using session_op_returns[OF reachable_server_inv[OF stored_server_reachable]] by blast
  have "w_sql sample_world = mem_sqlite" by (simp add: sample_world_def)
  then have "durable_step mem_sqlite (\<lambda>d. d) stored_server srv"
    using run by (rule durable_step.session) (simp add: sample_delivers sample_plain)
  then show thesis using that run by blast
qed

theorem orders_durable_witness:
  "\<exists>srv rs. session_op sample_world {} (session_run_action (w_env sample_world) sample_arrival) 0 stored_server = Some srv \<and>
     orders_table (\<lambda>d. d) srv = Some rs \<and>
     (\<forall>smb b q. getOrderbook smb srv = Some b \<and> in_book b q \<longrightarrow> (\<exists>r \<in> set rs. row_agrees r (heap b q)))"
proof -
  obtain srv where "session_op sample_world {} (session_run_action (w_env sample_world) sample_arrival) 0 stored_server = Some srv"
    and "(durable_step mem_sqlite (\<lambda>d. d))\<^sup>*\<^sup>* stored_server srv" using sample_step by blast
  then show ?thesis
    using orders_durable[OF mem_durable stored_server_reachable stored_mirrored, of srv] by blast
qed

subsection \<open>Recovery\<close>

text \<open>
  C12. A restart recovers the books. Take a reachable server whose table mirrors its books and which has triggered
  no stop order without a notification, and start the main program again on the same database, with the old symbols among the
  configured ones, and suppose that the system grants it its port. Every book then has exactly its open orders again, each with its id, owner,
  side, type, prices and remainder, since none of the restored orders trades; and the table
  mirrors the new books, so that the next run starts in step.
\<close>

theorem restart_recovers:
  assumes "durable_sql (w_sql w) tab"
    and "reachable_server srv" and "mirrored tab srv" and "exact_rows tab srv"
    and "parse_args args default_options = Run opts"
    and "\<And>smb. getOrderbook smb srv \<noteq> None \<Longrightarrow> smb \<in> set (opt_symbols opts)"
    and "open_store (w_sql w) (new_store (opt_db_path opts)) = (True, st)"
    and "map_option (\<lambda>d. tb_orders (tab d)) (os_db st) = orders_table tab srv"
  shows "\<exists>srv'. run_main binds w v opts = (if binds (opt_port opts) then Serves srv' else Returns 1) \<and> mirrored tab srv' \<and>
    (\<forall>smb b. getOrderbook smb srv = Some b \<longrightarrow>
       (\<exists>b'. getOrderbook smb srv' = Some b' \<and> open_orders b' = open_orders b))"
proof -
  define srv1 :: "'a server" where "srv1 = create_books (opt_symbols opts) (new_server\<lparr>snapshot_interval_ms := opt_interval opts,
    auth_required := opt_auth opts, db_path := opt_db_path opts\<rparr>)"
  obtain rs where rs: "orders_table tab srv = Some rs" using assms(3) by (auto simp: mirrored_def)
  then have lf: "left_by tab rs srv" using assms(2,3,4) by (simp add: left_by_def reachable_server_inv)
  obtain d where d: "os_db st = Some d" "tb_orders (tab d) = rs" using assms(8) rs by auto
  have r1: "reachable_server srv1"
    unfolding srv1_def
    by (intro create_books_reachable reachable_server.step[OF reachable_server.step[OF reachable_server.step[OF
            reachable_server.init server_step.interval] server_step.auth] server_step.path])
  have e1: "empty_books srv1"
    unfolding srv1_def by (rule create_books_empty) (simp add: empty_books_def getOrderbook_def new_server_def)
  have k1: "getOrderbook smb srv1 \<noteq> None" if "getOrderbook smb srv \<noteq> None" for smb
    using create_books_known[OF assms(6)[OF that]] by (simp add: srv1_def has_book_def)
  have "open_store (w_sql w) (new_store (db_path srv1)) = (True, st)" using assms(7) by (simp add: srv1_def)
  then obtain srv2 where i2: "initPersistence w srv1 = Some (True, srv2)" and m2: "mirrored tab srv2"
    and b2: "\<And>smb b. getOrderbook smb srv = Some b \<Longrightarrow> \<exists>b2. getOrderbook smb srv2 = Some b2 \<and> open_orders b2 = open_orders b"
    using restart_books[OF lf assms(1) reachable_server_inv[OF r1] e1 k1 _ d] by blast
  have r2: "reachable_server srv2" using reachable_server.step[OF r1 server_step.persist[OF i2]] .
  have "list_all (\<lambda>s. has_book s srv2) (opt_symbols opts)"
    using initPersistence_keeps[OF i2[unfolded srv1_def] create_books_known] by (simp add: list_all_iff)
  then obtain srv3 where g: "setup_generator opts srv2 = Some srv3" "reachable_server srv3"
    using setup_generator_returns[OF r2 parse_args_ok[OF default_options_ok assms(5)]] by blast
  obtain srv' where s: "start_server v srv3 = Some srv'"
    using start_server_returns[OF reachable_server_inv[OF g(2)]] by blast
  have "order_store srv3 \<noteq> None" using m2 setup_same(2)[OF g(1)] by (auto simp: mirrored_def orders_table_def split: option.splits)
  then have same: "orderbooks srv' = orderbooks srv2" "orders_table tab srv' = orders_table tab srv2"
    using setup_same[OF g(1)] start_same[OF s] by (simp_all add: orders_table_def)
  have "run_main binds w v opts = (if binds (opt_port opts) then Serves srv' else Returns 1)"
    using i2 g(1) s by (intro run_main_served) (simp add: set_up_def srv1_def Let_def)
  moreover have "mirrored tab srv'" using m2 mirrored_cong[OF same] by simp
  ultimately show ?thesis using b2 same(1) by (auto simp: getOrderbook_def)
qed

text \<open>The database left by a run, opened again.\<close>

definition reopening :: "tables \<Rightarrow> tables world" where
  "reopening t = sample_world\<lparr>w_sql := mem_sqlite\<lparr>sqlite_open := (\<lambda>_. Some t)\<rparr>\<rparr>"

lemma reopening_durable: "durable_sql (w_sql (reopening t)) (\<lambda>d. d)"
  using mem_durable by (simp add: durable_sql_def sqlite_ok_def reopening_def)

lemma reopening_open: "open_store (w_sql (reopening t)) (new_store name) = (True, \<lparr>os_path = name, os_db = Some t\<rparr>)"
  by (simp add: open_store_def new_store_def mem_sqlite_def reopening_def executeSQL_def createSchema_def Let_def)

text \<open>Without active stop orders in the table the rows are exact.\<close>

lemma exact_without_stops:
  assumes "mirrored tab srv" and "orders_table tab srv = Some rs"
    and "\<And>r. r \<in> set rs \<Longrightarrow> r_order_type r \<noteq> ''STOP'' \<and> r_order_type r \<noteq> ''STOP_LIMIT''"
  shows "exact_rows tab srv"
  unfolding exact_rows_def
proof (intro allI impI ballI)
  fix rs' r assume "orders_table tab srv = Some rs'" and "r \<in> set rs'" and a: "is_active_row r \<and> r_remaining_quantity r \<noteq> 0"
  then have r: "r \<in> set rs" using assms(2) by simp
  have m: "mirrors (orderbooks srv) rs" "at_home (orderbooks srv)" using assms(1,2) by (auto simp: mirrored_def)
  have "owed r" using a assms(3)[OF r] by (simp add: owed_def)
  from mirrorsD(3)[OF m(1) r this] obtain smb b q where
    q: "map_find (orderbooks srv) smb = Some b" "in_book b q" "o_id (heap b q) = r_id r" by blast
  obtain r' where r': "r' \<in> set rs" "row_agrees r' (heap b q)" using mirrorsD(2)[OF m(1) q(1,2)] by blast
  then have "r' = r" using row_unique[OF mirrorsD(1)[OF m(1)], of r' r] r q(3) by (simp add: row_agrees_def)
  moreover have "r_symbol r' = smb" using m(2) q r'(2) by (auto simp: at_home_def row_agrees_def)
  ultimately show "\<exists>b q. getOrderbook (r_symbol r) srv = Some b \<and> in_book b q \<and> o_id (heap b q) = r_id r \<and>
      r_order_type r = typeToString (o_type (heap b q))"
    using q r'(2) assms(3)[OF r] by (auto simp: getOrderbook_def row_agrees_def)
qed

lemma open_guard:
  assumes "guarded w p perm h srv = Some srv'" and "\<not> auth_required srv"
  obtains srv1 where "h srv1 = Some srv'" "server_inv srv \<Longrightarrow> server_inv srv1" "orderbooks srv1 = orderbooks srv"
    "order_store srv1 = order_store srv"
proof
  let ?s = "snd (requireAuth w p perm srv)"
  show "h ?s = Some srv'" using assms by (simp add: guarded_def requireAuth_def Let_def)
  show "server_inv srv \<Longrightarrow> server_inv ?s" by (rule server_inv_requireAuth)
  show "orderbooks ?s = orderbooks srv" "order_store ?s = order_store srv"
    using assms(2) by (simp_all add: requireAuth_def set_session_def Let_def)
qed

text \<open>After the submission the table has one row, of a limit order, and the book has the order.\<close>

lemma sample_submitted:
  assumes "session_op sample_world {} (session_run_action (w_env sample_world) sample_arrival) 0 stored_server = Some srv"
  obtains r b where "orders_table (\<lambda>d. d) srv = Some [r]" "r_order_type r = ''LIMIT''"
    "orderbooks srv = [(''ACME'', b)]" "open_orders b (uuid sample_world) \<noteq> None"
proof -
  define s0 where "s0 = set_session 0 (session_run_action (w_env sample_world) sample_arrival (session_heap stored_server 0)) stored_server"
  let ?m = sample_submission
  have inv0: "server_inv s0" unfolding s0_def
    by (rule server_inv_session[OF reachable_server_inv[OF stored_server_reachable]]) (rule identity_client, simp)
  have "dispatch sample_world {} 0 [Delivered (OrderSubmit ?m)] s0 = Some srv"
    using assms sample_delivers by (simp add: session_op_def delivers_def s0_def Let_def)
  then have "guarded sample_world 0 ''trade'' (handleOrderSubmit sample_world ?m 0) s0 = Some srv"
    by (cases "guarded sample_world 0 ''trade'' (handleOrderSubmit sample_world ?m 0) s0") (simp_all add: handleMessage_def)
  moreover have "\<not> auth_required s0" using sample_server_fields(3) by (simp add: s0_def set_session_def stored_server_def)
  ultimately obtain s1 where run: "handleOrderSubmit sample_world ?m 0 s1 = Some srv" and inv: "server_inv s1"
    and same: "orderbooks s1 = orderbooks s0" "order_store s1 = order_store s0"
    using open_guard inv0 by metis
  define b where "b = setTradeCallback (setOrderCallback (new_book ''ACME'' 1 (\<lambda>_. blank_order)))"
  have books: "orderbooks s1 = [(''ACME'', b)]"
    using same(1) sample_server_fields(1) by (simp add: s0_def stored_server_def b_def)
  have table: "orders_table (\<lambda>d. d) s1 = Some []"
    using stored_table same(2) by (simp add: orders_table_def s0_def set_session_def)
  have acme: "sub_symbol ?m = ''ACME''" "sub_quantity ?m \<noteq> 0" "sub_order_type ?m = LIMIT" by (simp_all add: sample_submission_def)
  let ?p = "next_order s1" and ?ord = "submitted_order sample_world ?m b" and ?now = "\<lambda>k. w_clock sample_world (k + 2)"
  have bk: "book_inv b" "?p \<notin> ran (orders_by_id b)" "orders_by_id b (o_id ?ord) = None" "\<not> in_book b q" for q
    using svc.served_find[of ?p "orderbooks s1" "''ACME''" b] inv books
    by (auto simp: server_inv_def served_book_def b_def map_find_Cons setTradeCallback_def setOrderCallback_def new_book_def
        in_book_def in_levels_def intro: reachable_inv)
  have ord: "active ?ord" "wf_order ?ord" "o_type ?ord = LIMIT"
    using acme by (simp_all add: submitted_order_def wf_new_order active_new_order) (simp add: new_order_def)
  obtain b' where b': "addOrder ?now (Some ?p) (set_order ?p ?ord b) = Some (True, callbacks ?p b', b')" "book_inv b'"
    "heap b' = (heap b)(?p := ?ord)" "\<And>q. in_book b' q \<longleftrightarrow> q = ?p \<or> in_book b q" "pending_order_updates b' = []"
    "order_callback b' = order_callback b"
    by (rule quiet_add[OF bk(1,2) ord(1,2) _ _ bk(3), of ?now]) (use bk(4) ord(3) acme(2) in simp_all)
  have "order_callback b" by (simp add: b_def setTradeCallback_def setOrderCallback_def)
  then have evs: "event_orders (callbacks ?p b') = [?p]" using b'(5,6) event_orders_callbacks[of b' ?p] by (simp add: participants_def)
  have "plain_submission (\<lambda>d. d) sample_world ?m s1" using sample_plain table stored_table by (simp add: plain_submission_def)
  moreover have "getOrderbook (sub_symbol ?m) s1 = Some b" using books acme(1) by (simp add: getOrderbook_def map_find_Cons)
  moreover have "durable_sql (w_sql sample_world) (\<lambda>d. d)" using mem_durable by (simp add: sample_world_def)
  ultimately have out: "orderbooks srv = map_put ''ACME'' b' (orderbooks s1)"
    "orders_table (\<lambda>d. d) srv = Some [told ?ord (order_row_of (w_clock sample_world 1) ?ord)]"
    using handleOrderSubmit_rows[OF inv _ _ table, of ?m b sample_world 0] run b'(1,3) evs acme(1)
    by (auto simp: tell_def)
  show thesis
  proof (rule that[OF out(2)])
    show "r_order_type (told ?ord (order_row_of (w_clock sample_world 1) ?ord)) = ''LIMIT''"
      using ord(3) by (simp add: told_def updated_row_def order_row_of_def)
    show "orderbooks srv = [(''ACME'', b')]" using out(1) books by simp
    have "getOrder (uuid sample_world) b' = Some ?p" using getOrder_in_book[OF b'(2)] b'(3,4) by simp
    then show "open_orders b' (uuid sample_world) \<noteq> None" by (simp add: open_orders_def)
  qed
qed

text \<open>The submitted order is in the book of the next process.\<close>

theorem restart_recovers_witness:
  "\<exists>t opts srv b. parse_args [''-s'', ''ACME''] default_options = Run opts \<and>
     run_main (\<lambda>p. 1024 \<le> p) (reopening t) sample_world opts = Serves srv \<and> mirrored (\<lambda>d. d) srv \<and>
     getOrderbook ''ACME'' srv = Some b \<and> open_orders b (uuid sample_world) \<noteq> None"
proof -
  obtain opts where opts: "parse_args [''-s'', ''ACME''] default_options = Run opts" "opt_symbols opts = [''ACME'']" "opt_port opts = 8080"
  proof -
    have "case parse_args [''-s'', ''ACME''] default_options of
        Run opts \<Rightarrow> opt_symbols opts = [''ACME''] \<and> opt_port opts = 8080 | Exit n \<Rightarrow> False" by code_simp
    then show thesis using that by (auto split: outcome.splits)
  qed
  obtain old where old: "session_op sample_world {} (session_run_action (w_env sample_world) sample_arrival) 0 stored_server = Some old"
    "durable_step mem_sqlite (\<lambda>d. d) stored_server old" by (rule sample_step)
  obtain r b where r: "orders_table (\<lambda>d. d) old = Some [r]" "r_order_type r = ''LIMIT''"
    "orderbooks old = [(''ACME'', b)]" "open_orders b (uuid sample_world) \<noteq> None" by (rule sample_submitted[OF old(1)])
  have mir: "mirrored (\<lambda>d. d) old"
    by (rule durable_step_mirrored[OF mem_durable old(2) reachable_server_inv[OF stored_server_reachable] stored_mirrored])
  have ex: "exact_rows (\<lambda>d. d) old" using mir r(1) by (rule exact_without_stops) (use r(2) in simp)
  have reach: "reachable_server old"
    using stored_server_reachable durable_server_step[OF old(2)] by (rule reachable_server.step)
  let ?t = "\<lparr>tb_orders = [r], tb_trades = [], tb_users = []\<rparr>"
  have keys: "smb \<in> set (opt_symbols opts)" if "getOrderbook smb old \<noteq> None" for smb
    using that r(3) opts(2) by (simp add: getOrderbook_def map_find_Cons split: if_splits)
  have tab: "map_option (\<lambda>d. tb_orders d) (os_db \<lparr>os_path = opt_db_path opts, os_db = Some ?t\<rparr>) = orders_table (\<lambda>d. d) old"
    using r(1) by simp
  obtain srv where "run_main (\<lambda>p. 1024 \<le> p) (reopening ?t) sample_world opts = Serves srv" "mirrored (\<lambda>d. d) srv"
    "\<exists>b'. getOrderbook ''ACME'' srv = Some b' \<and> open_orders b' = open_orders b"
    using restart_recovers[OF reopening_durable reach mir ex opts(1) keys reopening_open tab, of "\<lambda>p. 1024 \<le> p" sample_world] r(3) opts(3)
    by (auto simp: getOrderbook_def map_find_Cons)
  then show ?thesis using opts(1) r(4) by metis
qed

end
