(* ===== verification/Framed_Stream.thy ===== *)
theory Framed_Stream
  imports Framing
begin

text \<open>
  The two interfaces that the session of the server and the client library share: a writer that keeps
  its frames in a queue with one write outstanding, and a reader that asks for a header and then for
  the content it announces. What follows from the contracts is proved here once, for both ends.
\<close>

section \<open>Writing\<close>

text \<open>
  \<open>live\<close> says that no write has failed and the connection has not been closed; \<open>outstanding\<close> are the
  buffers handed to the socket and \<open>sent\<close> is what the socket has accepted.
\<close>

locale framed_writer =
  fixes live :: "'s \<Rightarrow> bool" and sent :: "'s \<Rightarrow> u8 list" and queued :: "'s \<Rightarrow> u8 list list"
    and outstanding :: "'s \<Rightarrow> u8 list list" and busy :: "'s \<Rightarrow> bool"
    and frame :: "'m \<Rightarrow> u8 list" and push :: "'m \<Rightarrow> 's \<Rightarrow> 's" and pop :: "'s \<Rightarrow> 's"
  assumes push_frame: "live (push m s) = live s" "sent (push m s) = sent s" "queued (push m s) = queued s @ [frame m]"
      "busy (push m s)"
    and push_write: "outstanding (push m s) =
      (if busy s then outstanding s else outstanding s @ [hd (queued s @ [frame m])])"
    and pop_live: "live (pop s) = live s"
    and pop_write: "outstanding s = b # bs \<Longrightarrow>
      sent (pop s) = sent s @ b \<and> queued (pop s) = tl (queued s) \<and> busy (pop s) = (busy s \<and> tl (queued s) \<noteq> []) \<and>
      outstanding (pop s) = (if tl (queued s) = [] then bs else bs @ [hd (tl (queued s))])"
    and pop_idle: "outstanding s = [] \<Longrightarrow> pop s = s"
begin

definition in_order :: "'m list \<Rightarrow> 's \<Rightarrow> bool" where
  "in_order ms s \<longleftrightarrow> (\<exists>k \<le> length ms. sent s = concat (map frame (take k ms)) \<and> queued s = map frame (drop k ms)) \<and>
     outstanding s = take 1 (queued s) \<and> busy s = (queued s \<noteq> [])"

lemma in_orderE:
  assumes "in_order ms s"
  obtains k where "k \<le> length ms" "sent s = concat (map frame (take k ms))" "queued s = map frame (drop k ms)"
    "outstanding s = take 1 (queued s)" "busy s = (queued s \<noteq> [])"
  using assms unfolding in_order_def by blast

lemma in_orderI:
  "k \<le> length ms \<Longrightarrow> sent s = concat (map frame (take k ms)) \<Longrightarrow> queued s = map frame (drop k ms) \<Longrightarrow>
   outstanding s = take 1 (queued s) \<Longrightarrow> busy s = (queued s \<noteq> []) \<Longrightarrow> in_order ms s"
  unfolding in_order_def by blast

lemma in_order_sent: "in_order ms s \<Longrightarrow> sent s @ concat (queued s) = concat (map frame ms)"
  by (elim in_orderE) (simp flip: concat_append map_append)

lemma in_order_push:
  assumes "in_order ms s"
  shows "in_order (ms @ [m]) (push m s)"
proof -
  from assms obtain k where k: "k \<le> length ms" "sent s = concat (map frame (take k ms))"
    "queued s = map frame (drop k ms)" "outstanding s = take 1 (queued s)" "busy s = (queued s \<noteq> [])"
    by (rule in_orderE)
  have "outstanding (push m s) = take 1 (queued (push m s))"
    using k(4,5) by (cases "queued s") (simp_all add: push_frame push_write)
  with k show ?thesis by (intro in_orderI[of k]) (simp_all add: push_frame)
qed

lemma in_order_pop:
  assumes "in_order ms s"
  shows "in_order ms (pop s)"
proof -
  from assms obtain k where k: "k \<le> length ms" "sent s = concat (map frame (take k ms))"
    "queued s = map frame (drop k ms)" "outstanding s = take 1 (queued s)" "busy s = (queued s \<noteq> [])"
    by (rule in_orderE)
  show ?thesis
  proof (cases "drop k ms")
    case Nil
    with k assms show ?thesis by (simp add: pop_idle)
  next
    case (Cons m rest)
    then have "k < length ms" by (cases "k < length ms") simp_all
    then have next_m: "Suc k \<le> length ms" "take (Suc k) ms = take k ms @ [m]" "drop (Suc k) ms = rest"
      using Cons by (simp_all add: take_Suc_conv_app_nth Cons_nth_drop_Suc[symmetric])
    have "outstanding s = [frame m]" using k(3,4) Cons by simp
    from pop_write[OF this] next_m k Cons show ?thesis
      by (intro in_orderI[of "Suc k"]) (auto simp: take_Suc hd_map)
  qed
qed

lemma in_order_same:
  assumes "in_order ms s" "sent t = sent s" "queued t = queued s" "outstanding t = outstanding s" "busy t = busy s"
  shows "in_order ms t"
  using assms by (simp add: in_order_def)

end

section \<open>Reading\<close>

text \<open>
  \<open>pending s\<close> is the number of bytes the outstanding read asks for, \<open>complete bs\<close> its completion handler.
  \<^verbatim>\<open>asio::async_read\<close> completes when its buffer is full, so the loop serves the requests as long as the
  bytes last and returns the bytes not yet read. \<open>received t\<close> is the effect of reading one whole frame.
\<close>

definition frameable :: "string \<Rightarrow> bool" where
  "frameable t \<longleftrightarrow> t \<noteq> [] \<and> length t \<le> 1024 * 1024"

lemma frameable_length:
  assumes "frameable t"
  shows "unat (of_nat (length t) :: u32) = length t" "(of_nat (length t) :: u32) \<noteq> 0"
    "\<not> (of_nat (length t) :: u32) > 1024 * 1024"
proof -
  have "length t < 2 ^ 32" using assms by (simp add: frameable_def)
  then show u: "unat (of_nat (length t) :: u32) = length t"
    by (simp add: unsigned_of_nat take_bit_nat_eq_self)
  then show "(of_nat (length t) :: u32) \<noteq> 0"
    using assms by (auto simp: frameable_def)
  show "\<not> (of_nat (length t) :: u32) > 1024 * 1024"
    using assms u by (simp add: word_less_nat_alt frameable_def)
qed

text \<open>The stream arrives in chunks; what a chunk leaves over is read with the next one.\<close>

fun feed :: "(u8 list \<Rightarrow> 's \<Rightarrow> 's \<times> u8 list) \<Rightarrow> u8 list list \<Rightarrow> 's \<times> u8 list \<Rightarrow> 's \<times> u8 list" where
  "feed reads [] (s, left) = (s, left)"
| "feed reads (c # cs) (s, left) = feed reads cs (reads (left @ c) s)"

locale framed_reader =
  fixes pending :: "'s \<Rightarrow> nat option" and complete :: "u8 list \<Rightarrow> 's \<Rightarrow> 's"
    and reads :: "u8 list \<Rightarrow> 's \<Rightarrow> 's \<times> u8 list" and ready :: "'s \<Rightarrow> bool" and received :: "string \<Rightarrow> 's \<Rightarrow> 's"
  assumes reads_eq: "reads bs s = (case pending s of None \<Rightarrow> (s, bs)
      | Some n \<Rightarrow> if length bs < n then (s, bs) else reads (drop n bs) (complete (take n bs) s))"
    and progress: "pending s = Some 0 \<Longrightarrow> pending (complete [] s) \<noteq> Some 0"
    and ready_pending: "ready s \<Longrightarrow> pending s = Some HEADER_SIZE"
    and header: "ready s \<Longrightarrow> frameable t \<Longrightarrow> pending (complete (take 4 (frameMessage t)) s) = Some (length t)"
    and content: "ready s \<Longrightarrow> frameable t \<Longrightarrow>
      complete (bytes_of t) (complete (take 4 (frameMessage t)) s) = received t s"
    and ready_again: "ready s \<Longrightarrow> ready (received t s)"
begin

lemma reads_append: "reads (bs @ cs) s = reads (snd (reads bs s) @ cs) (fst (reads bs s))"
proof (induction "2 * length bs + (if pending s = Some 0 then 1 else 0)" arbitrary: bs s rule: less_induct)
  case less
  show ?case
  proof (cases "\<exists>n. pending s = Some n \<and> n \<le> length bs")
    case True
    then obtain n where n: "pending s = Some n" "n \<le> length bs" by blast
    have "reads (drop n bs @ cs) (complete (take n bs) s) =
        reads (snd (reads (drop n bs) (complete (take n bs) s)) @ cs) (fst (reads (drop n bs) (complete (take n bs) s)))"
      by (rule less) (use n progress[of s] in \<open>auto split: if_splits\<close>)
    then show ?thesis using n by (simp add: reads_eq[of bs s] reads_eq[of "bs @ cs" s])
  next
    case False
    then show ?thesis by (cases "pending s") (simp_all add: reads_eq[of bs s])
  qed
qed

lemma reads_none: "ready s \<Longrightarrow> reads [] s = (s, [])"
  by (subst reads_eq) (simp add: ready_pending HEADER_SIZE_def)

lemma reads_frame:
  assumes "ready s" and "frameable t"
  shows "reads (frameMessage t @ bs) s = reads bs (received t s)"
proof -
  have frame: "take HEADER_SIZE (frameMessage t @ bs) = take 4 (frameMessage t)"
    "drop HEADER_SIZE (frameMessage t @ bs) = bytes_of t @ bs"
    by (simp_all add: HEADER_SIZE_def)
  define s1 where "s1 = complete (take 4 (frameMessage t)) s"
  have "reads (frameMessage t @ bs) s = reads (bytes_of t @ bs) s1"
    using ready_pending[OF assms(1)] frame by (subst reads_eq) (simp add: s1_def HEADER_SIZE_def)
  also have "\<dots> = reads bs (complete (bytes_of t) s1)"
    using header[OF assms] by (subst reads_eq) (simp add: s1_def)
  finally show ?thesis using content[OF assms] by (simp add: s1_def)
qed

lemma reads_frames:
  "ready s \<Longrightarrow> list_all frameable ts \<Longrightarrow> reads (concat (map frameMessage ts)) s = (fold received ts s, [])"
  by (induction ts arbitrary: s) (simp_all add: reads_none reads_frame ready_again)

lemma feed_reads: "feed reads cs (reads bs s) = reads (bs @ concat cs) s"
proof (induction cs arbitrary: bs)
  case Nil
  then show ?case by (cases "reads bs s") simp
next
  case (Cons c cs)
  obtain s1 left where r: "reads bs s = (s1, left)" by (cases "reads bs s")
  have "reads (left @ c) s1 = reads (bs @ c) s"
    using reads_append[of bs c s] by (simp add: r)
  with Cons.IH[of "bs @ c"] show ?case by (simp add: r)
qed

text \<open>However the stream of frames is cut into chunks, exactly the frames are received, in order.\<close>

lemma feed_frames:
  assumes "ready s" and "list_all frameable ts" and "concat chunks = concat (map frameMessage ts)"
  shows "feed reads chunks (s, []) = (fold received ts s, [])"
  using feed_reads[of chunks "[]" s] assms by (simp add: reads_none reads_frames)

end

end
