(* ===== verification/Session_Props.thy ===== *)
theory Session_Props
  imports Session Framed_Stream
begin

text \<open>
  Properties of a connection: the reader turns a stream of frames into the sequence of messages
  whatever the segmentation of the stream, never waits for more than a megabyte, and closes on an
  invalid length; the writer has one write outstanding at a time and sends the frames in order. The session
  is an instance of both interfaces of \<^verbatim>\<open>Framed_Stream\<close>.
\<close>

subsection \<open>Reading\<close>

fun session_pending :: "session \<Rightarrow> nat option" where
  "session_pending s =
     (case pending_read s of None \<Rightarrow> None | Some ReadHeader \<Rightarrow> Some HEADER_SIZE | Some (ReadContent n) \<Rightarrow> Some n)"

fun session_complete :: "env \<Rightarrow> u8 list \<Rightarrow> session \<Rightarrow> session" where
  "session_complete e bs s =
     (case pending_read s of Some (ReadContent n) \<Rightarrow> content_done e (Done bs) s | _ \<Rightarrow> header_done (Done bs) s)"

text \<open>The state after one more message has been read.\<close>

definition received :: "env \<Rightarrow> string \<Rightarrow> session \<Rightarrow> session" where
  "received e t s = s\<lparr>length_buffer := take 4 (frameMessage t), message_content_buffer := bytes_of t,
     read_state := HEADER, pending_read := Some ReadHeader,
     events := events s @ (if message_callback s then [Delivered (parseMessage e t)] else [])\<rparr>"

interpretation session_reader: framed_reader session_pending "session_complete e" "read_all e"
  "\<lambda>s. pending_read s = Some ReadHeader" "received e" for e
proof
  fix bs and s :: session
  show "read_all e bs s = (case session_pending s of None \<Rightarrow> (s, bs)
      | Some n \<Rightarrow> if length bs < n then (s, bs) else read_all e (drop n bs) (session_complete e (take n bs) s))"
    by (subst read_all.simps) (simp split: option.split read_op.split)
next
  fix s :: session assume "session_pending s = Some 0"
  then show "session_pending (session_complete e [] s) \<noteq> Some 0"
    by (auto simp: HEADER_SIZE_def content_done_def doRead_def Let_def split: option.splits read_op.splits)
next
  fix s :: session and t :: string assume "pending_read s = Some ReadHeader" "frameable t"
  then show "session_pending (session_complete e (take 4 (frameMessage t)) s) = Some (length t)"
    using frameable_length[of t] by (simp add: header_done_def HEADER_SIZE_def)
next
  fix s :: session and t :: string assume "pending_read s = Some ReadHeader" "frameable t"
  then show "session_complete e (bytes_of t) (session_complete e (take 4 (frameMessage t)) s) = received e t s"
    using frameable_length[of t]
    by (simp add: content_done_def header_done_def HEADER_SIZE_def doRead_def received_def)
qed (simp_all add: received_def)

lemma fold_received:
  "events (fold (received e) ts s) =
     events s @ (if message_callback s then map (\<lambda>t. Delivered (parseMessage e t)) ts else [])"
  "is_open (fold (received e) ts s) = is_open s"
  "pending_read s = Some ReadHeader \<Longrightarrow> pending_read (fold (received e) ts s) = Some ReadHeader"
  by (induction ts arbitrary: s) (simp_all add: received_def)

lemma session_feeds:
  assumes "list_all frameable ts" and "concat chunks = concat (map frameMessage ts)"
  shows "\<exists>s'. feed (read_all e) chunks (start (new_session True), []) = (s', []) \<and>
    events s' = map (\<lambda>t. Delivered (parseMessage e t)) ts \<and> pending_read s' = Some ReadHeader \<and> is_open s'"
proof -
  let ?s = "start (new_session True)"
  have s: "pending_read ?s = Some ReadHeader" "events ?s = []" "message_callback ?s" "is_open ?s"
    by (simp_all add: start_def doRead_def new_session_def)
  show ?thesis
    using session_reader.feed_frames[OF s(1) assms] fold_received[where e = e and ts = ts and s = ?s] s by simp
qed

subsection \<open>Runs of a connection\<close>

text \<open>
  Every interleaving of sends, completions, test injections and closing after the server has accepted the
  connection; the list is the messages sent so far.
\<close>

inductive session_run :: "env \<Rightarrow> Message list \<Rightarrow> session \<Rightarrow> bool" for e where
  init: "session_run e [] (start (setDisconnectCallback (new_session True)))"
| send: "session_run e ms s \<Longrightarrow> session_run e (ms @ [m]) (sendMessage e (Some m) s)"
| send_null: "session_run e ms s \<Longrightarrow> session_run e ms (sendMessage e None s)"
| header: "session_run e ms s \<Longrightarrow> pending_read s = Some ReadHeader \<Longrightarrow> session_run e ms (header_done c s)"
| content: "session_run e ms s \<Longrightarrow> pending_read s = Some (ReadContent n) \<Longrightarrow>
    (case c of Done bs \<Rightarrow> length bs = n | Failed \<Rightarrow> True) \<Longrightarrow> session_run e ms (content_done e c s)"
| written: "session_run e ms s \<Longrightarrow> session_run e ms (write_done ok s)"
| inject: "session_run e ms s \<Longrightarrow> session_run e ms (injectTestMessage smb s)"
| close: "session_run e ms s \<Longrightarrow> session_run e ms (close s)"

text \<open>The write queue: while the connection is open one write is outstanding exactly when something is queued.\<close>

interpretation session_writer: framed_writer is_open wire write_messages pending_writes writing
  "\<lambda>m. frameMessage (serialize e m)" "\<lambda>m. sendMessage e (Some m)" "write_done True" for e
proof -
  have opened: "is_open (doWriteNext t) = is_open t" for t
    by (simp add: doWriteNext_def split: list.split)
  show "framed_writer is_open wire write_messages pending_writes writing
      (\<lambda>m. frameMessage (serialize e m)) (\<lambda>m. sendMessage e (Some m)) (write_done True)"
    by unfold_locales
      (auto simp: sendMessage_def write_done_def Let_def opened doWriteNext_def split: list.splits if_splits)
qed

definition write_inv :: "env \<Rightarrow> Message list \<Rightarrow> session \<Rightarrow> bool" where
  "write_inv e ms s \<longleftrightarrow> (is_open s \<longrightarrow> session_writer.in_order e ms s)"

definition disconnects :: "session \<Rightarrow> nat" where
  "disconnects s = length (filter (\<lambda>ev. ev = Disconnected) (events s))"

definition read_inv :: "session \<Rightarrow> bool" where
  "read_inv s \<longleftrightarrow> length (message_content_buffer s) \<le> 1024 * 1024 \<and>
     (case pending_read s of Some (ReadContent n) \<Rightarrow> 0 < n \<and> n \<le> 1024 * 1024 | _ \<Rightarrow> True) \<and>
     (is_open s \<longrightarrow> pending_read s \<noteq> None) \<and>
     (is_open s \<or> \<not> disconnect_callback s) \<and> disconnects s = (if disconnect_callback s then 0 else 1)"

lemma close_simps [simp]:
  "\<not> is_open (close s)" "wire (close s) = wire s" "write_messages (close s) = write_messages s"
  "pending_writes (close s) = pending_writes s" "pending_read (close s) = pending_read s"
  "message_content_buffer (close s) = message_content_buffer s" "\<not> disconnect_callback (close s)"
  "disconnects (close s) = disconnects s + (if disconnect_callback s then 1 else 0)"
  by (simp_all add: close_def Let_def disconnects_def)

lemma write_inv_closed [simp]: "\<not> is_open s \<Longrightarrow> write_inv e ms s"
  by (simp add: write_inv_def)

lemma write_inv_send: "write_inv e ms s \<Longrightarrow> write_inv e (ms @ [m]) (sendMessage e (Some m) s)"
  by (simp add: write_inv_def session_writer.in_order_push session_writer.push_frame)

lemma write_inv_done:
  assumes "write_inv e ms s"
  shows "write_inv e ms (write_done ok s)"
proof (cases ok)
  case True
  with assms show ?thesis by (simp add: write_inv_def session_writer.in_order_pop session_writer.pop_live)
next
  case False
  then have "\<not> is_open (write_done ok s) \<or> write_done ok s = s"
    by (cases "pending_writes s") (simp_all add: write_done_def Let_def)
  with assms show ?thesis by auto
qed

lemma write_inv_same:
  assumes "write_inv e ms s" and "is_open t \<Longrightarrow> is_open s \<and> wire t = wire s \<and> write_messages t = write_messages s \<and>
    pending_writes t = pending_writes s \<and> writing t = writing s"
  shows "write_inv e ms t"
  using assms session_writer.in_order_same[of e ms s t] by (simp add: write_inv_def)

lemma session_write_inv: "session_run e ms s \<Longrightarrow> write_inv e ms s"
proof (induction rule: session_run.induct)
  case init
  then show ?case
    by (simp add: write_inv_def session_writer.in_order_def start_def doRead_def setDisconnectCallback_def new_session_def)
next
  case (header ms s c)
  from header.IH show ?case
    by (rule write_inv_same) (auto simp: header_done_def Let_def split: completion.splits if_splits)
next
  case (content ms s n c)
  from content.IH show ?case
    by (rule write_inv_same) (auto simp: content_done_def doRead_def Let_def split: completion.splits if_splits)
next
  case (send ms s m)
  then show ?case by (simp add: write_inv_send)
qed (auto simp: write_inv_done sendMessage_def injectTestMessage_def intro: write_inv_same)

lemma read_inv_same:
  assumes "read_inv s" and "message_content_buffer t = message_content_buffer s" "pending_read t = pending_read s"
    "is_open t = is_open s" "disconnect_callback t = disconnect_callback s" "disconnects t = disconnects s"
  shows "read_inv t"
  using assms(1) unfolding read_inv_def assms(2-) .

lemma read_inv_close:
  "read_inv s \<Longrightarrow> pending_read t = None \<or> pending_read t = pending_read s \<Longrightarrow>
   message_content_buffer t = message_content_buffer s \<Longrightarrow> disconnect_callback t = disconnect_callback s \<Longrightarrow>
   disconnects t = disconnects s \<Longrightarrow> read_inv (close t)"
  by (auto simp: read_inv_def split: if_splits)

lemma read_inv_header: "read_inv s \<Longrightarrow> read_inv (header_done c s)"
proof (cases c)
  case Failed
  assume "read_inv s"
  then show ?thesis by (auto simp: header_done_def Failed disconnects_def intro: read_inv_close)
next
  case (Done bs)
  assume inv: "read_inv s"
  let ?n = "extractLength bs"
  show ?thesis
  proof (cases "length bs = HEADER_SIZE \<and> ?n \<noteq> 0 \<and> \<not> ?n > 1024 * 1024")
    case True
    then have n: "0 < unat ?n" "unat ?n \<le> 1024 * 1024" by (simp_all add: unat_gt_0 word_less_nat_alt)
    define buf where "buf = take (unat ?n) (message_content_buffer s) @
      replicate (unat ?n - length (message_content_buffer s)) (0 :: u8)"
    have buf: "length buf \<le> 1024 * 1024" using n(2) by (simp add: buf_def)
    have "header_done c s = s\<lparr>length_buffer := bs, message_content_buffer := buf,
        read_state := CONTENT, pending_read := Some (ReadContent (unat ?n))\<rparr>"
      using True by (simp add: header_done_def Done buf_def Let_def)
    moreover have "disconnects (s\<lparr>length_buffer := bs, message_content_buffer := buf,
        read_state := CONTENT, pending_read := Some (ReadContent (unat ?n))\<rparr>) = disconnects s"
      by (simp add: disconnects_def)
    ultimately show ?thesis using inv n buf unfolding read_inv_def by simp
  next
    case False
    then show ?thesis using inv
      by (auto simp: header_done_def Done disconnects_def Let_def intro: read_inv_close)
  qed
qed

lemma read_inv_content:
  assumes "read_inv s" and "pending_read s = Some (ReadContent n)"
    and "case c of Done bs \<Rightarrow> length bs = n | Failed \<Rightarrow> True"
  shows "read_inv (content_done e c s)"
proof (cases c)
  case Failed
  with assms show ?thesis by (auto simp: content_done_def disconnects_def intro: read_inv_close)
next
  case (Done bs)
  with assms show ?thesis by (auto simp: content_done_def doRead_def read_inv_def disconnects_def Let_def)
qed

lemma session_read_inv: "session_run e ms s \<Longrightarrow> read_inv s"
proof (induction rule: session_run.induct)
  case init
  then show ?case
    by (simp add: read_inv_def start_def doRead_def setDisconnectCallback_def new_session_def disconnects_def)
next
  case (send ms s m)
  from send.IH show ?case
    by (rule read_inv_same)
      (simp_all add: sendMessage_def doWriteNext_def Let_def disconnects_def split: list.split)
next
  case (written ms s ok)
  have next_frame: "message_content_buffer (doWriteNext t) = message_content_buffer t \<and>
      pending_read (doWriteNext t) = pending_read t \<and> is_open (doWriteNext t) = is_open t \<and>
      disconnect_callback (doWriteNext t) = disconnect_callback t \<and> disconnects (doWriteNext t) = disconnects t" for t
    by (simp add: doWriteNext_def disconnects_def split: list.split)
  show ?case
  proof (cases "ok \<or> pending_writes s = []")
    case True
    with written.IH show ?thesis
      by (intro read_inv_same[OF written.IH]; cases "pending_writes s")
        (simp_all add: write_done_def Let_def next_frame, simp_all add: disconnects_def)
  next
    case False
    then obtain buf bufs where "pending_writes s = buf # bufs" by (cases "pending_writes s") auto
    with False written.IH show ?thesis
      by (auto simp: write_done_def disconnects_def intro: read_inv_close)
  qed
next
  case (close ms s)
  then show ?case by (auto intro: read_inv_close)
qed (auto simp: sendMessage_def injectTestMessage_def disconnects_def read_inv_header read_inv_content
      intro: read_inv_same)

subsection \<open>Properties\<close>

text \<open>
  C16. Framing round trip and segmentation: however the byte stream of a sequence of framed texts (each
  of at least one byte and at most a megabyte) is cut into chunks, a started session with a callback
  delivers exactly the parsed messages, in order, consumes every byte and waits for the next header.
\<close>

theorem session_reads_stream:
  assumes "list_all frameable ts" and "concat chunks = concat (map frameMessage ts)"
  shows "\<exists>s'. feed (read_all e) chunks (start (new_session True), []) = (s', []) \<and>
    events s' = map (\<lambda>t. Delivered (parseMessage e t)) ts \<and>
    pending_read s' = Some ReadHeader \<and> is_open s'"
  using assms by (rule session_feeds)

theorem session_reads_stream_witness:
  "\<exists>s'. feed (read_all utc_env) [[11, 0], [0, 0, 116, 121, 112], [101, 61, 69, 82, 82, 79, 82, 10]]
       (start (new_session True), []) = (s', []) \<and>
     events s' = [Delivered (Error \<lparr>err_error_code = [], err_description = []\<rparr>)]"
proof -
  let ?t = "''type=ERROR'' @ [newline]" and ?cs = "[[11, 0], [0, 0, 116, 121, 112], [101, 61, 69, 82, 82, 79, 82, 10]] :: u8 list list"
  have "list_all frameable [?t]" by (simp add: frameable_def)
  moreover have "concat ?cs = concat (map frameMessage [?t])" by code_simp
  moreover have "parseMessage utc_env ?t = Error \<lparr>err_error_code = [], err_description = []\<rparr>" by code_simp
  ultimately show ?thesis using session_reads_stream[of "[?t]" ?cs utc_env] by auto
qed

text \<open>
  C23. A connection never waits for, or buffers, more than a megabyte of content, whatever lengths the
  peer announces; while it is open a read is outstanding; and the disconnect callback fires at
  most once, and has fired when the connection is closed, under every interleaving of operations.
\<close>

theorem session_bounded:
  assumes "session_run e ms s"
  shows "length (message_content_buffer s) \<le> 1024 * 1024 \<and>
    (case pending_read s of Some (ReadContent n) \<Rightarrow> n \<le> 1024 * 1024 | _ \<Rightarrow> True) \<and>
    disconnects s \<le> 1 \<and> (if is_open s then pending_read s \<noteq> None else disconnects s = 1)"
  using session_read_inv[OF assms] by (auto simp: read_inv_def split: option.splits read_op.splits if_splits)

theorem session_bounded_witness:
  "\<not> is_open (header_done (Done [0, 0, 0, 1]) (start (setDisconnectCallback (new_session True)))) \<and>
   disconnects (header_done (Done [0, 0, 0, 1]) (start (setDisconnectCallback (new_session True)))) = 1"
proof -
  let ?s = "start (setDisconnectCallback (new_session True))"
  have "session_run utc_env [] (header_done (Done [0, 0, 0, 1]) ?s)"
    by (rule session_run.header[OF session_run.init])
      (simp add: start_def doRead_def new_session_def setDisconnectCallback_def)
  moreover have "\<not> is_open (header_done (Done [0, 0, 0, 1]) ?s)" by code_simp
  ultimately show ?thesis using session_bounded by metis
qed

text \<open>
  C17. The writer: while the connection is open, the socket has accepted exactly the frames of the first
  messages sent and the queue holds those of the others, in order and each once, under every
  interleaving of sends and completions; and there is exactly one write outstanding, for the
  head of the queue, whenever the queue is not empty.
\<close>

theorem session_writes_in_order:
  assumes "session_run e ms s" and "is_open s"
  shows "(\<exists>k \<le> length ms. wire s = concat (map (\<lambda>m. frameMessage (serialize e m)) (take k ms)) \<and>
      write_messages s = map (\<lambda>m. frameMessage (serialize e m)) (drop k ms)) \<and>
    pending_writes s = take 1 (write_messages s) \<and> writing s = (write_messages s \<noteq> [])"
  using session_write_inv[OF assms(1)] assms(2) by (simp add: write_inv_def session_writer.in_order_def)

theorem session_writes_in_order_witness:
  "let m = SnapshotRequest \<lparr>req_symbol = ''A''\<rparr>;
       s = write_done True (sendMessage utc_env (Some m) (start (setDisconnectCallback (new_session True))))
   in wire s = frameMessage (serialize utc_env m)"
proof -
  let ?m = "SnapshotRequest \<lparr>req_symbol = ''A''\<rparr>"
  let ?s = "write_done True (sendMessage utc_env (Some ?m) (start (setDisconnectCallback (new_session True))))"
  have "session_run utc_env [?m] ?s"
    using session_run.written[OF session_run.send[OF session_run.init]] by simp
  moreover have "is_open ?s" "write_messages ?s = []" by code_simp+
  ultimately obtain k where k: "wire ?s = concat (map (\<lambda>m. frameMessage (serialize utc_env m)) (take k [?m]))"
    "drop k [?m] = []"
    using session_writes_in_order[of utc_env "[?m]" ?s] by (metis Nil_is_map_conv)
  then show ?thesis by (cases k) (simp_all add: Let_def)
qed

end
