(* ===== verification/Client.thy ===== *)
theory Client
  imports Session_Props
begin

text \<open>
  The client library (\<^verbatim>\<open>client/include/client.h\<close>, \<^verbatim>\<open>client/src/client.cpp\<close>). As for the session of the server,
  asynchronous operations are requests in the state and their completion handlers are operations; they
  are run by the thread \<^verbatim>\<open>io_thread_\<close> inside \<^verbatim>\<open>io_context_.run()\<close>, which returns at once when the context has
  been stopped. \<open>c_posted\<close> are the handlers given to \<^verbatim>\<open>asio::post\<close>, which the one thread runs in order;
  \<open>c_wire\<close> collects the bytes the socket has accepted since it was connected and \<open>c_events\<close> the invocations
  of the two callbacks.
\<close>

datatype client_event = Received Message | Connection bool

record client =
  connected :: bool
  running :: bool
  c_socket_open :: bool
  io_stopped :: bool
  io_thread :: bool
  c_message_callback :: bool
  c_connection_callback :: bool
  c_read_state :: ReadState
  c_length_buffer :: "u8 list"
  c_content_buffer :: "u8 list"
  c_pending_read :: "read_op option"
  c_posted :: "u8 list list"
  c_write_queue :: "u8 list list"
  c_writing :: bool
  c_pending_writes :: "u8 list list"
  c_wire :: "u8 list"
  c_events :: "client_event list"

definition new_client :: client where
  "new_client =
     \<lparr>connected = False, running = False, c_socket_open = False, io_stopped = False, io_thread = False,
      c_message_callback = False, c_connection_callback = False, c_read_state = HEADER,
      c_length_buffer = [0, 0, 0, 0], c_content_buffer = [], c_pending_read = None, c_posted = [],
      c_write_queue = [], c_writing = False, c_pending_writes = [], c_wire = [], c_events = []\<rparr>"

definition setMessageCallback :: "client \<Rightarrow> client" where
  "setMessageCallback c = c\<lparr>c_message_callback := True\<rparr>"

definition setConnectionCallback :: "client \<Rightarrow> client" where
  "setConnectionCallback c = c\<lparr>c_connection_callback := True\<rparr>"

definition notify_connection :: "bool \<Rightarrow> client \<Rightarrow> client" where
  "notify_connection up c =
     (if c_connection_callback c then c\<lparr>c_events := c_events c @ [Connection up]\<rparr> else c)"

subsection \<open>Reading\<close>

definition startRead :: "client \<Rightarrow> client" where
  "startRead c =
     (if \<not> running c \<or> \<not> c_socket_open c then c
      else let c1 = (if c_read_state c = HEADER then c else c\<lparr>c_read_state := HEADER\<rparr>)
           in c1\<lparr>c_pending_read := Some ReadHeader\<rparr>)"

definition lose_connection :: "client \<Rightarrow> client" where
  "lose_connection c = notify_connection False (c\<lparr>c_socket_open := False, connected := False\<rparr>)"

definition client_header_done :: "completion \<Rightarrow> client \<Rightarrow> client" where
  "client_header_done r c =
     (let c = c\<lparr>c_pending_read := None\<rparr>
      in case r of
           Failed \<Rightarrow> lose_connection c
         | Done bs \<Rightarrow>
             if length bs = HEADER_SIZE then
               let c1 = c\<lparr>c_length_buffer := bs\<rparr>;
                   message_length = extractLength (c_length_buffer c1)
               in if message_length = 0 \<or> message_length > 1024 * 1024 then lose_connection c1
                  else c1\<lparr>c_content_buffer :=
                            take (unat message_length) (c_content_buffer c1) @
                            replicate (unat message_length - length (c_content_buffer c1)) 0,
                          c_read_state := CONTENT,
                          c_pending_read := Some (ReadContent (unat message_length))\<rparr>
             else lose_connection c)"

definition handleData :: "env \<Rightarrow> string \<Rightarrow> client \<Rightarrow> client" where
  "handleData e data c =
     (let message = parseMessage e data
      in if c_message_callback c then c\<lparr>c_events := c_events c @ [Received message]\<rparr> else c)"

definition client_content_done :: "env \<Rightarrow> completion \<Rightarrow> client \<Rightarrow> client" where
  "client_content_done e r c =
     (let c = c\<lparr>c_pending_read := None\<rparr>
      in case r of
           Failed \<Rightarrow> lose_connection c
         | Done bs \<Rightarrow>
             let c1 = c\<lparr>c_content_buffer := bs\<rparr>;
                 c2 = handleData e (string_of (c_content_buffer c1)) c1
             in startRead (c2\<lparr>c_read_state := HEADER\<rparr>))"

text \<open>The handlers of the reads served from a stream of bytes, as for the session.\<close>

function client_reads :: "env \<Rightarrow> u8 list \<Rightarrow> client \<Rightarrow> client \<times> u8 list" where
  "client_reads e bs c =
     (case c_pending_read c of
        None \<Rightarrow> (c, bs)
      | Some ReadHeader \<Rightarrow>
          if length bs < HEADER_SIZE then (c, bs)
          else client_reads e (drop HEADER_SIZE bs) (client_header_done (Done (take HEADER_SIZE bs)) c)
      | Some (ReadContent n) \<Rightarrow>
          if length bs < n then (c, bs)
          else client_reads e (drop n bs) (client_content_done e (Done (take n bs)) c))"
  by pat_completeness auto
termination
proof (relation "measure (\<lambda>(e, bs, c). 2 * length bs +
    (case c_pending_read c of Some (ReadContent n) \<Rightarrow> 1 | _ \<Rightarrow> 0))")
  fix e :: env and bs :: "u8 list" and c :: client and x2 n
  assume "c_pending_read c = Some x2" "x2 = ReadContent n" "\<not> length bs < n"
  then show "((e, drop n bs, client_content_done e (Done (take n bs)) c), e, bs, c) \<in>
      measure (\<lambda>(e, bs, c). 2 * length bs + (case c_pending_read c of Some (ReadContent n) \<Rightarrow> 1 | _ \<Rightarrow> 0))"
    by (auto simp: client_content_done_def handleData_def startRead_def Let_def)
qed (auto simp: HEADER_SIZE_def split: option.splits read_op.splits)

declare client_reads.simps [simp del]

subsection \<open>Writing\<close>

definition client_doWriteNext :: "client \<Rightarrow> client" where
  "client_doWriteNext c = c\<lparr>c_pending_writes := c_pending_writes c @ [hd (c_write_queue c)]\<rparr>"

definition client_write :: "string \<Rightarrow> client \<Rightarrow> client" where
  "client_write message c =
     (if \<not> connected c \<or> \<not> c_socket_open c then c
      else c\<lparr>c_posted := c_posted c @ [frameMessage message]\<rparr>)"

text \<open>The handler that \<^verbatim>\<open>write\<close> posts, run for the oldest posted message.\<close>

definition enqueue_frame :: "u8 list \<Rightarrow> client \<Rightarrow> client" where
  "enqueue_frame framedMessage c =
     (let c1 = c\<lparr>c_write_queue := c_write_queue c @ [framedMessage]\<rparr>
      in if \<not> c_writing c1 then client_doWriteNext (c1\<lparr>c_writing := True\<rparr>) else c1)"

definition posted_done :: "client \<Rightarrow> client" where
  "posted_done c = (case c_posted c of [] \<Rightarrow> c | f # fs \<Rightarrow> enqueue_frame f (c\<lparr>c_posted := fs\<rparr>))"

definition client_write_done :: "bool \<Rightarrow> client \<Rightarrow> client" where
  "client_write_done ok c =
     (case c_pending_writes c of
        [] \<Rightarrow> c
      | buf # bufs \<Rightarrow>
          let c1 = c\<lparr>c_pending_writes := bufs\<rparr>
          in if ok then
               let c2 = c1\<lparr>c_wire := c_wire c1 @ buf, c_write_queue := tl (c_write_queue c1)\<rparr>
               in if c_write_queue c2 = [] then c2\<lparr>c_writing := False\<rparr> else client_doWriteNext c2
             else notify_connection False (c1\<lparr>connected := False\<rparr>))"

subsection \<open>Connecting\<close>

text \<open>
  What resolving and connecting give: an exception, which may leave the socket open, or a connection. Assigning
  a new thread to \<^verbatim>\<open>io_thread_\<close> while it is joinable calls \<^verbatim>\<open>std::terminate\<close>: the result \<open>None\<close>.
\<close>

datatype attempt = Refused bool | Accepted

definition connect :: "attempt \<Rightarrow> client \<Rightarrow> (bool \<times> client) option" where
  "connect a c =
     (if connected c then Some (True, c)
      else case a of
             Refused left_open \<Rightarrow> Some (False, c\<lparr>c_socket_open := left_open\<rparr>)
           | Accepted \<Rightarrow>
               let c1 = c\<lparr>c_socket_open := True, c_wire := [], connected := True, running := True\<rparr>
               in if io_thread c1 then None
                  else Some (True, notify_connection True (startRead (c1\<lparr>io_thread := True\<rparr>))))"

text \<open>
  \<^verbatim>\<open>disconnect\<close> in two parts, since the other thread may still run handlers before the context is stopped.
  A thread that joins itself (\<open>own\<close>: the call comes from a callback) gets an exception, which is caught.
\<close>

definition disconnect_close :: "client \<Rightarrow> client" where
  "disconnect_close c = c\<lparr>running := False, c_socket_open := False\<rparr>"

definition disconnect_stop :: "bool \<Rightarrow> client \<Rightarrow> client" where
  "disconnect_stop own c =
     (let c1 = c\<lparr>io_stopped := True\<rparr>
      in if io_thread c1 \<and> own then c1
         else notify_connection False (c1\<lparr>io_thread := False, connected := False\<rparr>))"

definition disconnect :: "bool \<Rightarrow> client \<Rightarrow> client" where
  "disconnect own c = (if \<not> connected c then c else disconnect_stop own (disconnect_close c))"

text \<open>
  The body of the destructor: a thread that is still joinable when it is destroyed calls \<^verbatim>\<open>std::terminate\<close>. When it
  runs is another matter: the handlers of an outstanding read or write hold a \<^verbatim>\<open>shared_ptr\<close> to the client, so that
  dropping the last reference from outside (\<open>release_client\<close>) destroys it only when none is outstanding. A client whose context has
  been stopped with an operation outstanding is never destroyed, since the context is a part of it.
\<close>

definition destroy_client :: "client \<Rightarrow> client option" where
  "destroy_client c = (let c1 = disconnect False c in if io_thread c1 then None else Some c1)"

definition release_client :: "client \<Rightarrow> client option" where
  "release_client c =
     (if c_pending_read c = None \<and> c_pending_writes c = [] then destroy_client c else Some c)"

subsection \<open>Requests\<close>

fun request :: "env \<Rightarrow> Message \<Rightarrow> client \<Rightarrow> client" where
  "request e m c = (if \<not> connected c then c else client_write (serialize e m) c)"

definition submitOrder :: "env \<Rightarrow> string \<Rightarrow> string \<Rightarrow> OrderSide \<Rightarrow> double \<Rightarrow> u32 \<Rightarrow> client \<Rightarrow> client" where
  "submitOrder e client_id smb sd prc qty =
     request e (OrderSubmit \<lparr>sub_client_id = client_id, sub_symbol = smb, sub_side = sd, sub_order_type = LIMIT,
       sub_price = prc, sub_stop_price = 0, sub_quantity = qty\<rparr>)"

definition client_cancelOrder :: "env \<Rightarrow> string \<Rightarrow> string \<Rightarrow> client \<Rightarrow> client" where
  "client_cancelOrder e order_id client_id =
     request e (OrderCancel \<lparr>can_order_id = order_id, can_client_id = client_id\<rparr>)"

definition requestOrderbookSnapshot :: "env \<Rightarrow> string \<Rightarrow> client \<Rightarrow> client" where
  "requestOrderbookSnapshot e smb = request e (SnapshotRequest \<lparr>req_symbol = smb\<rparr>)"

definition requestOrderStatus :: "env \<Rightarrow> string \<Rightarrow> string \<Rightarrow> client \<Rightarrow> client" where
  "requestOrderStatus e order_id client_id =
     request e (OrderStatusMsg \<lparr>st_order_id = order_id, st_client_id = client_id, st_symbol = [], st_side = BUY,
       st_order_type = LIMIT, st_price = 0, st_stop_price = 0, st_quantity = 0, st_filled_quantity = 0,
       st_status = PENDING, st_order_timestamp = 0\<rparr>)"

text \<open>The levels of the test snapshot; the sums are of small whole numbers and exact.\<close>

definition test_levels :: "double \<Rightarrow> double \<Rightarrow> u32 \<Rightarrow> PriceLevel list" where
  "test_levels prc diff qty =
     map (\<lambda>i. \<lparr>l_price = prc + of_nat i * diff, l_quantity = qty + of_nat i, l_order_count = int i + 1\<rparr>) [0..<3]"

definition client_injectTestMessage :: "env \<Rightarrow> string \<Rightarrow> client \<Rightarrow> client" where
  "client_injectTestMessage e smb =
     handleData e (serialize e (OrderbookSnapshot \<lparr>snap_symbol = smb, snap_bids = test_levels 1000 (- 10) 5,
       snap_asks = test_levels 1010 10 3\<rparr>))"

end
