(* ===== verification/Client_Props.thy ===== *)
theory Client_Props
  imports Client
begin

text \<open>
  Properties of the client library: it is an instance of the interfaces of \<^verbatim>\<open>Framed_Stream\<close>, so that what it
  writes is delivered by a session of the server and what a session writes is delivered by it; and what
  becomes of it when its connection has ended.
\<close>

subsection \<open>Steps\<close>

text \<open>The handlers, which only a running context executes.\<close>

inductive client_io :: "env \<Rightarrow> client \<Rightarrow> client \<Rightarrow> bool" for e where
  posted: "io_thread c \<Longrightarrow> \<not> io_stopped c \<Longrightarrow> client_io e c (posted_done c)"
| header: "io_thread c \<Longrightarrow> \<not> io_stopped c \<Longrightarrow> c_pending_read c = Some ReadHeader \<Longrightarrow>
    client_io e c (client_header_done r c)"
| content: "io_thread c \<Longrightarrow> \<not> io_stopped c \<Longrightarrow> c_pending_read c = Some (ReadContent n) \<Longrightarrow>
    (case r of Done bs \<Rightarrow> length bs = n | Failed \<Rightarrow> True) \<Longrightarrow> client_io e c (client_content_done e r c)"
| written: "io_thread c \<Longrightarrow> \<not> io_stopped c \<Longrightarrow> client_io e c (client_write_done ok c)"

text \<open>The calls of the program, interleaved with handlers; the list is the requests taken by the step.\<close>

inductive client_step :: "env \<Rightarrow> client \<Rightarrow> Message list \<Rightarrow> client \<Rightarrow> bool" for e where
  io: "client_io e c c' \<Longrightarrow> client_step e c [] c'"
| message_callback: "client_step e c [] (setMessageCallback c)"
| connection_callback: "client_step e c [] (setConnectionCallback c)"
| connect: "connect a c = Some (r, c') \<Longrightarrow> client_step e c [] c'"
| request: "client_step e c (if connected c \<and> c_socket_open c then [m] else []) (request e m c)"
| disconnect: "connected c \<Longrightarrow> (client_io e)\<^sup>*\<^sup>* (disconnect_close c) c' \<Longrightarrow> client_step e c [] (disconnect_stop own c')"
| inject: "client_step e c [] (client_injectTestMessage e smb c)"

inductive client_run :: "env \<Rightarrow> Message list \<Rightarrow> client \<Rightarrow> bool" for e where
  init: "client_run e [] new_client"
| step: "client_run e ms c \<Longrightarrow> client_step e c l c' \<Longrightarrow> client_run e (ms @ l) c'"

definition client_later :: "env \<Rightarrow> client \<Rightarrow> client \<Rightarrow> bool" where
  "client_later e = (\<lambda>c c'. \<exists>l. client_step e c l c')\<^sup>*\<^sup>*"

subsection \<open>Writing\<close>

interpretation client_writer: framed_writer c_socket_open c_wire c_write_queue c_pending_writes c_writing
  "\<lambda>f. f" enqueue_frame "client_write_done True"
  by unfold_locales
    (auto simp: enqueue_frame_def client_write_done_def client_doWriteNext_def Let_def split: list.splits if_splits)

definition client_frames :: "env \<Rightarrow> Message list \<Rightarrow> u8 list list" where
  "client_frames e ms = map (\<lambda>m. frameMessage (serialize e m)) ms"

definition idle :: "client \<Rightarrow> bool" where
  "idle c \<longleftrightarrow> c_posted c = [] \<and> c_write_queue c = [] \<and> \<not> c_writing c \<and> c_pending_writes c = []"

definition flowing :: "env \<Rightarrow> Message list \<Rightarrow> client \<Rightarrow> bool" where
  "flowing e ms c \<longleftrightarrow> (\<exists>fs. client_frames e ms = fs @ c_posted c \<and> client_writer.in_order fs c)"

definition client_inv :: "env \<Rightarrow> Message list \<Rightarrow> client \<Rightarrow> bool" where
  "client_inv e ms c \<longleftrightarrow> io_stopped c \<or>
     (if io_thread c then connected c \<longrightarrow> flowing e ms c else \<not> connected c \<and> ms = [] \<and> idle c)"

lemmas client_defs = client_header_done_def client_content_done_def handleData_def startRead_def
  lose_connection_def notify_connection_def Let_def

lemma flowing_same:
  assumes "flowing e ms c" "c_posted c' = c_posted c" "c_wire c' = c_wire c" "c_write_queue c' = c_write_queue c"
    "c_pending_writes c' = c_pending_writes c" "c_writing c' = c_writing c"
  shows "flowing e ms c'"
  using assms client_writer.in_order_same[of _ c c'] unfolding flowing_def by auto

lemma flowing_posted: "flowing e ms c \<Longrightarrow> flowing e ms (posted_done c)"
proof (cases "c_posted c")
  case (Cons f gs)
  assume "flowing e ms c"
  then obtain fs where fs: "client_frames e ms = fs @ c_posted c" "client_writer.in_order fs c"
    by (auto simp: flowing_def)
  let ?c = "c\<lparr>c_posted := gs\<rparr>"
  have "client_writer.in_order fs ?c" using client_writer.in_order_same[OF fs(2), of ?c] by simp
  then have "client_writer.in_order (fs @ [f]) (enqueue_frame f ?c)" by (rule client_writer.in_order_push)
  moreover have "c_posted (enqueue_frame f ?c) = gs"
    by (simp add: enqueue_frame_def client_doWriteNext_def Let_def)
  ultimately show ?thesis using fs(1) Cons by (auto simp: flowing_def posted_done_def)
qed (simp add: posted_done_def)

lemma flowing_written: "flowing e ms c \<Longrightarrow> flowing e ms (client_write_done True c)"
proof -
  have "c_posted (client_write_done True c) = c_posted c"
    by (simp add: client_write_done_def client_doWriteNext_def Let_def split: list.split)
  then show "flowing e ms c \<Longrightarrow> flowing e ms (client_write_done True c)"
    using client_writer.in_order_pop unfolding flowing_def by metis
qed

text \<open>Handlers keep the thread and the context; only the connection may go.\<close>

lemma io_keeps:
  assumes "client_io e c c'"
  shows "io_thread c \<and> \<not> io_stopped c \<and> io_thread c' \<and> \<not> io_stopped c' \<and> (connected c' \<longrightarrow> connected c)"
  using assms
  by cases (auto simp: client_defs posted_done_def enqueue_frame_def client_doWriteNext_def client_write_done_def
      split: list.split completion.split)

lemma io_flowing:
  assumes "client_io e c c'" and "flowing e ms c" and "connected c'"
  shows "flowing e ms c'"
  using assms(1)
proof cases
  case posted
  then show ?thesis using flowing_posted[OF assms(2)] by simp
next
  case (header r)
  show ?thesis using assms(2)
    by (rule flowing_same) (simp_all add: header client_defs split: completion.split)
next
  case (content n r)
  show ?thesis using assms(2)
    by (rule flowing_same) (simp_all add: content client_defs split: completion.split)
next
  case (written ok)
  show ?thesis
  proof (cases ok)
    case True
    then show ?thesis using flowing_written[OF assms(2)] written by simp
  next
    case False
    then show ?thesis using assms(2,3) written
      by (cases "c_pending_writes c") (auto simp: client_write_done_def notify_connection_def Let_def split: if_splits)
  qed
qed

lemma client_inv_step:
  assumes "client_inv e ms c" and "client_step e c l c'"
  shows "client_inv e (ms @ l) c'"
  using assms(2)
proof cases
  case io
  then show ?thesis using assms(1) io_keeps[of e c c'] io_flowing[of e c c' ms] by (auto simp: client_inv_def)
next
  case message_callback
  then show ?thesis using assms(1) flowing_same[of e ms c c']
    by (auto simp: client_inv_def setMessageCallback_def idle_def split: if_splits)
next
  case connection_callback
  then show ?thesis using assms(1) flowing_same[of e ms c c']
    by (auto simp: client_inv_def setConnectionCallback_def idle_def split: if_splits)
next
  case (connect a r)
  then show ?thesis using assms(1) flowing_same[of e ms c c']
    by (auto simp: client_inv_def connect_def client_defs idle_def flowing_def client_frames_def
        client_writer.in_order_def split: if_splits attempt.splits)
next
  case (request m)
  then show ?thesis using assms(1) client_writer.in_order_same[of _ c c']
    by (auto simp: client_inv_def client_write_def flowing_def client_frames_def idle_def split: if_splits)
next
  case (disconnect c1 own)
  then show ?thesis by (simp add: client_inv_def disconnect_stop_def notify_connection_def Let_def)
next
  case (inject smb)
  then show ?thesis using assms(1) flowing_same[of e ms c c']
    by (auto simp: client_inv_def client_injectTestMessage_def handleData_def idle_def Let_def split: if_splits)
qed

lemma client_run_inv: "client_run e ms c \<Longrightarrow> client_inv e ms c"
proof (induction rule: client_run.induct)
  case init
  show ?case by (simp add: client_inv_def new_client_def idle_def)
qed (rule client_inv_step)

lemma client_run_flowing:
  "client_run e ms c \<Longrightarrow> connected c \<Longrightarrow> \<not> io_stopped c \<Longrightarrow> io_thread c \<and> flowing e ms c"
  using client_run_inv[of e ms c] by (auto simp: client_inv_def split: if_splits)

lemma client_wire:
  assumes "client_run e ms c" and "connected c" and "\<not> io_stopped c"
  shows "\<exists>k \<le> length ms. c_wire c = concat (client_frames e (take k ms)) \<and>
    (c_posted c = [] \<and> c_write_queue c = [] \<longrightarrow> k = length ms)"
proof -
  obtain fs where fs: "client_frames e ms = fs @ c_posted c" "client_writer.in_order fs c"
    using client_run_flowing[OF assms] by (auto simp: flowing_def)
  from fs(2) obtain k where k: "k \<le> length fs" "c_wire c = concat (take k fs)" "c_write_queue c = drop k fs"
    by (rule client_writer.in_orderE) simp
  have len: "length ms = length fs + length (c_posted c)"
    using arg_cong[OF fs(1), of length] by (simp add: client_frames_def)
  have "take k fs = client_frames e (take k ms)"
    using arg_cong[OF fs(1), of "take k"] k(1) by (simp add: client_frames_def take_map)
  then show ?thesis using k len by (intro exI[of _ k]) auto
qed

subsection \<open>Reading\<close>

fun client_pending :: "client \<Rightarrow> nat option" where
  "client_pending c =
     (case c_pending_read c of None \<Rightarrow> None | Some ReadHeader \<Rightarrow> Some HEADER_SIZE | Some (ReadContent n) \<Rightarrow> Some n)"

fun client_complete :: "env \<Rightarrow> u8 list \<Rightarrow> client \<Rightarrow> client" where
  "client_complete e bs c = (case c_pending_read c of
       Some (ReadContent n) \<Rightarrow> client_content_done e (Done bs) c | _ \<Rightarrow> client_header_done (Done bs) c)"

definition client_received :: "env \<Rightarrow> string \<Rightarrow> client \<Rightarrow> client" where
  "client_received e t c = c\<lparr>c_length_buffer := take 4 (frameMessage t), c_content_buffer := bytes_of t,
     c_read_state := HEADER, c_pending_read := Some ReadHeader,
     c_events := c_events c @ (if c_message_callback c then [Received (parseMessage e t)] else [])\<rparr>"

definition client_ready :: "client \<Rightarrow> bool" where
  "client_ready c \<longleftrightarrow> c_pending_read c = Some ReadHeader \<and> running c \<and> c_socket_open c"

interpretation client_reader: framed_reader client_pending "client_complete e" "client_reads e" client_ready
  "client_received e" for e
proof
  fix bs and c :: client
  show "client_reads e bs c = (case client_pending c of None \<Rightarrow> (c, bs)
      | Some n \<Rightarrow> if length bs < n then (c, bs) else client_reads e (drop n bs) (client_complete e (take n bs) c))"
    by (subst client_reads.simps) (simp split: option.split read_op.split)
next
  fix c :: client assume "client_pending c = Some 0"
  then show "client_pending (client_complete e [] c) \<noteq> Some 0"
    by (auto simp: HEADER_SIZE_def client_defs split: option.splits read_op.splits)
next
  fix c :: client and t :: string assume "client_ready c" "frameable t"
  then show "client_pending (client_complete e (take 4 (frameMessage t)) c) = Some (length t)"
    using frameable_length[of t] by (simp add: client_header_done_def client_ready_def HEADER_SIZE_def)
next
  fix c :: client and t :: string assume "client_ready c" "frameable t"
  then show "client_complete e (bytes_of t) (client_complete e (take 4 (frameMessage t)) c) = client_received e t c"
    using frameable_length[of t]
    by (simp add: client_content_done_def client_header_done_def handleData_def startRead_def client_ready_def
        HEADER_SIZE_def client_received_def)
qed (simp_all add: client_received_def client_ready_def)

lemma fold_client_received:
  "c_message_callback c \<Longrightarrow>
   c_events (fold (client_received e) ts c) = c_events c @ map (\<lambda>t. Received (parseMessage e t)) ts"
  "connected (fold (client_received e) ts c) = connected c"
  by (induction ts arbitrary: c) (simp_all add: client_received_def)

subsection \<open>Properties\<close>

definition wire_ok :: "env \<Rightarrow> Message \<Rightarrow> bool" where
  "wire_ok e m \<longleftrightarrow> sendable e m \<and> frameable (serialize e m)"

lemma wire_ok_delivered:
  "list_all (wire_ok e) ms \<Longrightarrow> map (\<lambda>m. parseMessage e' (serialize e m)) ms = map (delivered e e') ms"
  by (simp add: list_all_iff wire_ok_def message_roundtrip)

lemma wire_ok_short: "sendable e m \<Longrightarrow> serialize e m \<noteq> [] \<and> length (serialize e m) \<le> 200 \<Longrightarrow> wire_ok e m"
  by (simp add: wire_ok_def frameable_def)

lemma wire_ok_take: "list_all (wire_ok e) ms \<Longrightarrow> list_all (wire_ok e) (take k ms)"
  by (metis append_take_drop_id list_all_append)

lemma wire_ok_frameable: "list_all (wire_ok e) ms \<Longrightarrow> list_all frameable (map (serialize e) ms)"
  by (simp add: list_all_iff wire_ok_def)


definition sample_client :: client where
  "sample_client = snd (the (connect Accepted (setMessageCallback (setConnectionCallback new_client))))"

lemma sample_client_connect:
  "connect Accepted (setMessageCallback (setConnectionCallback new_client)) = Some (True, sample_client)"
  by (simp add: sample_client_def connect_def setMessageCallback_def setConnectionCallback_def new_client_def Let_def)

lemma sample_client_run: "client_run e [] sample_client"
proof -
  have "client_run e [] (setMessageCallback (setConnectionCallback new_client))"
    using client_run.step[OF client_run.step[OF client_run.init client_step.connection_callback]
        client_step.message_callback] by simp
  from client_run.step[OF this client_step.connect[OF sample_client_connect]] show ?thesis by simp
qed

lemma sample_client_simps [simp]:
  "connected sample_client" "c_socket_open sample_client" "io_thread sample_client" "\<not> io_stopped sample_client"
  "c_pending_read sample_client = Some ReadHeader" "c_connection_callback sample_client"
  by (simp_all add: sample_client_def connect_def setMessageCallback_def setConnectionCallback_def new_client_def
      startRead_def notify_connection_def Let_def)


text \<open>
  C19. Replies reach the client: a client that has just connected, in whatever time zone, and reads what the socket of an open
  session has accepted, cut into any chunks, stays connected and hands to its callback exactly the
  first messages the session was given, in order, each once, with times cut to whole seconds and moved by
  the clock error between the two ends, and all of them once the queue of the session is empty.
\<close>

theorem server_to_client:
  assumes "session_run e ms s" and "is_open s"
    and "list_all (wire_ok e) ms" and "concat chunks = wire s"
    and "connect Accepted (setMessageCallback (setConnectionCallback new_client)) = Some (r, c)"
  shows "\<exists>k c'. k \<le> length ms \<and> feed (client_reads e') chunks (c, []) = (c', []) \<and> connected c' \<and>
    c_events c' = Connection True # map (\<lambda>m. Received (delivered e e' m)) (take k ms) \<and>
    (write_messages s = [] \<longrightarrow> k = length ms)"
proof -
  have "session_writer.in_order e ms s"
    using session_write_inv[OF assms(1)] assms(2) by (simp add: write_inv_def)
  then obtain k where k: "k \<le> length ms" "wire s = concat (map (\<lambda>m. frameMessage (serialize e m)) (take k ms))"
    "write_messages s = map (\<lambda>m. frameMessage (serialize e m)) (drop k ms)"
    by (rule session_writer.in_orderE)
  let ?ms = "take k ms"
  have ok: "list_all (wire_ok e) ?ms" using assms(3) by (rule wire_ok_take)
  have c: "client_ready c" "connected c" "c_message_callback c" "c_events c = [Connection True]"
    using assms(5) by (auto simp: connect_def setMessageCallback_def setConnectionCallback_def new_client_def
        notify_connection_def startRead_def client_ready_def Let_def)
  have "concat chunks = concat (map frameMessage (map (serialize e) ?ms))"
    using assms(4) k(2) by (simp add: comp_def)
  with c(1) wire_ok_frameable[OF ok]
  have "feed (client_reads e') chunks (c, []) = (fold (client_received e') (map (serialize e) ?ms) c, [])"
    by (rule client_reader.feed_frames)
  moreover have "c_events (fold (client_received e') (map (serialize e) ?ms) c) =
      Connection True # map Received (map (\<lambda>m. parseMessage e' (serialize e m)) ?ms)"
    using fold_client_received(1)[OF c(3)] c(4) by (simp add: comp_def)
  moreover have "map Received (map (\<lambda>m. parseMessage e' (serialize e m)) ?ms) =
      map (\<lambda>m. Received (delivered e e' m)) ?ms"
    using wire_ok_delivered[OF ok] by (simp add: comp_def)
  ultimately show ?thesis
    using k(1,3) c(2) fold_client_received(2)[of e' _ c] by (intro exI[of _ k]) auto
qed

text \<open>A trade of the first of July, sent within New York, reaches the callback an hour late.\<close>

lemma sample_trade_wire: "wire_ok new_york_env (sample_trade_at summer)"
proof (rule wire_ok_short[OF sample_sendable(3)])
  have "time_ok new_york_env summer" using sample_sendable(3) by (simp add: sample_trade_at_def)
  note put_stamp_length[OF time_ok_tm[OF this]]
  moreover have "length (show_fixed2 (fl (1999 / 100))) = 5" "length (pad3 (show_int (millis summer))) = 3"
    "length (show_uint32 3) = 1" by code_simp+
  ultimately show "serialize new_york_env (sample_trade_at summer) \<noteq> [] \<and>
      length (serialize new_york_env (sample_trade_at summer)) \<le> 200"
    by (simp add: sample_trade_at_def serialize_TradeNotification_def timePointToString_def)
qed

theorem server_to_client_witness:
  "\<exists>c'. feed (client_reads new_york_env) [wire (write_done True (sendMessage new_york_env (Some (sample_trade_at summer))
        (start (setDisconnectCallback (new_session True)))))] (sample_client, []) = (c', []) \<and>
     c_events c' = [Connection True, Received (sample_trade_at (summer - 500000000 + 3600 * 10 ^ 9))]"
proof -
  let ?m = "sample_trade_at summer"
  let ?s = "write_done True (sendMessage new_york_env (Some ?m) (start (setDisconnectCallback (new_session True))))"
  have run: "session_run new_york_env [?m] ?s"
    using session_run.written[OF session_run.send[OF session_run.init]] by simp
  have s: "is_open ?s" "write_messages ?s = []"
    by (simp_all add: start_def doRead_def setDisconnectCallback_def new_session_def sendMessage_def doWriteNext_def
        write_done_def Let_def)
  have "list_all (wire_ok new_york_env) [?m]" using sample_trade_wire by (simp only: list.pred_inject simp_thms)
  moreover have "concat [wire ?s] = wire ?s" by (simp only: concat.simps append_Nil2)
  ultimately obtain k c' where c': "feed (client_reads new_york_env) [wire ?s] (sample_client, []) = (c', [])"
    "c_events c' = Connection True # map (\<lambda>m. Received (delivered new_york_env new_york_env m)) (take k [?m])"
    "k = length [?m]"
    using server_to_client[OF run s(1) _ _ sample_client_connect, of "[wire ?s]" new_york_env] s(2) by blast
  have "c_events c' = [Connection True, Received (delivered new_york_env new_york_env ?m)]" using c'(2,3) by simp
  with c'(1) show ?thesis unfolding sample_arrivals by blast
qed

lemma stopped_stays: "client_step e c l c' \<Longrightarrow> io_stopped c \<Longrightarrow> io_stopped c' \<and> (c_wire c = [] \<longrightarrow> c_wire c' = [])"
proof (induction rule: client_step.induct)
  case (disconnect c c' own)
  have "c' = disconnect_close c"
    using disconnect(2)
  proof (cases rule: converse_rtranclpE)
    case (step c1)
    then show ?thesis using disconnect.prems io_keeps[OF step(1)] by (simp add: disconnect_close_def)
  qed simp
  then show ?case by (simp add: disconnect_stop_def disconnect_close_def notify_connection_def Let_def)
qed (auto simp: setMessageCallback_def setConnectionCallback_def connect_def client_defs client_write_def
      client_injectTestMessage_def dest: io_keeps split: if_splits attempt.splits)

lemma stopped_later:
  assumes "client_later e c c'" and "io_stopped c" and "c_wire c = []"
  shows "io_stopped c' \<and> c_wire c' = []"
  using assms(1)[unfolded client_later_def] assms(2,3)
  by (induction rule: rtranclp_induct) (auto dest: stopped_stays)

lemma io_never_stopped: "io_stopped c \<Longrightarrow> \<not> client_io e c c'"
  using io_keeps by blast

text \<open>
  C28. A client connects once. When its connection is lost (the peer closes it, an invalid length arrives, a
  write fails), a new attempt that reaches the server ends the process, since the thread of the first
  connection is still joinable, and so does the destructor, which is safe while the client is connected. After \<^verbatim>\<open>disconnect\<close> a new attempt reports success, but the context has
  been stopped for good: no handler is ever run again and nothing is ever written.
\<close>

theorem client_connects_once:
  assumes "client_run e ms c" and "connected c" and "\<not> io_stopped c"
  shows "(\<forall>c'. client_io e c c' \<and> \<not> connected c' \<longrightarrow> connect Accepted c' = None \<and> destroy_client c' = None) \<and>
    destroy_client c \<noteq> None \<and>
    (\<forall>c'. (client_io e)\<^sup>*\<^sup>* (disconnect_close c) c' \<longrightarrow>
       (\<exists>d. connect Accepted (disconnect_stop False c') = Some (True, d) \<and> connected d \<and>
          (\<forall>d'. client_later e d d' \<longrightarrow> c_wire d' = [] \<and> (\<forall>d''. \<not> client_io e d' d''))))"
proof (intro conjI allI impI; (elim conjE)?)
  fix c' assume lost: "client_io e c c'" "\<not> connected c'"
  then show "connect Accepted c' = None" using io_keeps[of e c c'] by (simp add: connect_def Let_def)
  show "destroy_client c' = None" using lost io_keeps[of e c c'] by (simp add: destroy_client_def disconnect_def)
next
  show "destroy_client c \<noteq> None"
    using assms(2) by (simp add: destroy_client_def disconnect_def disconnect_stop_def notify_connection_def Let_def)
next
  fix c'
  let ?c = "disconnect_stop False c'"
  have "io_stopped ?c" "\<not> io_thread ?c" "\<not> connected ?c"
    by (simp_all add: disconnect_stop_def notify_connection_def Let_def)
  then obtain d where d: "connect Accepted ?c = Some (True, d)" "connected d" "io_stopped d" "c_wire d = []"
    by (simp add: connect_def startRead_def notify_connection_def Let_def)
  then show "\<exists>d. connect Accepted ?c = Some (True, d) \<and> connected d \<and>
      (\<forall>d'. client_later e d d' \<longrightarrow> c_wire d' = [] \<and> (\<forall>d''. \<not> client_io e d' d''))"
    using stopped_later[of e d] io_never_stopped[of _ e] by blast
qed

theorem client_connects_once_witness:
  "connect Accepted (client_header_done Failed sample_client) = None \<and>
   destroy_client (client_header_done Failed sample_client) = None"
proof -
  have "client_io utc_env sample_client (client_header_done Failed sample_client)"
    by (rule client_io.header) simp_all
  moreover have "\<not> connected (client_header_done Failed sample_client)"
    by (simp add: client_header_done_def lose_connection_def notify_connection_def)
  ultimately show ?thesis
    using client_connects_once[OF sample_client_run[of utc_env]] by simp
qed

end
