(* ===== verification/Test_Client.thy ===== *)
theory Test_Client
  imports Client_Props Iso_Time
begin

text \<open>
  The test program of the client library (\<^verbatim>\<open>client/src/test_client.cpp\<close>): command line, the four automated tests, the
  interactive mode and the end of the program. What it prints is left out.

  The program's thread and the thread of the client library run side by side. The callbacks of the
  library only set two flags, which the program reads when it waits; \<open>io k\<close> is what the library's
  thread does to the client during the \<open>k\<close>-th wait or sleep of the program, and the program sees the
  callbacks made up to then.
\<close>

subsection \<open>Callbacks and waiting\<close>

record flags =
  received_response :: bool
  connection_event :: bool

text \<open>Trades do not count as a response.\<close>

definition messageHandler :: "Message \<Rightarrow> flags \<Rightarrow> flags" where
  "messageHandler m f = (case m of TradeNotification t \<Rightarrow> f | _ \<Rightarrow> f\<lparr>received_response := True\<rparr>)"

definition connectionHandler :: "bool \<Rightarrow> flags \<Rightarrow> flags" where
  "connectionHandler up f = f\<lparr>connection_event := True\<rparr>"

fun handle_event :: "client_event \<Rightarrow> flags \<Rightarrow> flags" where
  "handle_event (Received m) f = messageHandler m f"
| "handle_event (Connection up) f = connectionHandler up f"

record tester =
  t_client :: client
  t_seen :: nat
  t_flags :: flags

definition catch_up :: "tester \<Rightarrow> tester" where
  "catch_up t =
     t\<lparr>t_flags := fold handle_event (drop (t_seen t) (c_events (t_client t))) (t_flags t),
       t_seen := length (c_events (t_client t))\<rparr>"

definition elapse :: "(nat \<Rightarrow> client \<Rightarrow> client) \<Rightarrow> nat \<Rightarrow> tester \<Rightarrow> tester" where
  "elapse io k t = catch_up (t\<lparr>t_client := io k (t_client t)\<rparr>)"

definition waitForResponse :: "(nat \<Rightarrow> client \<Rightarrow> client) \<Rightarrow> nat \<Rightarrow> tester \<Rightarrow> bool \<times> tester" where
  "waitForResponse io k t =
     (let t1 = elapse io k t; result = received_response (t_flags t1)
      in (result, if result then t1\<lparr>t_flags := (t_flags t1)\<lparr>received_response := False\<rparr>\<rparr> else t1))"

definition waitForConnection :: "(nat \<Rightarrow> client \<Rightarrow> client) \<Rightarrow> nat \<Rightarrow> tester \<Rightarrow> bool \<times> tester" where
  "waitForConnection io k t =
     (let t1 = elapse io k t; result = connection_event (t_flags t1)
      in (result, if result then t1\<lparr>t_flags := (t_flags t1)\<lparr>connection_event := False\<rparr>\<rparr> else t1))"

definition on_client :: "(client \<Rightarrow> client) \<Rightarrow> tester \<Rightarrow> tester" where
  "on_client f t = catch_up (t\<lparr>t_client := f (t_client t)\<rparr>)"

text \<open>Whether a response came in time, and the state after the wait and the sleep.\<close>

definition runTestCase ::
  "(nat \<Rightarrow> client \<Rightarrow> client) \<Rightarrow> nat \<Rightarrow> (client \<Rightarrow> client) \<Rightarrow> tester \<Rightarrow> bool \<times> tester" where
  "runTestCase io k test_func t =
     (let t1 = t\<lparr>t_flags := (t_flags t)\<lparr>received_response := False\<rparr>\<rparr>;
          t2 = on_client test_func t1;
          (result, t3) = waitForResponse io k t2
      in (result, elapse io (Suc k) t3))"

subsection \<open>Command line\<close>

record test_options =
  tc_host :: string
  tc_port :: "16 word"
  tc_client_id :: string
  tc_symbol :: string
  tc_debug :: bool

definition test_defaults :: "int \<Rightarrow> test_options" where
  "test_defaults now = \<lparr>tc_host = ''127.0.0.1'', tc_port = 8080, tc_client_id = ''test_client_'' @ show_int now,
     tc_symbol = ''AAPL'', tc_debug = False\<rparr>"

text \<open>\<open>None\<close> is the exception of \<^verbatim>\<open>std::stoi\<close>, which nothing catches. Other arguments are skipped.\<close>

fun test_args :: "string list \<Rightarrow> test_options \<Rightarrow> test_options option" where
  "test_args [] opts = Some opts"
| "test_args (arg # args) opts =
     (if arg = ''--debug'' then test_args args (opts\<lparr>tc_debug := True\<rparr>)
      else case args of
             [] \<Rightarrow> test_args args opts
           | value # rest \<Rightarrow>
               if arg = ''--host'' then test_args rest (opts\<lparr>tc_host := value\<rparr>)
               else if arg = ''--port'' then
                 (case stoi value of
                    None \<Rightarrow> None
                  | Some n \<Rightarrow> test_args rest (opts\<lparr>tc_port := word_of_int n\<rparr>))
               else if arg = ''--client'' then test_args rest (opts\<lparr>tc_client_id := value\<rparr>)
               else if arg = ''--symbol'' then test_args rest (opts\<lparr>tc_symbol := value\<rparr>)
               else test_args args opts)"

subsection \<open>Interactive mode\<close>

text \<open>\<^verbatim>\<open>iss >> text\<close>: the word read, empty when only white space is left, and the rest of the stream.\<close>

definition read_word :: "string \<Rightarrow> string \<times> string" where
  "read_word str =
     (let s = dropWhile is_space str
      in (takeWhile (\<lambda>c. \<not> is_space c) s, dropWhile (\<lambda>c. \<not> is_space c) s))"

text \<open>
  The rest of the stream after \<^verbatim>\<open>iss >> price\<close>; \<open>None\<close> when the extraction fails, for lack of a number or
  because it is out of range, after which nothing more is read.
\<close>

definition rest_exponent :: "string \<Rightarrow> string option" where
  "rest_exponent t =
     (case t of [] \<Rightarrow> Some []
      | c # r \<Rightarrow>
          if c = CHR ''e'' \<or> c = CHR ''E''
          then (case split_sign r of
                  (neg, u) \<Rightarrow> if takeWhile is_digit u = [] then None else Some (dropWhile is_digit u))
          else Some t)"

definition rest_double :: "string \<Rightarrow> string option" where
  "rest_double str =
     (case split_sign (dropWhile is_space str) of
        (neg, t) \<Rightarrow>
          (case split_fraction (dropWhile is_digit t) of
             (fp, r) \<Rightarrow>
               let ds = takeWhile is_digit t @ fp
               in if ds = [] then None
                  else case scan_exponent r of
                    None \<Rightarrow> None
                  | Some ex \<Rightarrow>
                      if \<bar>fl (of_nat (digits_val ds) * ten_pow (ex - int (length fp)))\<bar> > dbl_max then None
                      else rest_exponent r))"

text \<open>
  The price and the quantity of an order command. A variable that is not read keeps the value it
  was not initialised with.
\<close>

definition read_terms :: "env \<Rightarrow> string \<Rightarrow> double \<times> u32" where
  "read_terms e str =
     (scan_double (junk_double e) str,
      case (if dropWhile is_space str = [] then None else rest_double str) of
        None \<Rightarrow> junk_uint32 e
      | Some rest \<Rightarrow> scan_uint32 (junk_uint32 e) rest)"

definition run_command :: "env \<Rightarrow> test_options \<Rightarrow> string \<Rightarrow> client \<Rightarrow> client" where
  "run_command e opts line c =
     (case read_word line of
        (cmd, iss) \<Rightarrow>
          if cmd = ''snapshot'' then
            let sym = fst (read_word iss)
            in requestOrderbookSnapshot e (if sym = [] then tc_symbol opts else sym) c
          else if cmd = ''buy'' \<or> cmd = ''sell'' then
            let (sym, rest) = read_word iss;
                (price, qty) = (if sym = [] then (junk_double e, junk_uint32 e) else read_terms e rest);
                side = (if cmd = ''buy'' then BUY else SELL)
            in submitOrder e (tc_client_id opts) (if sym = [] then tc_symbol opts else sym) side
                 (if price \<le> 0 then 100 else price) (if qty \<le> 0 then 100 else qty) c
          else if cmd = ''status'' then
            let order_id = fst (read_word iss)
            in if order_id \<noteq> [] then requestOrderStatus e order_id (tc_client_id opts) c else c
          else c)"

text \<open>
  The loop over the lines of the standard input. At the end of the input \<^verbatim>\<open>std::getline\<close> leaves the command empty and
  the loop goes on for ever: \<open>None\<close>.
\<close>

fun interactive ::
  "env \<Rightarrow> test_options \<Rightarrow> (nat \<Rightarrow> client \<Rightarrow> client) \<Rightarrow> nat \<Rightarrow> string list \<Rightarrow> tester \<Rightarrow> tester option" where
  "interactive e opts io k [] t = None"
| "interactive e opts io k (command # lines) t =
     (if command = ''exit'' then Some t
      else interactive e opts io (Suc k) lines (elapse io k (on_client (run_command e opts command) t)))"

subsection \<open>The program\<close>

definition automated_tests :: "env \<Rightarrow> test_options \<Rightarrow> (nat \<Rightarrow> client \<Rightarrow> client) \<Rightarrow> tester \<Rightarrow> tester" where
  "automated_tests e opts io t =
     (let t1 = snd (runTestCase io 1 (requestOrderbookSnapshot e (tc_symbol opts)) t);
          t2 = snd (runTestCase io 3 (submitOrder e (tc_client_id opts) (tc_symbol opts) BUY (311 / 2) 100) t1);
          t3 = snd (runTestCase io 5 (submitOrder e (tc_client_id opts) (tc_symbol opts) SELL 156 100) t2);
          t4 = snd (runTestCase io 7 (requestOrderbookSnapshot e (tc_symbol opts)) t3)
      in elapse io 9 t4)"

text \<open>From the connection to the last sleep before \<^verbatim>\<open>disconnect\<close>; \<open>None\<close> when the interactive mode never ends.\<close>

definition test_session ::
  "env \<Rightarrow> test_options \<Rightarrow> (nat \<Rightarrow> client \<Rightarrow> client) \<Rightarrow> string list \<Rightarrow> tester \<Rightarrow> tester option" where
  "test_session e opts io lines t =
     (let t1 = automated_tests e opts io t
      in case (if tc_debug opts then interactive e opts io 12 lines t1 else Some t1) of
           None \<Rightarrow> None
         | Some t2 \<Rightarrow> Some (elapse io 10 t2))"

text \<open>The ends of the program, with the client as it is then: a status, \<^verbatim>\<open>std::terminate\<close>, or none.\<close>

datatype test_result = TestExit int client | Terminated client | Endless

text \<open>
  \<^verbatim>\<open>main\<close> returns and drops its reference to the client. If a handler of the library still holds one, the process
  ends before the client does.
\<close>

definition return_main :: "int \<Rightarrow> client \<Rightarrow> test_result" where
  "return_main status c = (case release_client c of None \<Rightarrow> Terminated c | Some c' \<Rightarrow> TestExit status c')"

text \<open>\<^verbatim>\<open>client->disconnect()\<close>; handlers may run until the context is stopped.\<close>

definition leave :: "(nat \<Rightarrow> client \<Rightarrow> client) \<Rightarrow> client \<Rightarrow> client" where
  "leave io c = (if \<not> connected c then c else disconnect_stop False (io 11 (disconnect_close c)))"

text \<open>\<open>a\<close> is what the attempt to connect meets.\<close>

definition test_main ::
  "env \<Rightarrow> test_options \<Rightarrow> attempt \<Rightarrow> (nat \<Rightarrow> client \<Rightarrow> client) \<Rightarrow> string list \<Rightarrow> test_result" where
  "test_main e opts a io lines =
     (let c0 = setConnectionCallback (setMessageCallback new_client)
      in case connect a c0 of
        None \<Rightarrow> Terminated c0
      | Some (ok, c) \<Rightarrow>
          if \<not> ok then return_main 1 c
          else
            (case waitForConnection io 0 (catch_up \<lparr>t_client = c, t_seen = 0,
                     t_flags = \<lparr>received_response = False, connection_event = False\<rparr>\<rparr>) of
               (up, t) \<Rightarrow>
                 if \<not> up then return_main 1 (t_client t)
                 else case test_session e opts io lines t of
                        None \<Rightarrow> Endless
                      | Some t1 \<Rightarrow> return_main 0 (leave io (t_client t1))))"

subsection \<open>The requests of the program\<close>

definition command_request :: "env \<Rightarrow> test_options \<Rightarrow> string \<Rightarrow> Message list" where
  "command_request e opts line =
     (let (cmd, iss) = read_word line; (sym, rest) = read_word iss;
          smb = (if sym = [] then tc_symbol opts else sym);
          (price, qty) = (if sym = [] then (junk_double e, junk_uint32 e) else read_terms e rest)
      in if cmd = ''snapshot'' then [SnapshotRequest \<lparr>req_symbol = smb\<rparr>]
         else if cmd = ''buy'' \<or> cmd = ''sell'' then
           [OrderSubmit \<lparr>sub_client_id = tc_client_id opts, sub_symbol = smb,
              sub_side = (if cmd = ''buy'' then BUY else SELL), sub_order_type = LIMIT,
              sub_price = (if price \<le> 0 then 100 else price), sub_stop_price = 0,
              sub_quantity = (if qty = 0 then 100 else qty)\<rparr>]
         else if cmd = ''status'' \<and> sym \<noteq> [] then
           [OrderStatusMsg \<lparr>st_order_id = sym, st_client_id = tc_client_id opts, st_symbol = [], st_side = BUY,
              st_order_type = LIMIT, st_price = 0, st_stop_price = 0, st_quantity = 0, st_filled_quantity = 0,
              st_status = PENDING, st_order_timestamp = 0\<rparr>]
         else [])"

definition test_requests :: "env \<Rightarrow> test_options \<Rightarrow> string list \<Rightarrow> Message list" where
  "test_requests e opts lines =
     (let snapshot = SnapshotRequest \<lparr>req_symbol = tc_symbol opts\<rparr>;
          order = (\<lambda>sd prc. OrderSubmit \<lparr>sub_client_id = tc_client_id opts, sub_symbol = tc_symbol opts, sub_side = sd,
            sub_order_type = LIMIT, sub_price = prc, sub_stop_price = 0, sub_quantity = 100\<rparr>)
      in [snapshot, order BUY (311 / 2), order SELL 156, snapshot] @
         (if tc_debug opts then concat (map (command_request e opts) (takeWhile (\<lambda>l. l \<noteq> ''exit'') lines)) else []))"

lemma run_command_request: "run_command e opts line c = fold (request e) (command_request e opts line) c"
  by (simp add: run_command_def command_request_def requestOrderbookSnapshot_def submitOrder_def requestOrderStatus_def
      Let_def case_prod_beta del: request.simps)

text \<open>
  A client that has taken the requests \<open>ms\<close>: their frames, in order, are what its socket has accepted, what waits in
  its queue and what waits for its thread.
\<close>

definition taken :: "env \<Rightarrow> Message list \<Rightarrow> client \<Rightarrow> bool" where
  "taken e ms c \<longleftrightarrow> c_wire c @ concat (c_write_queue c) @ concat (c_posted c) = concat (client_frames e ms)"

text \<open>The same as an invariant of the handlers: writes flow, or one has failed and no other is started.\<close>

definition holding :: "env \<Rightarrow> Message list \<Rightarrow> client \<Rightarrow> bool" where
  "holding e ms c \<longleftrightarrow> io_thread c \<and> \<not> io_stopped c \<and>
     (flowing e ms c \<or> c_pending_writes c = [] \<and> c_writing c \<and> taken e ms c)"

lemma flowing_taken: "flowing e ms c \<Longrightarrow> taken e ms c"
  unfolding flowing_def taken_def using client_writer.in_order_sent by fastforce

lemma holding_taken: "holding e ms c \<Longrightarrow> taken e ms c"
  by (auto simp: holding_def flowing_taken)

lemma flowing_write_failed:
  assumes "flowing e ms c"
  shows "flowing e ms (client_write_done False c) \<or> c_pending_writes (client_write_done False c) = [] \<and>
    c_writing (client_write_done False c) \<and> taken e ms (client_write_done False c)"
proof (cases "c_pending_writes c")
  case (Cons buf bufs)
  have "bufs = []" "c_writing c"
    using assms Cons unfolding flowing_def client_writer.in_order_def by (cases "c_write_queue c"; auto)+
  then show ?thesis using flowing_taken[OF assms] Cons
    by (simp add: client_write_done_def notify_connection_def taken_def Let_def)
qed (use assms in \<open>simp add: client_write_done_def\<close>)

lemma holding_handler:
  assumes "client_io e c c'" and "holding e ms c"
  shows "holding e ms c'"
proof -
  note keeps = io_keeps[OF assms(1)]
  show ?thesis
  proof (cases "flowing e ms c")
    case True
    from assms(1) have "flowing e ms c' \<or> c_pending_writes c' = [] \<and> c_writing c' \<and> taken e ms c'"
    proof cases
      case posted
      then show ?thesis using flowing_posted[OF True] by simp
    next
      case (header r)
      have "flowing e ms c'" using True
        by (rule flowing_same) (simp_all add: header client_defs split: completion.split)
      then show ?thesis ..
    next
      case (content n r)
      have "flowing e ms c'" using True
        by (rule flowing_same) (simp_all add: content client_defs split: completion.split)
      then show ?thesis ..
    next
      case (written ok)
      then show ?thesis using flowing_written[OF True] flowing_write_failed[OF True] by (cases ok) auto
    qed
    then show ?thesis using keeps by (simp add: holding_def)
  next
    case False
    then have "c_pending_writes c = []" "c_writing c" "taken e ms c" using assms(2) by (auto simp: holding_def)
    with assms(1) have "c_pending_writes c' = [] \<and> c_writing c' \<and> taken e ms c'"
      by cases (auto simp: taken_def client_defs posted_done_def enqueue_frame_def client_write_done_def
          split: list.split completion.split)
    then show ?thesis using keeps by (simp add: holding_def)
  qed
qed

lemma holding_io: "(client_io e)\<^sup>*\<^sup>* c c' \<Longrightarrow> holding e ms c \<Longrightarrow> holding e ms c'"
  by (induction rule: rtranclp_induct) (auto intro: holding_handler)

lemma holding_same:
  assumes "holding e ms c" "io_thread c' = io_thread c" "io_stopped c' = io_stopped c" "c_posted c' = c_posted c"
    "c_wire c' = c_wire c" "c_write_queue c' = c_write_queue c" "c_pending_writes c' = c_pending_writes c"
    "c_writing c' = c_writing c"
  shows "holding e ms c'"
  using assms flowing_same[of e ms c c'] by (auto simp: holding_def taken_def)

lemma holding_request:
  assumes "holding e ms c" and "connected c" and "c_socket_open c"
  shows "holding e (ms @ [m]) (request e m c)"
proof -
  have c': "request e m c = c\<lparr>c_posted := c_posted c @ [frameMessage (serialize e m)]\<rparr>" (is "_ = ?c")
    using assms(2,3) by (simp add: client_write_def)
  have "flowing e (ms @ [m]) ?c" if "flowing e ms c"
    using that client_writer.in_order_same[of _ c ?c] by (auto simp: flowing_def client_frames_def)
  then show ?thesis unfolding c' using assms(1) by (auto simp: holding_def taken_def client_frames_def)
qed

text \<open>A client that has been given the requests \<open>ms\<close>: it has taken the first of them, and all while it is connected.\<close>

definition on_track :: "env \<Rightarrow> Message list \<Rightarrow> client \<Rightarrow> bool" where
  "on_track e ms c \<longleftrightarrow>
     (\<exists>k. holding e (take k ms) c \<and> (connected c \<longrightarrow> length ms \<le> k \<and> c_socket_open c))"

lemma io_socket: "client_io e c c' \<Longrightarrow> connected c' \<Longrightarrow> c_socket_open c \<Longrightarrow> c_socket_open c'"
  by (erule client_io.cases) (auto simp: client_defs posted_done_def enqueue_frame_def client_doWriteNext_def
      client_write_done_def split: list.splits completion.splits if_splits)

lemma track_handler: "client_io e c c' \<Longrightarrow> on_track e ms c \<Longrightarrow> on_track e ms c'"
  unfolding on_track_def using holding_handler io_keeps io_socket by blast

lemma track_io: "(client_io e)\<^sup>*\<^sup>* c c' \<Longrightarrow> on_track e ms c \<Longrightarrow> on_track e ms c'"
  by (induction rule: rtranclp_induct) (auto intro: track_handler)

text \<open>The library's thread does nothing to the client but run handlers.\<close>

definition only_handlers :: "env \<Rightarrow> (nat \<Rightarrow> client \<Rightarrow> client) \<Rightarrow> bool" where
  "only_handlers e io \<longleftrightarrow> (\<forall>k c. (client_io e)\<^sup>*\<^sup>* c (io k c))"

lemma track_thread: "only_handlers e io \<Longrightarrow> on_track e ms c \<Longrightarrow> on_track e ms (io k c)"
  unfolding only_handlers_def by (blast intro: track_io)

lemma track_request:
  assumes "on_track e ms c"
  shows "on_track e (ms @ [m]) (request e m c)"
proof -
  obtain k where k: "holding e (take k ms) c" "connected c \<longrightarrow> length ms \<le> k \<and> c_socket_open c"
    using assms by (auto simp: on_track_def)
  show ?thesis
  proof (cases "connected c")
    case True
    with k have "holding e (take (length (ms @ [m])) (ms @ [m])) (request e m c)"
      using holding_request[of e ms c m] by simp
    then show ?thesis using True k(2) unfolding on_track_def by (intro exI conjI) (auto simp: client_write_def)
  next
    case False
    have "take (min k (length ms)) (ms @ [m]) = take k ms" by (simp add: min_def)
    then show ?thesis using False k(1) unfolding on_track_def by (intro exI[of _ "min k (length ms)"]) simp
  qed
qed

lemma track_requests: "on_track e ms c \<Longrightarrow> on_track e (ms @ l) (fold (request e) l c)"
proof (induction l arbitrary: ms c)
  case (Cons m l)
  then show ?case using Cons.IH[OF track_request[OF Cons.prems]] by (simp del: request.simps)
qed simp

lemma catch_up_client [simp]: "t_client (catch_up t) = t_client t"
  by (simp add: catch_up_def)

lemma on_client_client [simp]: "t_client (on_client f t) = f (t_client t)"
  by (simp add: on_client_def)

lemma elapse_client [simp]: "t_client (elapse io k t) = io k (t_client t)"
  by (simp add: elapse_def)

lemma runTestCase_client [simp]: "t_client (snd (runTestCase io k f t)) = io (Suc k) (io k (f (t_client t)))"
  by (simp add: runTestCase_def waitForResponse_def Let_def)

lemma interactive_track:
  assumes io: "only_handlers e io" and "on_track e ms (t_client t)"
  shows "(interactive e opts io k lines t = None \<longleftrightarrow> ''exit'' \<notin> set lines) \<and>
    (\<forall>t'. interactive e opts io k lines t = Some t' \<longrightarrow>
       on_track e (ms @ concat (map (command_request e opts) (takeWhile (\<lambda>l. l \<noteq> ''exit'') lines))) (t_client t'))"
  using assms(2)
proof (induction lines arbitrary: k t ms)
  case (Cons l lines)
  let ?t = "elapse io k (on_client (run_command e opts l) t)"
  have "on_track e (ms @ command_request e opts l) (t_client ?t)"
    using track_thread[OF io track_requests[OF Cons.prems]] by (simp add: run_command_request)
  from Cons.IH[OF this, of "Suc k"] show ?case using Cons.prems by simp
qed simp

lemma test_track:
  assumes io: "only_handlers e io" and "on_track e ms (t_client t)"
  shows "on_track e (ms @ [m]) (t_client (snd (runTestCase io k (request e m) t)))"
  unfolding runTestCase_client by (intro track_thread[OF io] track_request assms(2))

lemma automated_track:
  assumes io: "only_handlers e io" and t: "on_track e [] (t_client t)"
  shows "on_track e (test_requests e (opts\<lparr>tc_debug := False\<rparr>) lines) (t_client (automated_tests e opts io t))"
proof -
  have "on_track e (((([] @ [a]) @ [b]) @ [c]) @ [d])
      (t_client (elapse io 9 (snd (runTestCase io 7 (request e d) (snd (runTestCase io 5 (request e c)
        (snd (runTestCase io 3 (request e b) (snd (runTestCase io 1 (request e a) t))))))))))" for a b c d
    unfolding elapse_client by (intro track_thread[OF io] test_track[OF io] t)
  then show ?thesis
    unfolding automated_tests_def test_requests_def Let_def requestOrderbookSnapshot_def submitOrder_def
    by (simp del: request.simps elapse_client runTestCase_client)
qed

lemma session_track:
  assumes io: "only_handlers e io" and "on_track e [] (t_client t)"
  shows "(test_session e opts io lines t = None \<longleftrightarrow> tc_debug opts \<and> ''exit'' \<notin> set lines) \<and>
    (\<forall>t'. test_session e opts io lines t = Some t' \<longrightarrow> on_track e (test_requests e opts lines) (t_client t'))"
proof -
  note auto = automated_track[OF assms, of opts lines]
  show ?thesis
    using interactive_track[OF io auto, where opts = opts and k = 12 and lines = lines] auto track_thread[OF io]
    by (auto simp: test_session_def test_requests_def Let_def split: option.splits)
qed

lemma connection_seen: "connection_event f \<Longrightarrow> connection_event (fold handle_event evs f)"
proof (induction evs arbitrary: f)
  case (Cons ev evs)
  have "connection_event (handle_event ev f)" using Cons.prems
    by (cases ev) (simp_all add: messageHandler_def connectionHandler_def split: Message.split)
  then show ?case using Cons.IH by simp
qed simp

lemma release_unthreaded: "\<not> io_thread c \<Longrightarrow> \<not> connected c \<Longrightarrow> release_client c = Some c"
  by (simp add: release_client_def destroy_client_def disconnect_def)

lemma release_lost:
  assumes "io_thread c" and "\<not> connected c"
  shows "release_client c = (if c_pending_read c = None \<and> c_pending_writes c = [] then None else Some c)"
  using assms by (simp add: release_client_def destroy_client_def disconnect_def)

text \<open>How the program ends after its last sleep.\<close>

lemma main_returns:
  assumes io: "only_handlers e io" and "on_track e ms c"
  shows "\<exists>k c'. taken e (take k ms) c' \<and> \<not> connected c' \<and>
    (connected c \<and> return_main 0 (leave io c) = TestExit 0 c' \<and> io_stopped c' \<and> \<not> io_thread c' \<and> length ms \<le> k \<or>
     \<not> connected c \<and> \<not> io_stopped c' \<and> io_thread c' \<and>
       return_main 0 (leave io c) =
         (if c_pending_read c' = None \<and> c_pending_writes c' = [] then Terminated c' else TestExit 0 c'))"
proof -
  obtain k where k: "holding e (take k ms) c" "connected c \<longrightarrow> length ms \<le> k" using assms(2) by (auto simp: on_track_def)
  show ?thesis
  proof (cases "connected c")
    case True
    define c1 where "c1 = io 11 (disconnect_close c)"
    have "holding e (take k ms) (disconnect_close c)"
      by (rule holding_same[OF k(1)]) (simp_all add: disconnect_close_def)
    then have "holding e (take k ms) c1" using io holding_io unfolding c1_def only_handlers_def by blast
    then have "taken e (take k ms) (disconnect_stop False c1)"
      using holding_taken by (fastforce simp: taken_def disconnect_stop_def notify_connection_def Let_def)
    moreover have stop: "io_stopped (disconnect_stop False c1)" "\<not> io_thread (disconnect_stop False c1)"
      "\<not> connected (disconnect_stop False c1)"
      by (simp_all add: disconnect_stop_def notify_connection_def Let_def)
    moreover have "return_main 0 (leave io c) = TestExit 0 (disconnect_stop False c1)"
      using True stop release_unthreaded by (simp add: return_main_def leave_def c1_def)
    ultimately show ?thesis using True k(2) by blast
  next
    case False
    have "io_thread c" "\<not> io_stopped c" "taken e (take k ms) c" using k(1) holding_taken by (auto simp: holding_def)
    with False show ?thesis by (intro exI[of _ k] exI[of _ c]) (simp add: return_main_def leave_def release_lost)
  qed
qed

text \<open>
  C29. The test program. If the server cannot be reached it ends with status 1 and has sent nothing. Otherwise, whatever handlers
  the library's thread runs meanwhile: it never ends exactly when the interactive mode is on and no input line is \<open>exit\<close>.
  When it ends with a status, that is 0, and the frames the client has sent and still holds are those of the four test requests and those of
  the commands, in order: all of them if the connection was up until the program closed it (the context is stopped), the first ones if
  the connection was lost before and a handler still holds the client. When the connection was lost and no handler holds the client, the program is terminated by
  the runtime, since the library's thread was never joined; again the client has taken the first requests.
\<close>

theorem test_client_outcome:
  assumes "only_handlers e io"
  shows "(\<exists>c. test_main e opts (Refused left_open) io lines = TestExit 1 c \<and> c_wire c = []) \<and>
    (test_main e opts Accepted io lines = Endless \<longleftrightarrow> tc_debug opts \<and> ''exit'' \<notin> set lines) \<and>
    (\<forall>n c. test_main e opts Accepted io lines = TestExit n c \<longrightarrow> n = 0 \<and> \<not> connected c \<and>
       (if io_stopped c then taken e (test_requests e opts lines) c \<and> \<not> io_thread c
        else (\<exists>k. taken e (take k (test_requests e opts lines)) c) \<and> io_thread c \<and>
          (c_pending_read c \<noteq> None \<or> c_pending_writes c \<noteq> []))) \<and>
    (\<forall>c. test_main e opts Accepted io lines = Terminated c \<longrightarrow>
       \<not> connected c \<and> io_thread c \<and> \<not> io_stopped c \<and> c_pending_read c = None \<and> c_pending_writes c = [] \<and>
       (\<exists>k. taken e (take k (test_requests e opts lines)) c))"
proof -
  define c0 where "c0 = setConnectionCallback (setMessageCallback new_client)"
  obtain c where c: "connect Accepted c0 = Some (True, c)" "on_track e [] c"
    "c_events c = [Connection True]"
  proof -
    obtain c where c: "connect Accepted c0 = Some (True, c)" "io_thread c" "\<not> io_stopped c" "c_socket_open c"
      "c_events c = [Connection True]" "idle c" "c_wire c = []"
      by (simp add: c0_def connect_def new_client_def setMessageCallback_def setConnectionCallback_def client_defs idle_def)
    have "flowing e [] c" using c(6,7) by (simp add: flowing_def client_frames_def idle_def client_writer.in_order_def)
    then show thesis using that c by (auto simp: on_track_def holding_def)
  qed
  let ?t = "catch_up \<lparr>t_client = c, t_seen = 0, t_flags = \<lparr>received_response = False, connection_event = False\<rparr>\<rparr>"
  obtain t where wait: "waitForConnection io 0 ?t = (True, t)" "t_client t = io 0 c"
  proof -
    have "connection_event (t_flags ?t)" using c(3) by (simp add: catch_up_def connectionHandler_def)
    then have "connection_event (t_flags (elapse io 0 ?t))" by (simp add: elapse_def catch_up_def connection_seen)
    then show thesis using that by (simp add: waitForConnection_def Let_def)
  qed
  have "on_track e [] (t_client t)" using track_thread[OF assms c(2)] wait(2) by simp
  note session = session_track[OF assms this, of opts lines]
  have main: "test_main e opts Accepted io lines = (case test_session e opts io lines t of None \<Rightarrow> Endless
      | Some t1 \<Rightarrow> return_main 0 (leave io (t_client t1)))"
    using c(1) wait(1) by (simp add: test_main_def c0_def Let_def)
  have refused: "\<exists>c. test_main e opts (Refused left_open) io lines = TestExit 1 c \<and> c_wire c = []"
    by (simp add: test_main_def connect_def setMessageCallback_def setConnectionCallback_def new_client_def
        return_main_def release_unthreaded)
  show ?thesis
  proof (cases "test_session e opts io lines t")
    case None
    then show ?thesis using session main refused by simp
  next
    case (Some t1)
    then have tr: "on_track e (test_requests e opts lines) (t_client t1)" and "\<not> (tc_debug opts \<and> ''exit'' \<notin> set lines)"
      using session by auto
    with main_returns[OF assms tr] main refused Some show ?thesis by (auto split: if_splits)
  qed
qed

text \<open>A thread that has nothing to do, and one that finds the connection closed by the server.\<close>

definition quiet_thread :: "nat \<Rightarrow> client \<Rightarrow> client" where
  "quiet_thread k c = c"

definition losing_thread :: "nat \<Rightarrow> client \<Rightarrow> client" where
  "losing_thread k c =
     (if io_thread c \<and> \<not> io_stopped c \<and> c_pending_read c = Some ReadHeader then client_header_done Failed c else c)"

lemma sample_threads: "only_handlers e quiet_thread" "only_handlers e losing_thread"
  by (auto simp: only_handlers_def quiet_thread_def losing_thread_def intro: client_io.header)

lemma request_keeps [simp]:
  "connected (request e m c) = connected c" "io_thread (request e m c) = io_thread c"
  "io_stopped (request e m c) = io_stopped c" "c_pending_read (request e m c) = c_pending_read c"
  "c_pending_writes (request e m c) = c_pending_writes c" "c_wire (request e m c) = c_wire c"
  "c_write_queue (request e m c) = c_write_queue c"
  by (simp_all add: client_write_def)

lemma fresh_connection:
  "connect Accepted (setConnectionCallback (setMessageCallback new_client)) =
     Some (True, new_client\<lparr>c_message_callback := True, c_connection_callback := True, c_socket_open := True,
       connected := True, running := True, io_thread := True, c_pending_read := Some ReadHeader, c_events := [Connection True]\<rparr>)"
  by (simp add: connect_def new_client_def setMessageCallback_def setConnectionCallback_def startRead_def notify_connection_def Let_def)

lemma losing_closed:
  assumes "\<not> connected c" and "c_pending_read c = None"
  shows "losing_thread k c = c"
  using assms by (simp add: losing_thread_def)

lemma request_closed: "\<not> connected c \<Longrightarrow> request e m c = c"
  by simp

lemmas test_defs = test_main_def test_session_def automated_tests_def waitForConnection_def fresh_connection
  requestOrderbookSnapshot_def submitOrder_def test_defaults_def Let_def

lemma connection_elapse:
  "c_events c = [Connection True] \<Longrightarrow>
   connection_event (t_flags (elapse io k (catch_up \<lparr>t_client = c, t_seen = 0, t_flags = f\<rparr>)))"
  by (simp add: elapse_def catch_up_def connection_seen connectionHandler_def)

lemma quiet_end:
  "\<exists>c. test_main e (test_defaults n) Accepted quiet_thread [] = TestExit 0 c \<and> io_stopped c \<and>
     c_wire c = [] \<and> c_write_queue c = []"
  by (simp add: test_defs connection_elapse quiet_thread_def return_main_def leave_def release_unthreaded disconnect_stop_def
      disconnect_close_def notify_connection_def del: request.simps) (simp add: new_client_def)

lemma losing_end: "\<exists>c. test_main e (test_defaults n) Accepted losing_thread [] = Terminated c \<and> c_wire c = []"
proof -
  let ?c = "new_client\<lparr>c_message_callback := True, c_connection_callback := True, c_socket_open := False,
    connected := False, running := True, io_thread := True, c_events := [Connection True, Connection False]\<rparr>"
  have lost: "losing_thread 0 (new_client\<lparr>c_message_callback := True, c_connection_callback := True, c_socket_open := True,
      connected := True, running := True, io_thread := True, c_pending_read := Some ReadHeader, c_events := [Connection True]\<rparr>) = ?c"
    by (simp add: losing_thread_def client_header_done_def lose_connection_def notify_connection_def new_client_def)
  have closed: "\<not> connected ?c" "c_pending_read ?c = None" "c_pending_writes ?c = []" "io_thread ?c" "c_wire ?c = []"
    by (simp_all add: new_client_def)
  have "return_main 0 (leave losing_thread ?c) = Terminated ?c"
    using closed by (simp add: return_main_def leave_def release_lost)
  then have "test_main e (test_defaults n) Accepted losing_thread [] = Terminated ?c"
    using closed by (simp add: test_defs connection_elapse lost losing_closed request_closed del: request.simps)
  then show ?thesis using closed(5) by blast
qed

theorem test_client_outcome_witness:
  "test_main utc_env ((test_defaults 5)\<lparr>tc_debug := True\<rparr>) Accepted quiet_thread [''snapshot'', ''buy ACME 10 3''] = Endless \<and>
   (\<exists>c. test_main utc_env (test_defaults 5) Accepted quiet_thread [] = TestExit 0 c \<and> c_wire c = [] \<and>
      concat (c_posted c) = concat (client_frames utc_env
        [SnapshotRequest \<lparr>req_symbol = ''AAPL''\<rparr>,
         OrderSubmit \<lparr>sub_client_id = ''test_client_5'', sub_symbol = ''AAPL'', sub_side = BUY, sub_order_type = LIMIT,
           sub_price = 311 / 2, sub_stop_price = 0, sub_quantity = 100\<rparr>,
         OrderSubmit \<lparr>sub_client_id = ''test_client_5'', sub_symbol = ''AAPL'', sub_side = SELL, sub_order_type = LIMIT,
           sub_price = 156, sub_stop_price = 0, sub_quantity = 100\<rparr>,
         SnapshotRequest \<lparr>req_symbol = ''AAPL''\<rparr>])) \<and>
   (\<exists>c. test_main utc_env (test_defaults 5) Accepted losing_thread [] = Terminated c \<and> \<not> connected c \<and> io_thread c)"
proof (intro conjI)
  let ?debug = "(test_defaults 5)\<lparr>tc_debug := True\<rparr>" and ?lines = "[''snapshot'', ''buy ACME 10 3'']"
  have "tc_debug ?debug \<and> ''exit'' \<notin> set ?lines" by simp
  then show "test_main utc_env ?debug Accepted quiet_thread ?lines = Endless"
    using test_client_outcome[OF sample_threads(1), of utc_env ?debug False ?lines] by blast
  obtain c where c: "test_main utc_env (test_defaults 5) Accepted quiet_thread [] = TestExit 0 c" "io_stopped c"
    "c_wire c = []" "c_write_queue c = []" using quiet_end by blast
  have "taken utc_env (test_requests utc_env (test_defaults 5) []) c"
    using test_client_outcome[OF sample_threads(1), of utc_env "test_defaults 5" False "[]"] c(1,2) by auto
  moreover have "show_int 5 = ''5''" by code_simp
  ultimately show "\<exists>c. test_main utc_env (test_defaults 5) Accepted quiet_thread [] = TestExit 0 c \<and> c_wire c = [] \<and>
      concat (c_posted c) = concat (client_frames utc_env
        [SnapshotRequest \<lparr>req_symbol = ''AAPL''\<rparr>,
         OrderSubmit \<lparr>sub_client_id = ''test_client_5'', sub_symbol = ''AAPL'', sub_side = BUY, sub_order_type = LIMIT,
           sub_price = 311 / 2, sub_stop_price = 0, sub_quantity = 100\<rparr>,
         OrderSubmit \<lparr>sub_client_id = ''test_client_5'', sub_symbol = ''AAPL'', sub_side = SELL, sub_order_type = LIMIT,
           sub_price = 156, sub_stop_price = 0, sub_quantity = 100\<rparr>,
         SnapshotRequest \<lparr>req_symbol = ''AAPL''\<rparr>])"
    using c by (intro exI[of _ c]) (simp add: taken_def test_requests_def test_defaults_def Let_def)
  obtain d where "test_main utc_env (test_defaults 5) Accepted losing_thread [] = Terminated d" using losing_end by blast
  then show "\<exists>c. test_main utc_env (test_defaults 5) Accepted losing_thread [] = Terminated c \<and> \<not> connected c \<and> io_thread c"
    using test_client_outcome[OF sample_threads(2), of utc_env "test_defaults 5" False "[]"] by blast
qed

end
