(* ===== verification/Spec2Isabelle.thy ===== *)
theory Spec2Isabelle
  imports Book_Theorems Tick Sha_Spec Durable_Theorems Test_Client
begin

text \<open>
  Verification development of the order book trading system: a server that keeps one limit order book
  per symbol and trades orders by price and time, a client library, and what lies between them.

  \<^bold>\<open>The program.\<close> A client (\<^verbatim>\<open>client/src/client.cpp\<close>) turns calls into messages (\<^verbatim>\<open>common/src/message.cpp\<close>) and
  sends them as length-prefixed frames (\<^verbatim>\<open>MessageFrame\<close> in \<^verbatim>\<open>common/include/message.h\<close>). On the server each
  connection is a \<^verbatim>\<open>Session\<close> (\<^verbatim>\<open>server/src/session.cpp\<close>), which reads frames and hands the parsed messages to
  \<^verbatim>\<open>Server::handleMessage\<close> (\<^verbatim>\<open>server/src/server.cpp\<close>). The server checks login and permissions, changes the
  order books (\<^verbatim>\<open>common/src/orderbook.cpp\<close>, \<^verbatim>\<open>order.cpp\<close>) and through their callbacks records orders in the store
  (\<^verbatim>\<open>common/src/order_store.cpp\<close>, over SQLite), answers the client and broadcasts trades and snapshots to
  subscribers. Passwords are stored as salted SHA-256 (\<^verbatim>\<open>password_hash.h\<close>), ids are random UUIDs (\<^verbatim>\<open>uuid.cpp\<close>),
  and an optional generator (\<^verbatim>\<open>order_generator.cpp\<close>) produces orders. \<^verbatim>\<open>server/src/main.cpp\<close> puts it together;
  \<^verbatim>\<open>client/src/test_client.cpp\<close> is a program on top of the client library.

  \<^bold>\<open>The theories\<close>, from the bottom.
  \<^item> \<^verbatim>\<open>Prelude\<close>: types, named collections and lemmas shared by all. \<^verbatim>\<open>Std_Map\<close>: \<^verbatim>\<open>std::map\<close> as a sorted
    association list, its contract as the locale \<open>ordered_map\<close>. \<^verbatim>\<open>Float64\<close>: rounding of reals to
    binary64; a \<^verbatim>\<open>double\<close> is the rational number it stands for, and results that the source computes are rounded.
  \<^item> \<^verbatim>\<open>Orders\<close> (\<^verbatim>\<open>order.h\<close>, \<^verbatim>\<open>order.cpp\<close>) and \<^verbatim>\<open>OrderBook\<close> (\<^verbatim>\<open>orderbook.h\<close>, \<^verbatim>\<open>orderbook.cpp\<close>): the model of the matching
    engine. Orders are shared objects in a heap, as the book holds \<^verbatim>\<open>shared_ptr\<close>s; each public operation
    runs under the mutex of the book and is one step. The outer loops of matching and of stop orders
    are \<^verbatim>\<open>partial_function (option)\<close>: that they return is a theorem.
  \<^item> \<^verbatim>\<open>Match_Level\<close>, \<^verbatim>\<open>Book_Inv\<close>, \<^verbatim>\<open>Book_Ops\<close>, \<^verbatim>\<open>Engine\<close>, \<^verbatim>\<open>Book_Api\<close>: the invariant of the book, its preservation by every
    operation, termination, and reachable books. The locales \<open>matching_relation\<close> and \<open>engine_relation\<close> lift what
    single trades, cancellations and bookings preserve to whole calls; \<^verbatim>\<open>Ledger\<close> (quantities, recorded trades,
    callbacks), \<^verbatim>\<open>Stop_Orders\<close>, \<^verbatim>\<open>Order_Life\<close> and \<^verbatim>\<open>Quiet_Changes\<close> (orders that no callback names) interpret them. \<^verbatim>\<open>Price_Time\<close> is the abstract
    specification of matching, a greedy allocation, and the refinement. \<^verbatim>\<open>Market_Data\<close>: price levels.
    \<^verbatim>\<open>Scenario\<close>: the book of the witnesses. \<^verbatim>\<open>Book_Theorems\<close>, \<^verbatim>\<open>Tick\<close>: the properties.
  \<^item> \<^verbatim>\<open>Text_Io\<close> (the stream operators and conversions of the C++ library), \<^verbatim>\<open>Calendar\<close> (\<^verbatim>\<open>gmtime_r\<close>, \<^verbatim>\<open>timegm\<close>,
    \<^verbatim>\<open>put_time\<close>, \<^verbatim>\<open>get_time\<close>), \<^verbatim>\<open>Message\<close> (message classes, local times, \<^verbatim>\<open>serialize\<close>, \<^verbatim>\<open>parseMessage\<close>), \<^verbatim>\<open>Wire_Roundtrip\<close> (what is sent is
    what is read, times apart), \<^verbatim>\<open>Iso_Time\<close> (ISO times).
  \<^item> \<^verbatim>\<open>Framing\<close> (\<^verbatim>\<open>MessageFrame\<close>), \<^verbatim>\<open>Framed_Stream\<close> (the locales \<open>framed_writer\<close> and \<open>framed_reader\<close>, the
    contracts of the two ends of a connection), \<^verbatim>\<open>Session\<close> and \<^verbatim>\<open>Session_Props\<close>, \<^verbatim>\<open>Client\<close> and \<^verbatim>\<open>Client_Props\<close>: the state
    machines of both ends, each an instance of both contracts, and delivery from one end to the other.
    \<^verbatim>\<open>Test_Client\<close>: the test program and how it ends.
  \<^item> \<^verbatim>\<open>Password_Hash\<close>, \<^verbatim>\<open>Sha_Vectors\<close>, \<^verbatim>\<open>Uuid\<close>: SHA-256 on words, salts, ids. \<^verbatim>\<open>Sha_Spec\<close>: SHA-256 as the standard
    defines it (constants from the roots of primes, least padding, recurrences) and the equivalence. \<^verbatim>\<open>Order_Store\<close>, \<^verbatim>\<open>Store_Props\<close>: the
    store. \<^verbatim>\<open>Order_Generator\<close>: the generator.
  \<^item> \<^verbatim>\<open>Service\<close> (the locale \<open>matching_service\<close>: what the server relies on of its books, interpreted on the
    order book), \<^verbatim>\<open>Server\<close> (all handlers, callbacks, connections, start and stop), \<^verbatim>\<open>Server_Inv\<close> (invariant, totality of
    every operation, the step relation), \<^verbatim>\<open>Server_Theorems\<close>, \<^verbatim>\<open>Server_Main\<close> (command line, set-up, signal handler).
  \<^item> Persistence. \<^verbatim>\<open>Durability\<close>: when the rows of the order table mirror a map of books (\<open>mirrors\<close>), and that a submission
    and a cancellation keep this up. \<^verbatim>\<open>Durable_Server\<close>: the rows after each handler and the step relation
    \<open>durable_step\<close>. \<^verbatim>\<open>Recovery\<close>: the loop of \<^verbatim>\<open>initPersistence\<close> on the rows a run has left. \<^verbatim>\<open>Durable_Theorems\<close>: the two
    properties.

  \<^bold>\<open>What is shown.\<close>
  \<^item> The engine: matching implements the price-time allocation; every call returns; books stay
    consistent and uncrossed; quantities are conserved; trades are fair; orders end in the right state; stop
    orders trigger exactly; callbacks, cancellation, market data and tick rounding are exact, wrap-around of
    \<^verbatim>\<open>uint32_t\<close> totals included.
  \<^item> The wire: every message class survives printing and parsing, except that a time loses its fraction of a
    second and is moved by the clock error: it travels as local time and is read as standard time of
    the reader's zone, an hour late under daylight saving time. Sessions and clients read any
    segmentation of a stream, never buffer more than a megabyte of content, write in order; requests and replies
    arrive in order, once and with their content; a client connects only once.
  \<^item> The server: every reachable server handles every message; requests without login or permission have no
    effect; a submission is \<^verbatim>\<open>addOrder\<close> on one book; only the owner cancels; trades reach exactly the
    subscribers; accounts, closing; \<^verbatim>\<open>stop\<close> deadlocks exactly when a client is
    connected; every accepted command line gives a reachable server, or status 1 when the port is refused.
  \<^item> Persistence: the order table mirrors the books after every step, and the main program started again on it recovers
    every book with its open orders. Two kinds of active rows have no order: those of orders refused for a zero
    quantity, and those of stop orders that were triggered without trading, about which nobody is told; the recovery
    is stated for runs without the latter, and for symbols that are configured again.
  \<^item> The embedded SHA-256 equals the reference definition; the test program ends, hangs or is terminated
    exactly as stated, with the requests it was to make taken by its client, in order.

  \<^bold>\<open>Parameters and hypotheses.\<close> The time zone of a process is in the record \<open>env\<close> (the offset that \<^verbatim>\<open>localtime_r\<close> applies and
    what \<^verbatim>\<open>mktime\<close> makes of fields taken for standard time), and nothing is assumed of it: the two ends of a connection may have different ones. The
    ports the system grants are the argument \<open>binds\<close> of the main program. SQLite is the record \<open>sqlite\<close> with one field per statement (contract
    \<open>sqlite_ok\<close>: the documented effect of the statements); clocks, random draws and \<^verbatim>\<open>std::exp\<close> are functions in the
    record \<open>world\<close> or arguments. Durability also needs that the statements on orders succeed
    (\<open>durable_sql\<close>) and that generated ids are new, recovery that the database opens with the rows it was left with. Each
    contract is shown to hold of a concrete instance (\<open>mem_sqlite\<close>, \<open>reopening\<close>), and the time zones are instantiated by UTC and by New York
    with its daylight saving time of 2024 (\<open>utc_env\<close>, \<open>new_york_env\<close>). There is
    no fuel: loops are structural, have a measure, or are partial functions with a proof that they return.

  \<^bold>\<open>Concurrency.\<close> Handlers run on one \<^verbatim>\<open>io_context\<close> thread; the server is a relation whose steps are its
    handlers, completions and the turns of the generator, in any order. Locks matter where one thread takes one
    twice: the model of \<^verbatim>\<open>Server::stop\<close> tracks the mutexes held.

  \<^bold>\<open>Not modelled.\<close> Log output; failures of memory allocation and of starting a thread; overflow of doubles to infinity (the properties
    on prices bound them) and of the 64 bit count of nanoseconds, which ends in 2262 (a time is an integer); the bytes of partial writes; data races between the
    generator thread and the handlers inside one step; usage texts and what the test program prints; the web GUI and its
    bridge, which are not C++; the tests.
\<close>

end
